(* ===== verification/Prelude.thy ===== *)
theory Prelude
  imports Main "HOL-Library.Word" "HOL-Library.Monad_Syntax"
begin

text \<open>
  Shared vocabulary of the development.

  \<^item> \<open>usize\<close> is the 64-bit machine word of the targets (x86_64 and aarch64). Arithmetic
    written with \<open>+\<close>, \<open>-\<close>, \<open>*\<close> wraps around, as it does in the release profile
    that \<^verbatim>\<open>cfg/Config.mk\<close> selects by default.
  \<^item> The methods of Rust's unsigned integers that the sources call
    (\<open>saturating_add\<close>, \<open>saturating_sub\<close>, \<open>checked_add\<close>, \<open>checked_sub\<close>).
  \<^item> \<open>'a panics\<close>: the result of code that may panic. \<open>None\<close> means that the call does not
    return (an \<open>assert!\<close>, an \<open>unwrap\<close>, a \<open>todo!\<close>, an index out of bounds).
  \<^item> \<open>('a, 'e) result\<close>: Rust's \<open>Result\<close>, with \<open>Ok\<close> and \<open>Err\<close>.
  \<^item> Generic lemmas on words, word intervals and lists, collected in \<open>word_order\<close>.
\<close>

unbundle bit_operations_syntax

named_theorems word_order \<open>facts that move \<open>+ 1\<close> and \<open>- 1\<close> on words through the order\<close>

type_synonym usize = "64 word"
type_synonym u64 = "64 word"
type_synonym u32 = "32 word"
type_synonym u16 = "16 word"
type_synonym u8 = "8 word"
type_synonym 'a panics = "'a option"
type_synonym ('a, 'e) result = "'e + 'a"

abbreviation Ok :: "'a \<Rightarrow> ('a, 'e) result" where "Ok \<equiv> Inr"
abbreviation Err :: "'e \<Rightarrow> ('a, 'e) result" where "Err \<equiv> Inl"

abbreviation ok_option :: "('a, 'e) result \<Rightarrow> 'a option" where
  "ok_option r \<equiv> (case r of Inl _ \<Rightarrow> None | Inr a \<Rightarrow> Some a)"

abbreviation USIZE_MAX :: usize where "USIZE_MAX \<equiv> - 1"

text \<open>\<open>assert!\<close>: goes on with the unit value or panics.\<close>

definition assert_that :: "bool \<Rightarrow> unit panics" where
  "assert_that b = (if b then Some () else None)"

lemma assert_that_Some [simp]: "assert_that b = Some u \<longleftrightarrow> b"
  by (simp add: assert_that_def)

lemma assert_that_True [simp]: "assert_that True = Some ()"
  by (simp add: assert_that_def)

lemma bind_assert_Some [simp]:
  "Option.bind (assert_that b) f = Some y \<longleftrightarrow> b \<and> f () = Some y"
  by (simp add: assert_that_def)

section \<open>Integer methods of Rust's core library\<close>

definition saturating_add :: "'a::len word \<Rightarrow> 'a word \<Rightarrow> 'a word" where
  "saturating_add a b = (if a + b < a then - 1 else a + b)"

definition saturating_sub :: "'a::len word \<Rightarrow> 'a word \<Rightarrow> 'a word" where
  "saturating_sub a b = (if b \<le> a then a - b else 0)"

definition checked_add :: "'a::len word \<Rightarrow> 'a word \<Rightarrow> 'a word option" where
  "checked_add a b = (if a + b < a then None else Some (a + b))"

definition checked_sub :: "'a::len word \<Rightarrow> 'a word \<Rightarrow> 'a word option" where
  "checked_sub a b = (if b \<le> a then Some (a - b) else None)"

lemma unat_lt_2p: "unat (a :: 'a::len word) < 2 ^ LENGTH('a)"
  by (fact unsigned_less)

lemma word_add_overflow_iff:
  fixes a b :: "'a::len word"
  shows "a + b < a \<longleftrightarrow> 2 ^ LENGTH('a) \<le> unat a + unat b"
proof (cases "unat a + unat b < 2 ^ LENGTH('a)")
  case True
  then have "unat (a + b) = unat a + unat b" by (simp add: unat_word_ariths)
  with True show ?thesis by (simp add: word_less_nat_alt)
next
  case False
  moreover have "unat a + unat b - 2 ^ LENGTH('a) < 2 ^ LENGTH('a)"
    using unat_lt_2p [of a] unat_lt_2p [of b] by linarith
  ultimately have "unat (a + b) = unat a + unat b - 2 ^ LENGTH('a)"
    by (simp add: unat_word_ariths le_mod_geq)
  moreover have "unat a + unat b - 2 ^ LENGTH('a) < unat a"
    using unat_lt_2p [of b] False by linarith
  ultimately show ?thesis using False by (simp add: word_less_nat_alt)
qed

lemma unat_saturating_add:
  fixes a b :: "'a::len word"
  shows "unat (saturating_add a b) = min (2 ^ LENGTH('a) - 1) (unat a + unat b)"
proof (cases "unat a + unat b < 2 ^ LENGTH('a)")
  case True
  then have "\<not> a + b < a" by (simp add: word_add_overflow_iff)
  moreover have "unat (a + b) = unat a + unat b" using True by (simp add: unat_word_ariths)
  ultimately show ?thesis using True by (simp add: saturating_add_def)
next
  case False
  then have "a + b < a" by (simp add: word_add_overflow_iff)
  with False show ?thesis
    by (simp add: saturating_add_def unsigned_minus_1_eq_mask mask_eq_exp_minus_1 min_absorb1)
qed

lemma unat_saturating_sub: "unat (saturating_sub a b) = unat a - unat b"
  by (auto simp: saturating_sub_def word_le_nat_alt unat_sub)

lemma checked_add_Some_iff:
  fixes a b c :: "'a::len word"
  shows "checked_add a b = Some c \<longleftrightarrow> unat c = unat a + unat b"
proof
  assume "checked_add a b = Some c"
  then have "\<not> a + b < a" and c: "c = a + b" by (auto simp: checked_add_def split: if_splits)
  then have "unat a + unat b < 2 ^ LENGTH('a)" by (simp add: word_add_overflow_iff)
  then show "unat c = unat a + unat b" by (simp add: c unat_word_ariths)
next
  assume *: "unat c = unat a + unat b"
  then have lt: "unat a + unat b < 2 ^ LENGTH('a)" by (metis unsigned_less)
  then have "unat (a + b) = unat c" by (simp add: unat_word_ariths *)
  then have "c = a + b" by (metis word_unat_eq_iff)
  with lt show "checked_add a b = Some c" by (simp add: checked_add_def word_add_overflow_iff)
qed

lemma checked_sub_Some_iff:
  "checked_sub a b = Some c \<longleftrightarrow> unat b \<le> unat a \<and> unat c = unat a - unat b"
  by (auto simp: checked_sub_def word_le_nat_alt unat_sub word_unat_eq_iff)

section \<open>Words and their order\<close>

lemma word_le_pred_iff [word_order]:
  fixes a x :: "'a::len word"
  shows "a \<noteq> 0 \<Longrightarrow> x \<le> a - 1 \<longleftrightarrow> x < a"
  by uint_arith

lemma word_pred_less_iff [word_order]:
  fixes a x :: "'a::len word"
  shows "a \<noteq> 0 \<Longrightarrow> a - 1 < x \<longleftrightarrow> a \<le> x"
  by (simp add: word_le_pred_iff flip: not_le)

lemma word_succ_le_iff [word_order]:
  fixes a x :: "'a::len word"
  shows "a \<noteq> - 1 \<Longrightarrow> a + 1 \<le> x \<longleftrightarrow> a < x"
  by (metis add_diff_cancel_right' diff_eq_eq diff_0 word_pred_less_iff)

lemma word_less_succ_iff [word_order]:
  fixes a x :: "'a::len word"
  shows "a \<noteq> - 1 \<Longrightarrow> x < a + 1 \<longleftrightarrow> x \<le> a"
  by (simp add: word_succ_le_iff flip: not_le)

lemma word_neq_max_if_less: "a < b \<Longrightarrow> a \<noteq> (- 1 :: 'a::len word)"
  by (metis not_le word_n1_ge)

lemma word_neq_0_if_less: "a < b \<Longrightarrow> b \<noteq> (0 :: 'a::len word)"
  by (metis not_le word_zero_le)

lemma word_Icc_pred: "m \<noteq> 0 \<Longrightarrow> {s..m - 1} = {s..<m}" for m :: "'a::len word"
  by (auto simp: word_order)

lemma word_Icc_succ: "m \<noteq> - 1 \<Longrightarrow> {m + 1..e} = {m<..e}" for m :: "'a::len word"
  by (auto simp: word_order)

text \<open>A word below a bound on its value: the sum does not wrap.\<close>

lemma unat_add_lt:
  fixes a b :: "'a::len word"
  shows "unat a + unat b < 2 ^ LENGTH('a) \<Longrightarrow> unat (a + b) = unat a + unat b"
  by (simp add: unat_word_ariths)

lemma word_bits_eq_iff: "x = y \<longleftrightarrow> (\<forall>n<LENGTH('a). bit x n = bit y n)" for x y :: "'a::len word"
  by (auto intro: bit_word_eqI)

lemma unat_succ: "a \<noteq> - 1 \<Longrightarrow> unat (a + 1) = Suc (unat a)" for a :: "'a::len word"
  by (metis add.commute add_eq_0_iff unatSuc)

lemma unat_pred: "n \<noteq> 0 \<Longrightarrow> unat (n - 1) = unat n - 1" for n :: "'a::len word"
  by (simp add: unat_sub word_le_nat_alt unat_gt_0 Suc_le_eq)

lemma unat_image_Icc: "unat ` {a..b} = {unat a..unat b}" for a b :: "'a::len word"
proof
  show "unat ` {a..b} \<subseteq> {unat a..unat b}"
    by (auto simp: word_le_nat_alt)
  show "{unat a..unat b} \<subseteq> unat ` {a..b}"
  proof
    fix n assume n: "n \<in> {unat a..unat b}"
    then have "n < 2 ^ LENGTH('a)" by (meson atLeastAtMost_iff le_less_trans unat_lt_2p)
    then have "unat (word_of_nat n :: 'a word) = n" by (simp add: unat_of_nat)
    with n show "n \<in> unat ` {a..b}"
      by (intro image_eqI [of _ _ "word_of_nat n"]) (auto simp: word_le_nat_alt)
  qed
qed

lemma card_word_Icc: "card {a..b} = Suc (unat b) - unat a" for a b :: "'a::len word"
proof -
  have "card {a..b} = card (unat ` {a..b})"
    by (simp add: card_image inj_on_def word_unat_eq_iff)
  then show ?thesis by (simp add: unat_image_Icc)
qed

text \<open>A field of bits, all clear or all set.\<close>

lemma bit_take_drop: "bit (take_bit k (drop_bit m a)) n \<longleftrightarrow> n < k \<and> bit a (m + n)"
  for a :: "'a::len word"
  by (simp add: bit_simps)

lemma all_bits_shift: "(\<forall>n<k. P (m + n)) \<longleftrightarrow> (\<forall>i. m \<le> i \<longrightarrow> i < m + k \<longrightarrow> P i)" for m k :: nat
proof
  assume L: "\<forall>n<k. P (m + n)"
  show "\<forall>i. m \<le> i \<longrightarrow> i < m + k \<longrightarrow> P i"
  proof (intro allI impI)
    fix i assume "m \<le> i" "i < m + k"
    then show "P i" using L [rule_format, of "i - m"] by simp
  qed
qed simp

lemma take_drop_bit_eq_0:
  fixes a :: "'a::len word"
  shows "take_bit k (drop_bit m a) = 0 \<longleftrightarrow> (\<forall>i. m \<le> i \<longrightarrow> i < m + k \<longrightarrow> \<not> bit a i)"
proof -
  have "take_bit k (drop_bit m a) = 0 \<longleftrightarrow> (\<forall>n. \<not> bit (take_bit k (drop_bit m a)) n)"
    by (auto intro: bit_word_eqI)
  also have "\<dots> \<longleftrightarrow> (\<forall>n<k. \<not> bit a (m + n))"
    by (simp add: bit_take_drop)
  finally show ?thesis by (simp add: all_bits_shift [of k "\<lambda>i. \<not> bit a i" m])
qed

lemma take_drop_bit_eq_mask:
  fixes a :: "'a::len word"
  assumes "m + k \<le> LENGTH('a)"
  shows "take_bit k (drop_bit m a) = mask k \<longleftrightarrow> (\<forall>i. m \<le> i \<longrightarrow> i < m + k \<longrightarrow> bit a i)"
proof -
  have lt: "\<forall>n<k. n < LENGTH('a)" using assms by simp
  have "take_bit k (drop_bit m a) = mask k \<longleftrightarrow>
      (\<forall>n<LENGTH('a). bit (take_bit k (drop_bit m a)) n = bit (mask k :: 'a word) n)"
    by (rule word_bits_eq_iff)
  also have "\<dots> \<longleftrightarrow> (\<forall>n<k. bit a (m + n))"
    unfolding bit_take_drop bit_mask_iff possible_bit_word using lt by blast
  finally show ?thesis by (simp add: all_bits_shift [of k "bit a" m])
qed

lemma bit_field_in_place:
  "bit (push_bit m (drop_bit m a AND mask k)) n \<longleftrightarrow> m \<le> n \<and> n < m + k \<and> bit a n"
  for a :: "'a::len word"
  by (cases "m \<le> n") (auto simp: bit_simps dest: bit_imp_le_length)

end
