(* ===== verification/MemoryStructs.thy ===== *)
theory MemoryStructs
  imports Prelude
begin

text \<open>
  The basic types of memory management: \<^verbatim>\<open>src/kernel/memory_structs/src/lib.rs\<close> and the
  constants of \<^verbatim>\<open>src/kernel/kernel_config/src/memory.rs\<close> (x86_64 values).

  The macro \<open>implement_address!\<close> is instantiated twice in the source, with a test for
  canonical addresses and a function that makes an address canonical; the two arguments of the
  macro are the record \<open>addr_type\<close>, and every operation of the macro takes it as an
  argument. An address is the \<open>usize\<close> it wraps. \<open>Page\<close> and \<open>Frame\<close>
  (\<open>implement_page_frame!\<close>) are the number they wrap; \<open>PageRange\<close> and
  \<open>FrameRange\<close> (\<open>implement_page_frame_range!\<close>) are the record
  \<open>chunk_range\<close> of an inclusive start and end.

  The method \<open>get_bits\<close> of the external crate \<open>bit_field\<close> is a parameter of the two
  tests that call it; \<open>get_bits_documented\<close> is what its documentation promises.
\<close>

section \<open>kernel_config: the memory layout\<close>

definition config_canonicalize :: "usize \<Rightarrow> usize" where
  "config_canonicalize addr = addr OR 0xFFFF000000000000"

definition PAGE_SHIFT :: nat where "PAGE_SHIFT = 12"

definition PAGE_SIZE :: usize where "PAGE_SIZE = push_bit PAGE_SHIFT 1"

definition BYTES_PER_ADDR :: usize where "BYTES_PER_ADDR = 8"

definition P1_INDEX_SHIFT :: nat where "P1_INDEX_SHIFT = 0"

definition P2_INDEX_SHIFT :: nat where "P2_INDEX_SHIFT = P1_INDEX_SHIFT + 9"

definition P3_INDEX_SHIFT :: nat where "P3_INDEX_SHIFT = P2_INDEX_SHIFT + 9"

definition P4_INDEX_SHIFT :: nat where "P4_INDEX_SHIFT = P3_INDEX_SHIFT + 9"

definition ADDRESSABILITY_PER_P4_ENTRY :: usize where
  "ADDRESSABILITY_PER_P4_ENTRY = push_bit (PAGE_SHIFT + P4_INDEX_SHIFT) 1"

definition MAX_VIRTUAL_ADDRESS :: usize where
  "MAX_VIRTUAL_ADDRESS = config_canonicalize USIZE_MAX"

definition ENTRIES_PER_PAGE_TABLE :: usize where
  "ENTRIES_PER_PAGE_TABLE = PAGE_SIZE div BYTES_PER_ADDR"

definition KERNEL_TEXT_P4_INDEX :: usize where
  "KERNEL_TEXT_P4_INDEX = ENTRIES_PER_PAGE_TABLE - 1"

definition RECURSIVE_P4_INDEX :: usize where
  "RECURSIVE_P4_INDEX = ENTRIES_PER_PAGE_TABLE - 2"

definition UPCOMING_PAGE_TABLE_RECURSIVE_P4_INDEX :: usize where
  "UPCOMING_PAGE_TABLE_RECURSIVE_P4_INDEX = ENTRIES_PER_PAGE_TABLE - 4"

definition MAX_PAGE_NUMBER :: usize where
  "MAX_PAGE_NUMBER = MAX_VIRTUAL_ADDRESS div PAGE_SIZE"

definition KERNEL_TEXT_START :: usize where
  "KERNEL_TEXT_START =
     config_canonicalize (push_bit (P4_INDEX_SHIFT + PAGE_SHIFT) KERNEL_TEXT_P4_INDEX)"

definition UPCOMING_PAGE_TABLE_RECURSIVE_MEMORY_START :: usize where
  "UPCOMING_PAGE_TABLE_RECURSIVE_MEMORY_START =
     config_canonicalize
       (push_bit (P4_INDEX_SHIFT + PAGE_SHIFT) UPCOMING_PAGE_TABLE_RECURSIVE_P4_INDEX)"

lemma PAGE_SIZE_eq: "PAGE_SIZE = 4096"
  by (simp add: PAGE_SIZE_def PAGE_SHIFT_def push_bit_eq_mult)

lemma MAX_PAGE_NUMBER_eq: "MAX_PAGE_NUMBER = 0xFFFFFFFFFFFFF"
  by (simp add: MAX_PAGE_NUMBER_def MAX_VIRTUAL_ADDRESS_def config_canonicalize_def PAGE_SIZE_eq)

section \<open>Addresses\<close>

record addr_type =
  is_canonical :: "usize \<Rightarrow> bool"
  canonicalize :: "usize \<Rightarrow> usize"

subsection \<open>x86_64\<close>

definition is_canonical_virtual_address :: "(usize \<Rightarrow> nat \<Rightarrow> nat \<Rightarrow> usize) \<Rightarrow> usize \<Rightarrow> bool" where
  "is_canonical_virtual_address get_bits virt_addr =
     (let b = get_bits virt_addr 47 64 in b = 0 \<or> b = 0x1FFFF)"

definition canonicalize_virtual_address :: "usize \<Rightarrow> usize" where
  "canonicalize_virtual_address virt_addr = signed_drop_bit 16 (push_bit 16 virt_addr)"

definition is_canonical_physical_address :: "(usize \<Rightarrow> nat \<Rightarrow> nat \<Rightarrow> usize) \<Rightarrow> usize \<Rightarrow> bool" where
  "is_canonical_physical_address get_bits phys_addr \<longleftrightarrow> get_bits phys_addr 52 64 = 0"

definition canonicalize_physical_address :: "usize \<Rightarrow> usize" where
  "canonicalize_physical_address phys_addr = phys_addr AND 0x000FFFFFFFFFFFFF"

subsection \<open>aarch64\<close>

definition is_canonical_virtual_address_aarch64 ::
  "(usize \<Rightarrow> nat \<Rightarrow> nat \<Rightarrow> usize) \<Rightarrow> usize \<Rightarrow> bool" where
  "is_canonical_virtual_address_aarch64 get_bits virt_addr \<longleftrightarrow> get_bits virt_addr 48 64 = 0"

definition canonicalize_virtual_address_aarch64 :: "usize \<Rightarrow> usize" where
  "canonicalize_virtual_address_aarch64 virt_addr = virt_addr AND 0x0000FFFFFFFFFFFF"

definition is_canonical_physical_address_aarch64 ::
  "(usize \<Rightarrow> nat \<Rightarrow> nat \<Rightarrow> usize) \<Rightarrow> usize \<Rightarrow> bool" where
  "is_canonical_physical_address_aarch64 get_bits phys_addr \<longleftrightarrow> get_bits phys_addr 48 64 = 0"

definition canonicalize_physical_address_aarch64 :: "usize \<Rightarrow> usize" where
  "canonicalize_physical_address_aarch64 phys_addr = phys_addr AND 0x0000FFFFFFFFFFFF"

subsection \<open>The instances of \<open>implement_address!\<close> on the two targets\<close>

definition VirtualAddress :: "(usize \<Rightarrow> nat \<Rightarrow> nat \<Rightarrow> usize) \<Rightarrow> addr_type" where
  "VirtualAddress get_bits =
     \<lparr>is_canonical = is_canonical_virtual_address get_bits,
      canonicalize = canonicalize_virtual_address\<rparr>"

definition PhysicalAddress :: "(usize \<Rightarrow> nat \<Rightarrow> nat \<Rightarrow> usize) \<Rightarrow> addr_type" where
  "PhysicalAddress get_bits =
     \<lparr>is_canonical = is_canonical_physical_address get_bits,
      canonicalize = canonicalize_physical_address\<rparr>"

definition VirtualAddress_aarch64 :: "(usize \<Rightarrow> nat \<Rightarrow> nat \<Rightarrow> usize) \<Rightarrow> addr_type" where
  "VirtualAddress_aarch64 get_bits =
     \<lparr>is_canonical = is_canonical_virtual_address_aarch64 get_bits,
      canonicalize = canonicalize_virtual_address_aarch64\<rparr>"

definition PhysicalAddress_aarch64 :: "(usize \<Rightarrow> nat \<Rightarrow> nat \<Rightarrow> usize) \<Rightarrow> addr_type" where
  "PhysicalAddress_aarch64 get_bits =
     \<lparr>is_canonical = is_canonical_physical_address_aarch64 get_bits,
      canonicalize = canonicalize_physical_address_aarch64\<rparr>"

subsection \<open>The operations of \<open>implement_address!\<close>\<close>

definition addr_new :: "addr_type \<Rightarrow> usize \<Rightarrow> usize option" where
  "addr_new T addr = (if is_canonical T addr then Some addr else None)"

definition addr_new_canonical :: "addr_type \<Rightarrow> usize \<Rightarrow> usize" where
  "addr_new_canonical T addr = canonicalize T addr"

definition addr_zero :: usize where "addr_zero = 0"

definition page_offset :: "usize \<Rightarrow> usize" where
  "page_offset a = a AND (PAGE_SIZE - 1)"

definition addr_add :: "addr_type \<Rightarrow> usize \<Rightarrow> usize \<Rightarrow> usize" where
  "addr_add T a rhs = addr_new_canonical T (saturating_add a rhs)"

definition addr_sub :: "addr_type \<Rightarrow> usize \<Rightarrow> usize \<Rightarrow> usize" where
  "addr_sub T a rhs = addr_new_canonical T (saturating_sub a rhs)"

section \<open>Pages and frames\<close>

type_synonym page = usize
type_synonym frame = usize

definition start_address :: "addr_type \<Rightarrow> usize \<Rightarrow> usize" where
  "start_address T n = addr_new_canonical T (n * PAGE_SIZE)"

definition containing_address :: "usize \<Rightarrow> usize" where
  "containing_address addr = addr div PAGE_SIZE"

definition chunk_add :: "usize \<Rightarrow> usize \<Rightarrow> usize" where
  "chunk_add n rhs = min MAX_PAGE_NUMBER (saturating_add n rhs)"

definition chunk_sub :: "usize \<Rightarrow> usize \<Rightarrow> usize" where
  "chunk_sub n rhs = saturating_sub n rhs"

definition steps_between :: "usize \<Rightarrow> usize \<Rightarrow> usize option" where
  "steps_between s e = (if s \<le> e then Some (e - s) else None)"

definition forward_checked :: "usize \<Rightarrow> usize \<Rightarrow> usize option" where
  "forward_checked s count = checked_add s count"

definition backward_checked :: "usize \<Rightarrow> usize \<Rightarrow> usize option" where
  "backward_checked s count = checked_sub s count"

definition p4_index :: "page \<Rightarrow> usize" where "p4_index p = drop_bit 27 p AND 0x1FF"

definition p3_index :: "page \<Rightarrow> usize" where "p3_index p = drop_bit 18 p AND 0x1FF"

definition p2_index :: "page \<Rightarrow> usize" where "p2_index p = drop_bit 9 p AND 0x1FF"

definition p1_index :: "page \<Rightarrow> usize" where "p1_index p = p AND 0x1FF"

section \<open>Ranges of pages and frames\<close>

record chunk_range =
  r_start :: usize
  r_end :: usize

definition range_new :: "usize \<Rightarrow> usize \<Rightarrow> chunk_range" where
  "range_new s e = \<lparr>r_start = s, r_end = e\<rparr>"

definition range_empty :: chunk_range where
  "range_empty = range_new 1 0"

text \<open>\<open>RangeInclusive::contains\<close> and \<open>RangeInclusive::is_empty\<close> of the core library.\<close>

definition range_contains :: "chunk_range \<Rightarrow> usize \<Rightarrow> bool" where
  "range_contains r x \<longleftrightarrow> r_start r \<le> x \<and> x \<le> r_end r"

definition range_is_empty :: "chunk_range \<Rightarrow> bool" where
  "range_is_empty r \<longleftrightarrow> \<not> r_start r \<le> r_end r"

definition range_from_addr :: "addr_type \<Rightarrow> usize \<Rightarrow> usize \<Rightarrow> chunk_range" where
  "range_from_addr T starting_addr size_in_bytes =
     (if size_in_bytes = 0 then range_empty
      else
        let s = containing_address starting_addr;
            e = containing_address (addr_add T starting_addr (size_in_bytes - 1))
        in range_new s e)"

definition range_start_address :: "addr_type \<Rightarrow> chunk_range \<Rightarrow> usize" where
  "range_start_address T r = start_address T (r_start r)"

definition size_in_chunks :: "chunk_range \<Rightarrow> usize" where
  "size_in_chunks r = saturating_sub (r_end r + 1) (r_start r)"

definition size_in_bytes :: "chunk_range \<Rightarrow> usize" where
  "size_in_bytes r = size_in_chunks r * PAGE_SIZE"

definition contains_address :: "chunk_range \<Rightarrow> usize \<Rightarrow> bool" where
  "contains_address r addr \<longleftrightarrow> range_contains r (containing_address addr)"

definition offset_of_address :: "addr_type \<Rightarrow> chunk_range \<Rightarrow> usize \<Rightarrow> usize option" where
  "offset_of_address T r addr =
     (if contains_address r addr then Some (addr - range_start_address T r) else None)"

definition address_at_offset :: "addr_type \<Rightarrow> chunk_range \<Rightarrow> usize \<Rightarrow> usize option" where
  "address_at_offset T r offset =
     (if offset \<le> size_in_bytes r then Some (addr_add T (range_start_address T r) offset) else None)"

definition to_extended :: "chunk_range \<Rightarrow> usize \<Rightarrow> chunk_range" where
  "to_extended r to_include =
     (if range_is_empty r then range_new to_include to_include
      else range_new (min (r_start r) to_include) (max (r_end r) to_include))"

definition overlap :: "chunk_range \<Rightarrow> chunk_range \<Rightarrow> chunk_range option" where
  "overlap r r' =
     (let starts = max (r_start r) (r_start r'); ends = min (r_end r) (r_end r')
      in if starts \<le> ends then Some (range_new starts ends) else None)"

section \<open>Ranges as sets of numbers\<close>

abbreviation chunks :: "chunk_range \<Rightarrow> usize set" where
  "chunks r \<equiv> {r_start r..r_end r}"

lemma range_new_simps [simp]: "r_start (range_new s e) = s" "r_end (range_new s e) = e"
  by (simp_all add: range_new_def)

lemma chunks_range_empty [simp]: "chunks range_empty = {}"
  by (simp add: range_empty_def)

lemma range_contains_iff [simp]: "range_contains r x \<longleftrightarrow> x \<in> chunks r"
  by (simp add: range_contains_def)

lemma range_is_empty_iff [simp]: "range_is_empty r \<longleftrightarrow> chunks r = {}"
  by (simp add: range_is_empty_def)

lemma overlap_eq_Some:
  "overlap r r' = Some o' \<Longrightarrow> chunks o' = chunks r \<inter> chunks r' \<and> chunks o' \<noteq> {}"
  by (auto simp: overlap_def Let_def split: if_splits)

lemma overlap_eq_None: "overlap r r' = None \<longleftrightarrow> chunks r \<inter> chunks r' = {}"
  by (auto simp: overlap_def Let_def)

lemma overlap_commute: "overlap r r' = overlap r' r"
  by (simp add: overlap_def max.commute min.commute)

lemma unat_size_in_chunks:
  assumes "r_end r \<noteq> USIZE_MAX"
  shows "unat (size_in_chunks r) = card (chunks r)"
proof -
  from assms show ?thesis
    by (simp add: size_in_chunks_def unat_saturating_sub card_word_Icc unat_succ)
qed

lemma size_in_chunks_eq_0: "r_end r \<noteq> USIZE_MAX \<Longrightarrow> size_in_chunks r = 0 \<longleftrightarrow> chunks r = {}"
  by (metis unat_size_in_chunks card_0_eq finite unat_eq_zero)

lemma chunks_to_extended:
  "chunks r \<union> {x} \<subseteq> chunks (to_extended r x)"
  by (auto simp: to_extended_def)

lemma to_extended_least:
  assumes "chunks r \<subseteq> {a..b}" and "x \<in> {a..b}"
  shows "chunks (to_extended r x) \<subseteq> {a..b}"
  using assms by (auto simp: to_extended_def)

text \<open>Page and frame arithmetic away from the two ends of the address space.\<close>

lemma unat_chunk_add_exact:
  assumes "chunk_add a b < MAX_PAGE_NUMBER"
  shows "unat (chunk_add a b) = unat a + unat b"
proof -
  from assms have eq: "chunk_add a b = saturating_add a b"
    by (auto simp: chunk_add_def min_def)
  with assms have "unat (saturating_add a b) < 2 ^ 64 - 1"
    using unat_lt_2p [of MAX_PAGE_NUMBER] by (simp add: word_less_nat_alt)
  then show ?thesis by (simp add: eq unat_saturating_add min_def split: if_splits)
qed

lemma unat_chunk_add_le: "unat (chunk_add a b) \<le> unat a + unat b"
proof -
  have "chunk_add a b \<le> saturating_add a b" by (simp add: chunk_add_def)
  then show ?thesis by (simp add: word_le_nat_alt unat_saturating_add)
qed

lemma chunk_add_1: "m < MAX_PAGE_NUMBER \<Longrightarrow> chunk_add m 1 = m + 1"
proof -
  assume m: "m < MAX_PAGE_NUMBER"
  then have n: "m \<noteq> - 1" by (rule word_neq_max_if_less)
  then have "\<not> m + 1 < m" by (simp add: word_less_nat_alt unat_succ)
  moreover have "m + 1 \<le> MAX_PAGE_NUMBER" using m n by (simp add: word_succ_le_iff)
  ultimately show ?thesis by (simp add: chunk_add_def saturating_add_def)
qed

lemma chunk_sub_1: "m \<noteq> 0 \<Longrightarrow> chunk_sub m 1 = m - 1"
  by (simp add: chunk_sub_def saturating_sub_def word_le_nat_alt unat_gt_0 Suc_le_eq)

lemma chunk_add_count:
  assumes "n \<noteq> 0" "chunk_add f (n - 1) < MAX_PAGE_NUMBER"
  shows "f \<le> chunk_add f (n - 1)" "card {f..chunk_add f (n - 1)} = unat n"
proof -
  have "unat (chunk_add f (n - 1)) = unat f + (unat n - 1)"
    using assms by (simp add: unat_chunk_add_exact unat_pred)
  moreover have "0 < unat n" using assms(1) by (simp add: unat_gt_0)
  ultimately show "f \<le> chunk_add f (n - 1)" "card {f..chunk_add f (n - 1)} = unat n"
    by (simp_all add: word_le_nat_alt card_word_Icc)
qed

section \<open>Canonical addresses\<close>

text \<open>What the operations of \<open>implement_address!\<close> rely on: the test accepts exactly
  the fixed points of the canonicalisation, and canonicalising twice changes nothing.\<close>

locale canonical_address =
  fixes T :: addr_type
  assumes is_canonical_iff: "is_canonical T a \<longleftrightarrow> canonicalize T a = a"
    and canonicalize_idem: "canonicalize T (canonicalize T a) = canonicalize T a"
begin

lemma is_canonical_new_canonical: "is_canonical T (addr_new_canonical T a)"
  by (simp add: addr_new_canonical_def is_canonical_iff canonicalize_idem)

lemma is_canonical_addr_add: "is_canonical T (addr_add T a n)"
  by (simp add: addr_add_def is_canonical_new_canonical)

lemma is_canonical_addr_sub: "is_canonical T (addr_sub T a n)"
  by (simp add: addr_sub_def is_canonical_new_canonical)

lemma is_canonical_start_address: "is_canonical T (start_address T n)"
  by (simp add: start_address_def is_canonical_new_canonical)

lemma addr_new_eq: "addr_new T a = (if addr_new_canonical T a = a then Some a else None)"
  by (simp add: addr_new_def addr_new_canonical_def is_canonical_iff)

lemma addr_new_of_new_canonical:
  "addr_new T (addr_new_canonical T a) = Some (addr_new_canonical T a)"
  by (simp add: addr_new_def is_canonical_new_canonical)

end

definition get_bits_documented :: "(usize \<Rightarrow> nat \<Rightarrow> nat \<Rightarrow> usize) \<Rightarrow> bool" where
  "get_bits_documented get_bits \<longleftrightarrow>
     (\<forall>x lo hi. lo < hi \<longrightarrow> hi \<le> 64 \<longrightarrow> get_bits x lo hi = take_bit (hi - lo) (drop_bit lo x))"

definition get_bits_reference :: "usize \<Rightarrow> nat \<Rightarrow> nat \<Rightarrow> usize" where
  "get_bits_reference x lo hi = take_bit (hi - lo) (drop_bit lo x)"

lemma get_bits_reference_documented: "get_bits_documented get_bits_reference"
  by (simp add: get_bits_documented_def get_bits_reference_def)

lemma bit_canonicalize_virtual_address:
  "bit (canonicalize_virtual_address a) n \<longleftrightarrow> n < 64 \<and> bit a (min n 47)"
  by (auto simp: canonicalize_virtual_address_def bit_simps min_def)

lemma canonicalize_virtual_address_fixed:
  "canonicalize_virtual_address a = a \<longleftrightarrow> (\<forall>n. 47 \<le> n \<longrightarrow> n < 64 \<longrightarrow> bit a n = bit a 47)"
proof -
  have "canonicalize_virtual_address a = a \<longleftrightarrow> (\<forall>n<64. bit a (min n 47) = bit a n)"
    by (subst word_bits_eq_iff) (simp add: bit_canonicalize_virtual_address)
  also have "\<dots> \<longleftrightarrow> (\<forall>n. 47 \<le> n \<longrightarrow> n < 64 \<longrightarrow> bit a n = bit a 47)"
    by (metis min.absorb1 min.absorb2 nat_le_linear)
  finally show ?thesis .
qed

locale bit_field =
  fixes get_bits :: "usize \<Rightarrow> nat \<Rightarrow> nat \<Rightarrow> usize"
  assumes documented: "get_bits_documented get_bits"
begin

lemma get_bits_eq: "lo < hi \<Longrightarrow> hi \<le> 64 \<Longrightarrow> get_bits x lo hi = take_bit (hi - lo) (drop_bit lo x)"
  using documented by (simp add: get_bits_documented_def)

lemma is_canonical_virtual_iff:
  "is_canonical_virtual_address get_bits a \<longleftrightarrow> canonicalize_virtual_address a = a"
proof -
  have m: "(0x1FFFF :: usize) = mask 17" by (simp add: mask_eq_exp_minus_1)
  have z: "take_bit 17 (drop_bit 47 a) = 0 \<longleftrightarrow> (\<forall>n. 47 \<le> n \<longrightarrow> n < 64 \<longrightarrow> \<not> bit a n)"
    using take_drop_bit_eq_0 [of 17 47 a] by simp
  have o: "take_bit 17 (drop_bit 47 a) = mask 17 \<longleftrightarrow> (\<forall>n. 47 \<le> n \<longrightarrow> n < 64 \<longrightarrow> bit a n)"
    using take_drop_bit_eq_mask [of 47 17 a] by simp
  have g: "get_bits a 47 64 = take_bit 17 (drop_bit 47 a)" by (simp add: get_bits_eq)
  show ?thesis
    unfolding is_canonical_virtual_address_def canonicalize_virtual_address_fixed Let_def g m z o
    by (cases "bit a 47") auto
qed

lemma is_canonical_field_iff:
  assumes "lo < 64"
  shows "get_bits a lo 64 = 0 \<longleftrightarrow> a AND mask lo = a"
proof -
  have "a AND mask lo = a \<longleftrightarrow> (\<forall>n<64. (n < lo \<and> bit a n) = bit a n)"
    by (subst word_bits_eq_iff) (auto simp: bit_simps)
  also have "\<dots> \<longleftrightarrow> (\<forall>n. lo \<le> n \<longrightarrow> n < 64 \<longrightarrow> \<not> bit a n)"
    by (metis not_le)
  also have "\<dots> \<longleftrightarrow> get_bits a lo 64 = 0"
    using assms take_drop_bit_eq_0 [of "64 - lo" lo a] by (simp add: get_bits_eq)
  finally show ?thesis by simp
qed

sublocale virt: canonical_address "VirtualAddress get_bits"
proof
  fix a
  show "is_canonical (VirtualAddress get_bits) a \<longleftrightarrow> canonicalize (VirtualAddress get_bits) a = a"
    by (simp add: VirtualAddress_def is_canonical_virtual_iff)
  show "canonicalize (VirtualAddress get_bits) (canonicalize (VirtualAddress get_bits) a) =
      canonicalize (VirtualAddress get_bits) a"
    by (simp add: VirtualAddress_def canonicalize_virtual_address_fixed)
      (simp add: bit_canonicalize_virtual_address)
qed

sublocale phys: canonical_address "PhysicalAddress get_bits"
proof
  fix a
  have m: "(0x000FFFFFFFFFFFFF :: usize) = mask 52" by (simp add: mask_eq_exp_minus_1)
  show "is_canonical (PhysicalAddress get_bits) a \<longleftrightarrow> canonicalize (PhysicalAddress get_bits) a = a"
    by (simp add: PhysicalAddress_def is_canonical_physical_address_def
        canonicalize_physical_address_def m is_canonical_field_iff)
  show "canonicalize (PhysicalAddress get_bits) (canonicalize (PhysicalAddress get_bits) a) =
      canonicalize (PhysicalAddress get_bits) a"
    by (simp add: PhysicalAddress_def canonicalize_physical_address_def and.assoc)
qed

sublocale virt_aarch64: canonical_address "VirtualAddress_aarch64 get_bits"
proof
  fix a
  have m: "(0x0000FFFFFFFFFFFF :: usize) = mask 48" by (simp add: mask_eq_exp_minus_1)
  show "is_canonical (VirtualAddress_aarch64 get_bits) a \<longleftrightarrow>
      canonicalize (VirtualAddress_aarch64 get_bits) a = a"
    by (simp add: VirtualAddress_aarch64_def is_canonical_virtual_address_aarch64_def
        canonicalize_virtual_address_aarch64_def m is_canonical_field_iff)
  show "canonicalize (VirtualAddress_aarch64 get_bits) (canonicalize (VirtualAddress_aarch64 get_bits) a) =
      canonicalize (VirtualAddress_aarch64 get_bits) a"
    by (simp add: VirtualAddress_aarch64_def canonicalize_virtual_address_aarch64_def and.assoc)
qed

sublocale phys_aarch64: canonical_address "PhysicalAddress_aarch64 get_bits"
proof
  fix a
  have m: "(0x0000FFFFFFFFFFFF :: usize) = mask 48" by (simp add: mask_eq_exp_minus_1)
  show "is_canonical (PhysicalAddress_aarch64 get_bits) a \<longleftrightarrow>
      canonicalize (PhysicalAddress_aarch64 get_bits) a = a"
    by (simp add: PhysicalAddress_aarch64_def is_canonical_physical_address_aarch64_def
        canonicalize_physical_address_aarch64_def m is_canonical_field_iff)
  show "canonicalize (PhysicalAddress_aarch64 get_bits) (canonicalize (PhysicalAddress_aarch64 get_bits) a) =
      canonicalize (PhysicalAddress_aarch64 get_bits) a"
    by (simp add: PhysicalAddress_aarch64_def canonicalize_physical_address_aarch64_def and.assoc)
qed

end

context bit_field
begin

lemma instances_canonical:
  assumes "T \<in> {VirtualAddress get_bits, PhysicalAddress get_bits,
             VirtualAddress_aarch64 get_bits, PhysicalAddress_aarch64 get_bits}"
  shows "canonical_address T"
  using assms virt.canonical_address_axioms phys.canonical_address_axioms
    virt_aarch64.canonical_address_axioms phys_aarch64.canonical_address_axioms
  by auto

end

interpretation reference: bit_field get_bits_reference
  by unfold_locales (rule get_bits_reference_documented)

section \<open>Addresses, pages and byte ranges\<close>

lemma unat_canonicalize_physical:
  "unat (canonicalize_physical_address a) = unat a mod 2 ^ 52"
proof -
  have "(0x000FFFFFFFFFFFFF :: usize) = mask 52" by (simp add: mask_eq_exp_minus_1)
  then have "canonicalize_physical_address a = take_bit 52 a"
    by (simp add: canonicalize_physical_address_def take_bit_eq_mask)
  then show ?thesis by (simp only: unsigned_take_bit_eq take_bit_nat_def)
qed

lemma unat_containing_address: "unat (containing_address a) = unat a div 4096"
  by (simp add: containing_address_def PAGE_SIZE_eq unat_div)

lemma unat_page_offset: "unat (page_offset a) = unat a mod 4096"
proof -
  have "(4095 :: usize) = mask 12" by (simp add: mask_eq_exp_minus_1)
  then have "page_offset a = take_bit 12 a"
    by (simp add: page_offset_def PAGE_SIZE_eq take_bit_eq_mask)
  then have "unat (page_offset a) = unat a mod 2 ^ 12"
    by (simp only: unsigned_take_bit_eq take_bit_nat_def)
  then show ?thesis by simp
qed

lemma unat_addr_add_physical:
  assumes "unat a + unat n < 2 ^ 52"
  shows "unat (addr_add (PhysicalAddress get_bits) a n) = unat a + unat n"
  using assms
  by (simp add: addr_add_def addr_new_canonical_def PhysicalAddress_def unat_canonicalize_physical
      unat_saturating_add)

lemma unat_start_address_physical:
  assumes "unat n < 2 ^ 40"
  shows "unat (start_address (PhysicalAddress get_bits) n) = unat n * 4096"
  using assms
  by (simp add: start_address_def addr_new_canonical_def PhysicalAddress_def PAGE_SIZE_eq
      unat_canonicalize_physical unat_word_ariths)

lemma frame_of_start_address:
  "unat n < 2 ^ 40 \<Longrightarrow> containing_address (start_address (PhysicalAddress get_bits) n) = n"
  by (simp add: word_unat_eq_iff unat_containing_address unat_start_address_physical)

lemma pages_between_iff:
  fixes A L B :: nat
  assumes "0 < L"
  shows "A div 4096 \<le> B div 4096 \<and> B div 4096 \<le> (A + L - 1) div 4096 \<longleftrightarrow>
    (\<exists>x. A \<le> x \<and> x < A + L \<and> x div 4096 = B div 4096)" (is "?l \<longleftrightarrow> ?r")
proof
  assume ?l
  have "max A (B div 4096 * 4096) < A + L" using \<open>?l\<close> assms by (auto simp: max_def)
  moreover have "max A (B div 4096 * 4096) div 4096 = B div 4096"
    using \<open>?l\<close> by (auto simp: max_def)
  ultimately show ?r by (intro exI [of _ "max A (B div 4096 * 4096)"]) simp
next
  assume ?r
  then obtain x where x: "A \<le> x" "x \<le> A + L - 1" "x div 4096 = B div 4096" by auto
  then show ?l by (metis div_le_mono)
qed

lemma unat_size_in_bytes:
  assumes "unat (r_end r) < 2 ^ 40"
  shows "unat (size_in_bytes r) = (Suc (unat (r_end r)) - unat (r_start r)) * 4096"
proof -
  have "r_end r \<noteq> USIZE_MAX" using assms by (auto simp: unsigned_minus_1_eq_mask mask_eq_exp_minus_1)
  then have "unat (size_in_chunks r) = Suc (unat (r_end r)) - unat (r_start r)"
    by (simp add: unat_size_in_chunks card_word_Icc)
  with assms show ?thesis
    by (simp add: size_in_bytes_def PAGE_SIZE_eq unat_word_ariths)
qed

section \<open>Properties\<close>



text \<open>\<open>from_phys_addr\<close>: the range built from a start address and a non-zero size covers a
  physical address exactly when that address lies in the same frame as one of the bytes
  \<open>start, \<dots>, start + size - 1\<close>: no frame is missing at either end and none is added.\<close>

lemma from_phys_addr_covers:
  assumes "n \<noteq> 0" and "unat a + unat n \<le> 2 ^ 52"
  shows "contains_address (range_from_addr (PhysicalAddress get_bits) a n) b \<longleftrightarrow>
    (\<exists>x. unat a \<le> x \<and> x < unat a + unat n \<and> x div 4096 = unat b div 4096)"
proof -
  have pos: "0 < unat n" using assms(1) by (simp add: unat_gt_0)
  have pred: "unat (n - 1) = unat n - 1" using assms(1) by (simp add: unat_minus_one)
  then have "unat (addr_add (PhysicalAddress get_bits) a (n - 1)) = unat a + unat n - 1"
    using assms pos by (simp add: unat_addr_add_physical)
  then show ?thesis
    using pages_between_iff [OF pos, of "unat a" "unat b"] assms(1)
    by (simp add: contains_address_def range_from_addr_def Let_def word_le_nat_alt
        unat_containing_address)
qed

lemma page_indices_compose:
  "push_bit 27 (p4_index p) OR push_bit 18 (p3_index p) OR push_bit 9 (p2_index p) OR p1_index p = take_bit 36 p"
proof -
  have m: "(0x1FF :: usize) = mask 9" by (simp add: mask_eq_exp_minus_1)
  show ?thesis
    unfolding p4_index_def p3_index_def p2_index_def p1_index_def m
    by (rule bit_word_eqI)
      (simp only: bit_or_iff bit_field_in_place bit_take_bit_iff bit_and_iff bit_mask_iff
        possible_bit_word, auto)
qed

text \<open>The four page table indices of a page are each below 512 and together give back the
  36-bit page number they were cut from, so two pages with equal indices at every level are the
  same page of the 48-bit address space.\<close>

lemma page_table_indices:
  "push_bit 27 (p4_index p) OR push_bit 18 (p3_index p) OR push_bit 9 (p2_index p) OR p1_index p
     = take_bit 36 p \<and>
   p4_index p < 512 \<and> p3_index p < 512 \<and> p2_index p < 512 \<and> p1_index p < 512"
proof -
  have "x AND 0x1FF < 512" for x :: usize
    using word_and_le1 [of x "0x1FF"] by (simp add: order_le_less_trans)
  then show ?thesis
    using page_indices_compose [of p] by (simp add: p4_index_def p3_index_def p2_index_def p1_index_def)
qed

text \<open>Frame ranges and offsets: for every offset below the size of the range,
  \<open>address_at_offset\<close> succeeds, the address it gives lies in the range, and
  \<open>offset_of_address\<close> gives the offset back.\<close>

lemma offset_roundtrip:
  assumes "unat (r_end r) < 2 ^ 40" and "off < size_in_bytes r"
  shows "\<exists>a. address_at_offset (PhysicalAddress get_bits) r off = Some a \<and> contains_address r a \<and>
    offset_of_address (PhysicalAddress get_bits) r a = Some off"
proof -
  let ?T = "PhysicalAddress get_bits"
  let ?s = "unat (r_start r)" and ?e = "unat (r_end r)"
  have lt: "unat off < (Suc ?e - ?s) * 4096"
    using assms by (simp add: word_less_nat_alt unat_size_in_bytes)
  then have se: "?s \<le> ?e" by (cases "?s \<le> ?e") simp_all
  have sa: "unat (range_start_address ?T r) = ?s * 4096"
    using se assms(1) by (simp add: range_start_address_def unat_start_address_physical)
  define a where "a = addr_add ?T (range_start_address ?T r) off"
  have bound: "?s * 4096 + unat off < Suc ?e * 4096"
    using lt se by (simp add: diff_mult_distrib)
  then have a: "unat a = ?s * 4096 + unat off"
    using assms(1) sa by (simp add: a_def unat_addr_add_physical)
  have "?s \<le> unat a div 4096" "unat a div 4096 \<le> ?e" using bound by (simp_all add: a)
  then have "contains_address r a"
    by (simp add: contains_address_def word_le_nat_alt unat_containing_address)
  moreover have "a - range_start_address ?T r = off"
    using a sa by (simp add: word_unat_eq_iff unat_sub word_le_nat_alt)
  ultimately show ?thesis
    using assms(2) by (auto simp: address_at_offset_def offset_of_address_def a_def)
qed

end
