(* ===== verification/StaticArrayRBTree.thy ===== *)
theory StaticArrayRBTree
  imports Prelude "HOL-Library.Multiset"
begin

text \<open>
  The collection behind both memory allocators:
  \<^verbatim>\<open>src/kernel/frame_allocator/src/static_array_rb_tree.rs\<close> (the page allocator has its own
  copy of the file). A collection is an array of 32 optional values before the heap exists and a
  red-black tree afterwards.

  The red-black tree is the external crate \<open>intrusive_collections\<close>. Its operations are the
  record \<open>rbtree_api\<close>, an argument of every definition that uses them: the tree type
  \<open>'t\<close> and the cursor type \<open>'c\<close> are left open. The locale \<open>rbtree\<close> states what the
  crate documents: iteration is in ascending key order, an insertion goes behind the elements
  with the same key, \<open>upper_bound\<close> points to the last element below the bound or to the null
  object, \<open>remove\<close> moves the cursor to the next element, \<open>move_next\<close> and \<open>move_prev\<close>
  pass through the null object at the two ends.
\<close>

section \<open>The interface of the external red-black tree\<close>

datatype bound = Unbounded | Included usize | Excluded usize

fun below :: "bound \<Rightarrow> usize \<Rightarrow> bool" where
  "below Unbounded k = True"
| "below (Included b) k = (k \<le> b)"
| "below (Excluded b) k = (k < b)"

record ('a, 't, 'c) rbtree_api =
  rb_new :: 't
  rb_insert :: "'t \<Rightarrow> 'a \<Rightarrow> 't \<times> 'c"
  rb_iter :: "'t \<Rightarrow> 'a list"
  rb_upper_bound :: "'t \<Rightarrow> bound \<Rightarrow> 'c"
  cur_get :: "'t \<Rightarrow> 'c \<Rightarrow> 'a option"
  cur_next :: "'t \<Rightarrow> 'c \<Rightarrow> 'c"
  cur_prev :: "'t \<Rightarrow> 'c \<Rightarrow> 'c"
  cur_remove :: "'t \<Rightarrow> 'c \<Rightarrow> 'a option \<times> 't \<times> 'c"
  cur_replace :: "'t \<Rightarrow> 'c \<Rightarrow> 'a \<Rightarrow> ('a, 'a) result \<times> 't \<times> 'c"

definition insert_after :: "('a \<Rightarrow> usize) \<Rightarrow> 'a \<Rightarrow> 'a list \<Rightarrow> 'a list" where
  "insert_after key x xs =
     takeWhile (\<lambda>y. key y \<le> key x) xs @ x # dropWhile (\<lambda>y. key y \<le> key x) xs"

definition last_below :: "('a \<Rightarrow> usize) \<Rightarrow> bound \<Rightarrow> 'a list \<Rightarrow> nat option" where
  "last_below key b xs =
     (case length (takeWhile (\<lambda>y. below b (key y)) xs) of 0 \<Rightarrow> None | Suc i \<Rightarrow> Some i)"

fun next_pos :: "'a list \<Rightarrow> nat option \<Rightarrow> nat option" where
  "next_pos xs None = (if xs = [] then None else Some 0)"
| "next_pos xs (Some i) = (if Suc i < length xs then Some (Suc i) else None)"

fun prev_pos :: "'a list \<Rightarrow> nat option \<Rightarrow> nat option" where
  "prev_pos xs None = (if xs = [] then None else Some (length xs - 1))"
| "prev_pos xs (Some 0) = None"
| "prev_pos xs (Some (Suc i)) = Some i"

definition remove_nth :: "nat \<Rightarrow> 'a list \<Rightarrow> 'a list" where
  "remove_nth i xs = take i xs @ drop (Suc i) xs"

locale rbtree =
  fixes api :: "('a, 't, 'c) rbtree_api"
    and key :: "'a \<Rightarrow> usize"
    and pos :: "'t \<Rightarrow> 'c \<Rightarrow> nat option"
  assumes sorted_iter: "sorted (map key (rb_iter api t))"
    and iter_new: "rb_iter api (rb_new api) = []"
    and iter_insert: "rb_iter api (fst (rb_insert api t x)) = insert_after key x (rb_iter api t)"
    and get_insert: "cur_get api (fst (rb_insert api t x)) (snd (rb_insert api t x)) = Some x"
    and pos_bound: "pos t c = Some i \<Longrightarrow> i < length (rb_iter api t)"
    and get_pos: "cur_get api t c = map_option ((!) (rb_iter api t)) (pos t c)"
    and pos_upper_bound: "pos t (rb_upper_bound api t b) = last_below key b (rb_iter api t)"
    and pos_next: "pos t (cur_next api t c) = next_pos (rb_iter api t) (pos t c)"
    and pos_prev: "pos t (cur_prev api t c) = prev_pos (rb_iter api t) (pos t c)"
    and remove_null: "pos t c = None \<Longrightarrow> cur_remove api t c = (None, t, c)"
    and remove_some: "pos t c = Some i \<Longrightarrow>
      \<exists>t' c'. cur_remove api t c = (Some (rb_iter api t ! i), t', c') \<and>
        rb_iter api t' = remove_nth i (rb_iter api t) \<and>
        pos t' c' = (if Suc i < length (rb_iter api t) then Some i else None)"
    and replace_some: "pos t c = Some i \<Longrightarrow> sorted (map key ((rb_iter api t)[i := x])) \<Longrightarrow>
      \<exists>t' c'. cur_replace api t c x = (Ok (rb_iter api t ! i), t', c') \<and>
        rb_iter api t' = (rb_iter api t)[i := x] \<and> pos t' c' = Some i"
    and replace_null: "pos t c = None \<Longrightarrow> cur_replace api t c x = (Err x, t, c)"

section \<open>StaticArrayRBTree\<close>

datatype ('a, 't) static_array_rbtree = Array "'a option list" | RBTree 't

datatype 'c value_ref_mut = ArrayRef nat | RBTreeRef 'c

definition ARRAY_LEN :: nat where "ARRAY_LEN = 32"

definition sarb_empty :: "('a, 't) static_array_rbtree" where
  "sarb_empty = Array (replicate ARRAY_LEN None)"

definition sarb_new :: "'a option list \<Rightarrow> ('a, 't) static_array_rbtree" where
  "sarb_new arr = Array arr"

fun first_none :: "'a option list \<Rightarrow> nat option" where
  "first_none [] = None"
| "first_none (None # es) = Some 0"
| "first_none (Some _ # es) = map_option Suc (first_none es)"

definition sarb_insert ::
  "('a, 't, 'c) rbtree_api \<Rightarrow> ('a, 't) static_array_rbtree \<Rightarrow> 'a \<Rightarrow>
   ('c value_ref_mut, 'a) result \<times> ('a, 't) static_array_rbtree" where
  "sarb_insert api s value =
     (case s of
        Array arr \<Rightarrow>
          (case first_none arr of
             Some i \<Rightarrow> (Ok (ArrayRef i), Array (arr[i := Some value]))
           | None \<Rightarrow> (Err value, Array arr))
      | RBTree tree \<Rightarrow>
          (case rb_insert api tree value of (tree', cursor) \<Rightarrow> (Ok (RBTreeRef cursor), RBTree tree')))"

fun insert_all :: "('a, 't, 'c) rbtree_api \<Rightarrow> 't \<Rightarrow> 'a option list \<Rightarrow> 't" where
  "insert_all api tree [] = tree"
| "insert_all api tree (None # es) = insert_all api tree es"
| "insert_all api tree (Some e # es) = insert_all api (fst (rb_insert api tree e)) es"

definition sarb_convert_to_heap_allocated ::
  "('a, 't, 'c) rbtree_api \<Rightarrow> ('a, 't) static_array_rbtree \<Rightarrow> ('a, 't) static_array_rbtree" where
  "sarb_convert_to_heap_allocated api s =
     (case s of
        Array arr \<Rightarrow> RBTree (insert_all api (rb_new api) arr)
      | RBTree tree \<Rightarrow> RBTree tree)"

fun array_values :: "'a option list \<Rightarrow> 'a list" where
  "array_values [] = []"
| "array_values (None # es) = array_values es"
| "array_values (Some e # es) = e # array_values es"

definition sarb_iter :: "('a, 't, 'c) rbtree_api \<Rightarrow> ('a, 't) static_array_rbtree \<Rightarrow> 'a list" where
  "sarb_iter api s = (case s of Array arr \<Rightarrow> array_values arr | RBTree tree \<Rightarrow> rb_iter api tree)"

definition sarb_len :: "('a, 't, 'c) rbtree_api \<Rightarrow> ('a, 't) static_array_rbtree \<Rightarrow> nat" where
  "sarb_len api s =
     (case s of
        Array arr \<Rightarrow> length (filter (\<lambda>e. e \<noteq> None) arr)
      | RBTree tree \<Rightarrow> length (rb_iter api tree))"

text \<open>The loops of both allocators over the slots of an array: the first slot whose chunk satisfies a test.\<close>

fun find_slot :: "('a \<Rightarrow> bool) \<Rightarrow> 'a option list \<Rightarrow> (nat \<times> 'a) option" where
  "find_slot P [] = None"
| "find_slot P (None # es) = map_option (\<lambda>(i, x). (Suc i, x)) (find_slot P es)"
| "find_slot P (Some x # es) =
     (if P x then Some (0, x) else map_option (\<lambda>(i, x). (Suc i, x)) (find_slot P es))"

text \<open>\<open>ValueRefMut\<close>: a reference borrows the collection, so its operations take and give back
  the collection. An array reference to a slot that does not exist cannot be built in Rust; the
  model leaves the collection alone there.\<close>

definition ref_get ::
  "('a, 't, 'c) rbtree_api \<Rightarrow> ('a, 't) static_array_rbtree \<Rightarrow> 'c value_ref_mut \<Rightarrow> 'a option" where
  "ref_get api s r =
     (case (s, r) of
        (Array arr, ArrayRef i) \<Rightarrow> if i < length arr then arr ! i else None
      | (RBTree tree, RBTreeRef c) \<Rightarrow> cur_get api tree c
      | _ \<Rightarrow> None)"

definition ref_remove ::
  "('a, 't, 'c) rbtree_api \<Rightarrow> ('a, 't) static_array_rbtree \<Rightarrow> 'c value_ref_mut \<Rightarrow>
   'a option \<times> ('a, 't) static_array_rbtree" where
  "ref_remove api s r =
     (case (s, r) of
        (Array arr, ArrayRef i) \<Rightarrow>
          if i < length arr then (arr ! i, Array (arr[i := None])) else (None, s)
      | (RBTree tree, RBTreeRef c) \<Rightarrow>
          (case cur_remove api tree c of (v, tree', _) \<Rightarrow> (v, RBTree tree'))
      | _ \<Rightarrow> (None, s))"

definition ref_replace_with ::
  "('a, 't, 'c) rbtree_api \<Rightarrow> ('a, 't) static_array_rbtree \<Rightarrow> 'c value_ref_mut \<Rightarrow> 'a \<Rightarrow>
   ('a option, 'a) result \<times> ('a, 't) static_array_rbtree" where
  "ref_replace_with api s r new_value =
     (case (s, r) of
        (Array arr, ArrayRef i) \<Rightarrow>
          if i < length arr then (Ok (arr ! i), Array (arr[i := Some new_value])) else (Err new_value, s)
      | (RBTree tree, RBTreeRef c) \<Rightarrow>
          (case cur_replace api tree c new_value of
             (Inr old, tree', _) \<Rightarrow> (Ok (Some old), RBTree tree')
           | (Inl v, tree', _) \<Rightarrow> (Err v, RBTree tree'))
      | _ \<Rightarrow> (Err new_value, s))"

section \<open>Contents of a collection\<close>

abbreviation contents :: "('a, 't, 'c) rbtree_api \<Rightarrow> ('a, 't) static_array_rbtree \<Rightarrow> 'a multiset" where
  "contents api s \<equiv> mset (sarb_iter api s)"

lemma sarb_iter_simps [simp]:
  "sarb_iter api (Array arr) = array_values arr"
  "sarb_iter api (RBTree t) = rb_iter api t"
  by (simp_all add: sarb_iter_def)

lemma array_values_replicate_None [simp]: "array_values (replicate n None) = []"
  by (induction n) auto

lemma sarb_iter_empty [simp]: "sarb_iter api sarb_empty = []"
  by (simp add: sarb_empty_def)

lemma sarb_iter_new [simp]: "sarb_iter api (sarb_new arr) = array_values arr"
  by (simp add: sarb_new_def)

lemma length_array_values: "length (array_values arr) = length (filter (\<lambda>e. e \<noteq> None) arr)"
  by (induction arr rule: array_values.induct) auto

lemma sarb_len_eq: "sarb_len api s = length (sarb_iter api s)"
  by (cases s) (simp_all add: sarb_len_def length_array_values)

lemma array_values_append [simp]: "array_values (xs @ ys) = array_values xs @ array_values ys"
  by (induction xs rule: array_values.induct) auto

lemma set_array_values: "x \<in> set (array_values arr) \<longleftrightarrow> Some x \<in> set arr"
  by (induction arr rule: array_values.induct) auto

lemma array_values_update:
  assumes "i < length arr"
  shows "array_values (arr[i := e]) =
    array_values (take i arr) @ array_values [e] @ array_values (drop (Suc i) arr)"
  using assms by (simp add: upd_conv_take_nth_drop flip: array_values_append)

lemma array_values_split:
  assumes "i < length arr"
  shows "array_values arr =
    array_values (take i arr) @ array_values [arr ! i] @ array_values (drop (Suc i) arr)"
  using assms by (metis array_values_update list_update_id)

lemma first_none_Some:
  "first_none arr = Some i \<Longrightarrow> i < length arr \<and> arr ! i = None"
  by (induction arr arbitrary: i rule: first_none.induct) auto

lemma first_none_None: "first_none arr = None \<longleftrightarrow> None \<notin> set arr"
  by (induction arr rule: first_none.induct) auto

lemma array_contents_insert:
  assumes "first_none arr = Some i"
  shows "mset (array_values (arr[i := Some v])) = add_mset v (mset (array_values arr))"
proof -
  from assms have i: "i < length arr" "arr ! i = None" by (auto dest: first_none_Some)
  show ?thesis
    by (subst array_values_split [OF i(1)]) (simp add: i array_values_update)
qed

lemma array_contents_take:
  assumes "i < length arr" "arr ! i = Some v"
  shows "add_mset v (mset (array_values (arr[i := None]))) = mset (array_values arr)"
  by (subst array_values_split [OF assms(1)]) (simp add: assms array_values_update)

lemma find_slot_Some:
  "find_slot P arr = Some (i, c) \<Longrightarrow> i < length arr \<and> arr ! i = Some c \<and> P c"
  by (induction P arr arbitrary: i c rule: find_slot.induct) (auto split: if_splits)

lemma find_slot_None: "find_slot P arr = None \<longleftrightarrow> (\<forall>c \<in> set (array_values arr). \<not> P c)"
  by (induction P arr rule: find_slot.induct) auto

lemma mset_insert_after [simp]: "mset (insert_after key x xs) = add_mset x (mset xs)"
  unfolding insert_after_def by (metis mset.simps(2) mset_append takeWhile_dropWhile_id union_mset_add_mset_right)

lemma mset_remove_nth:
  assumes "i < length xs"
  shows "add_mset (xs ! i) (mset (remove_nth i xs)) = mset xs"
  using assms unfolding remove_nth_def
  by (metis id_take_nth_drop mset.simps(2) mset_append union_mset_add_mset_right)

lemma sorted_insert_after:
  assumes "sorted (map key xs)"
  shows "sorted (map key (insert_after key x xs))"
proof -
  let ?P = "\<lambda>y. key y \<le> key x"
  define ts ds where "ts = takeWhile ?P xs" and "ds = dropWhile ?P xs"
  have "xs = ts @ ds" by (simp add: ts_def ds_def)
  with assms have s: "sorted (map key ts)" "sorted (map key ds)"
    "\<forall>y\<in>set ts. \<forall>z\<in>set ds. key y \<le> key z"
    by (auto simp: sorted_append)
  have t: "\<forall>y\<in>set ts. key y \<le> key x" by (auto simp: ts_def dest: set_takeWhileD)
  have d: "\<forall>y\<in>set ds. key x \<le> key y"
  proof (cases ds)
    case (Cons z zs)
    then have "\<not> ?P z" by (metis ds_def dropWhile_eq_Cons_conv)
    with s(2) Cons show ?thesis by auto
  qed simp
  from s t d show ?thesis by (auto simp: insert_after_def sorted_append simp flip: ts_def ds_def)
qed

lemma sorted_remove_nth: "sorted (map key xs) \<Longrightarrow> sorted (map key (remove_nth i xs))"
proof -
  assume s: "sorted (map key xs)"
  then have "sorted (map key (take i xs @ drop i xs))" by simp
  then have "sorted (map key (take i xs))" "sorted (map key (drop i xs))"
    "\<forall>x\<in>set (take i xs). \<forall>y\<in>set (drop i xs). key x \<le> key y"
    by (auto simp: sorted_append simp del: append_take_drop_id)
  moreover have "set (drop (Suc i) xs) \<subseteq> set (drop i xs)" by (simp add: set_drop_subset_set_drop)
  moreover have "sorted (map key (drop (Suc i) xs))" using s by (metis drop_map sorted_wrt_drop)
  ultimately show ?thesis by (auto simp: remove_nth_def sorted_append)
qed

lemma last_below_None:
  assumes "sorted (map key xs)" "last_below key b xs = None" "x \<in> set xs"
  shows "\<not> below b (key x)"
proof (cases xs)
  case (Cons y ys)
  have "length (takeWhile (\<lambda>y. below b (key y)) xs) = 0"
    using assms(2) by (simp add: last_below_def split: nat.splits)
  with Cons have "\<not> below b (key y)" by (auto split: if_splits)
  moreover have "key y \<le> key x" using assms(1,3) Cons by auto
  ultimately show ?thesis by (cases b) auto
qed (use assms in simp)

lemma last_below_Some:
  assumes "sorted (map key xs)" "last_below key b xs = Some i"
  shows "i < length xs" "\<And>j. j \<le> i \<Longrightarrow> below b (key (xs ! j))"
    "\<And>j. i < j \<Longrightarrow> j < length xs \<Longrightarrow> \<not> below b (key (xs ! j))"
proof -
  let ?n = "length (takeWhile (\<lambda>y. below b (key y)) xs)"
  have n: "?n = Suc i" using assms(2) by (simp add: last_below_def split: nat.splits)
  then show "i < length xs" using length_takeWhile_le [of "\<lambda>y. below b (key y)" xs] by simp
  show "below b (key (xs ! j))" if "j \<le> i" for j
    using that n nth_mem [of j "takeWhile (\<lambda>y. below b (key y)) xs"]
    by (metis less_Suc_eq_le set_takeWhileD takeWhile_nth)
  show "\<not> below b (key (xs ! j))" if "i < j" "j < length xs" for j
  proof -
    have "Suc i < length xs" using that by simp
    then have "\<not> below b (key (xs ! Suc i))" using n nth_length_takeWhile [of "\<lambda>y. below b (key y)" xs] by simp
    moreover have "key (xs ! Suc i) \<le> key (xs ! j)"
      using that assms(1) sorted_nth_mono [of "map key xs" "Suc i" j] by simp
    ultimately show ?thesis by (cases b) auto
  qed
qed

context rbtree
begin

lemma contents_insert:
  "sarb_insert api s v = (Ok r, s') \<Longrightarrow> contents api s' = add_mset v (contents api s)"
  by (auto simp: sarb_insert_def array_contents_insert iter_insert
      split: static_array_rbtree.splits option.splits prod.splits)
    (metis fst_conv iter_insert mset_insert_after)

lemma insert_Err: "sarb_insert api s v = (Err e, s') \<Longrightarrow> s' = s \<and> e = v"
  by (auto simp: sarb_insert_def split: static_array_rbtree.splits option.splits prod.splits)

lemma insert_RBTree_Ok: "\<exists>c t'. sarb_insert api (RBTree t) v = (Ok c, RBTree t')"
  by (auto simp: sarb_insert_def split: prod.splits)

lemma mset_insert_all: "mset (rb_iter api (insert_all api t es)) = mset (rb_iter api t) + mset (array_values es)"
  by (induction es arbitrary: t rule: array_values.induct) (simp_all add: iter_insert)

lemma contents_convert: "contents api (sarb_convert_to_heap_allocated api s) = contents api s"
  by (cases s) (simp_all add: sarb_convert_to_heap_allocated_def mset_insert_all iter_new)

lemma contents_ref_remove:
  "ref_remove api s r = (Some v, s') \<Longrightarrow> contents api s = add_mset v (contents api s')"
  by (auto simp: ref_remove_def array_contents_take
      split: static_array_rbtree.splits value_ref_mut.splits prod.splits if_splits)
    (metis (no_types, lifting) mset_remove_nth option.exhaust pos_bound prod.inject remove_null
      remove_some option.inject option.distinct(1))

lemma ref_remove_get: "fst (ref_remove api s r) = ref_get api s r"
proof (cases s; cases r)
  fix t c assume "s = RBTree t" "r = RBTreeRef c"
  then show ?thesis
    by (cases "pos t c") (use remove_null [of t c] remove_some [of t c] in
        \<open>auto simp: ref_remove_def ref_get_def get_pos split: prod.splits\<close>)
qed (auto simp: ref_remove_def ref_get_def)

end

section \<open>A reference instance of the interface\<close>

text \<open>The contract can be met: a list, read in key order, with positions as cursors. The instance
  serves to evaluate the model on concrete inputs.\<close>

definition list_pos :: "'a list \<Rightarrow> nat option \<Rightarrow> nat option" where
  "list_pos t c = (case c of Some i \<Rightarrow> if i < length t then Some i else None | None \<Rightarrow> None)"

definition list_rbtree :: "('a \<Rightarrow> usize) \<Rightarrow> ('a, 'a list, nat option) rbtree_api" where
  "list_rbtree key =
     \<lparr>rb_new = [],
      rb_insert = (\<lambda>t x. (insert_after key x (sort_key key t),
                       Some (length (takeWhile (\<lambda>y. key y \<le> key x) (sort_key key t))))),
      rb_iter = sort_key key,
      rb_upper_bound = (\<lambda>t b. last_below key b (sort_key key t)),
      cur_get = (\<lambda>t c. map_option ((!) (sort_key key t)) (list_pos t c)),
      cur_next = (\<lambda>t c. next_pos (sort_key key t) (list_pos t c)),
      cur_prev = (\<lambda>t c. prev_pos (sort_key key t) (list_pos t c)),
      cur_remove = (\<lambda>t c.
        case list_pos t c of
          None \<Rightarrow> (None, t, c)
        | Some i \<Rightarrow> (Some (sort_key key t ! i), remove_nth i (sort_key key t),
                    if Suc i < length t then Some i else None)),
      cur_replace = (\<lambda>t c x.
        case list_pos t c of
          None \<Rightarrow> (Err x, t, c)
        | Some i \<Rightarrow> (Ok (sort_key key t ! i), (sort_key key t)[i := x], Some i))\<rparr>"

lemma list_pos_Some: "list_pos t c = Some i \<Longrightarrow> c = Some i \<and> i < length t"
  by (auto simp: list_pos_def split: option.splits if_splits)

lemma list_pos_last_below: "list_pos t (last_below key b (sort_key key t)) = last_below key b (sort_key key t)"
  using last_below_Some(1) [of key "sort_key key t" b]
  by (cases "last_below key b (sort_key key t)") (auto simp: list_pos_def)

lemma length_remove_nth: "i < length xs \<Longrightarrow> length (remove_nth i xs) = length xs - 1"
  by (simp add: remove_nth_def)

lemma insert_after_get:
  "list_pos (insert_after key x xs) (Some (length (takeWhile (\<lambda>y. key y \<le> key x) xs))) =
     Some (length (takeWhile (\<lambda>y. key y \<le> key x) xs)) \<and>
   insert_after key x xs ! length (takeWhile (\<lambda>y. key y \<le> key x) xs) = x"
  by (simp add: list_pos_def insert_after_def)

interpretation list_rbtree: rbtree "list_rbtree key" key list_pos for key :: "'a \<Rightarrow> usize"
proof (unfold_locales, goal_cases)
  case (3 t x)
  show ?case by (simp add: list_rbtree_def sort_key_id_if_sorted sorted_insert_after)
next
  case (4 t x)
  show ?case
    using insert_after_get [of key x "sort_key key t"]
    by (simp add: list_rbtree_def sort_key_id_if_sorted sorted_insert_after)
next
  case (7 t b)
  show ?case by (simp add: list_rbtree_def list_pos_last_below)
next
  case (8 t c)
  show ?case by (cases "list_pos t c") (auto simp: list_rbtree_def list_pos_def)
next
  case (9 t c)
  show ?case
  proof (cases "list_pos t c")
    case (Some i)
    then have "c = Some i" "i < length t" by (auto dest: list_pos_Some)
    then show ?thesis by (cases i) (auto simp: list_rbtree_def list_pos_def)
  next
    case None
    then show ?thesis by (cases "t = []") (simp_all add: list_rbtree_def, simp_all add: list_pos_def)
  qed
next
  case (11 t c i)
  then have "c = Some i" "i < length t" by (auto dest: list_pos_Some)
  then show ?case
    by (auto simp: list_rbtree_def sort_key_id_if_sorted sorted_remove_nth length_remove_nth
        list_pos_def)
next
  case (12 t c i x)
  then have "c = Some i" "i < length t" by (auto dest: list_pos_Some)
  with 12(2) show ?case
    by (simp add: list_rbtree_def sort_key_id_if_sorted list_pos_def)
qed (auto simp: list_rbtree_def dest: list_pos_Some)

end
