(* ===== verification/FrameAllocator.thy ===== *)
theory FrameAllocator
  imports MemoryStructs StaticArrayRBTree
begin

text \<open>
  The allocator of physical frames: \<^verbatim>\<open>src/kernel/frame_allocator/src/lib.rs\<close>.

  The four static lists behind locks are the record \<open>frame_allocator\<close>; every function takes
  and returns it (each call holds its locks from start to end, so a call is one step). The
  ownership types \<open>AllocatedFrames\<close> and \<open>DeferredAllocAction\<close> are values that the caller
  holds; dropping one is the operation \<open>drop_allocated_frames\<close> or \<open>drop_deferred\<close>. Panics
  (assertions, \<open>unwrap\<close>, \<open>todo!\<close>, array indices) are \<open>None\<close>; loops over cursors of the
  external tree are partial functions, with their termination proved from the tree's contract.
\<close>

section \<open>Data\<close>

datatype memory_region_type = Free | Reserved | Unknown

record physical_memory_region =
  pmr_frames :: chunk_range
  pmr_typ :: memory_region_type

record fchunk =
  fc_typ :: memory_region_type
  fc_frames :: chunk_range

type_synonym allocated_frames = chunk_range

record deferred_alloc_action =
  free1 :: fchunk
  free2 :: fchunk

datatype allocation_error =
    AddressNotFree frame usize
  | AddressNotFound frame usize
  | OutOfAddressSpace usize
  | ContiguousChunkNotFound frame usize

fun allocation_error_str :: "allocation_error \<Rightarrow> string" where
  "allocation_error_str (AddressNotFree _ _) = ''requested address was in use''"
| "allocation_error_str (AddressNotFound _ _) =
     ''requested address was outside of this frame allocator's range''"
| "allocation_error_str (OutOfAddressSpace _) = ''out of physical address space''"
| "allocation_error_str (ContiguousChunkNotFound _ _) =
     ''only some of the requested frames were available''"

record 't frame_allocator =
  free_general :: "(fchunk, 't) static_array_rbtree"
  free_reserved :: "(fchunk, 't) static_array_rbtree"
  general_regions :: "(fchunk, 't) static_array_rbtree"
  reserved_regions :: "(fchunk, 't) static_array_rbtree"

definition FRAME_SIZE :: usize where "FRAME_SIZE = PAGE_SIZE"

definition MIN_FRAME :: frame where "MIN_FRAME = containing_address addr_zero"

definition MAX_FRAME :: frame where
  "MAX_FRAME = containing_address (canonicalize_physical_address USIZE_MAX)"

definition chunk_empty :: fchunk where
  "chunk_empty = \<lparr>fc_typ = Unknown, fc_frames = range_empty\<rparr>"

abbreviation fc_start :: "fchunk \<Rightarrow> frame" where "fc_start c \<equiv> r_start (fc_frames c)"
abbreviation fc_end :: "fchunk \<Rightarrow> frame" where "fc_end c \<equiv> r_end (fc_frames c)"

definition deferred_new :: "fchunk option \<Rightarrow> fchunk option \<Rightarrow> deferred_alloc_action" where
  "deferred_new f1 f2 =
     \<lparr>free1 = (case f1 of None \<Rightarrow> chunk_empty | Some c \<Rightarrow> c),
      free2 = (case f2 of None \<Rightarrow> chunk_empty | Some c \<Rightarrow> c)\<rparr>"

section \<open>AllocatedFrames\<close>

definition allocated_frames_empty :: allocated_frames where
  "allocated_frames_empty = range_empty"

definition allocated_frames_merge ::
  "allocated_frames \<Rightarrow> allocated_frames \<Rightarrow> (allocated_frames, allocated_frames) result" where
  "allocated_frames_merge self other =
     (if r_start self = chunk_add (r_end other) 1 then Ok (range_new (r_start other) (r_end self))
      else if chunk_add (r_end self) 1 = r_start other then Ok (range_new (r_start self) (r_end other))
      else Err other)"

definition allocated_frames_split ::
  "allocated_frames \<Rightarrow> frame \<Rightarrow> (allocated_frames \<times> allocated_frames, allocated_frames) result" where
  "allocated_frames_split self at_frame =
     (let end_of_first = chunk_sub at_frame 1 in
      if at_frame = r_start self \<and> at_frame \<le> r_end self then
        Ok (range_empty, range_new at_frame (r_end self))
      else if at_frame = chunk_add (r_end self) 1 \<and> r_start self \<le> end_of_first then
        Ok (range_new (r_start self) (r_end self), range_empty)
      else if r_start self < at_frame \<and> end_of_first \<le> r_end self then
        Ok (range_new (r_start self) end_of_first, range_new at_frame (r_end self))
      else Err self)"

definition as_allocated_frame :: "allocated_frames \<Rightarrow> frame panics" where
  "as_allocated_frame self = do { assert_that (size_in_chunks self = 1); Some (r_start self) }"

definition into_allocated_frames :: "chunk_range \<Rightarrow> allocated_frames" where
  "into_allocated_frames frames = frames"

section \<open>Searching the lists\<close>

definition split_chosen_chunk ::
  "frame \<Rightarrow> usize \<Rightarrow> fchunk \<Rightarrow> (fchunk \<times> fchunk option \<times> fchunk option) panics" where
  "split_chosen_chunk start_frame num_frames chosen_chunk =
     (let new_allocation =
            \<lparr>fc_typ = fc_typ chosen_chunk,
             fc_frames = range_new start_frame (chunk_add start_frame (num_frames - 1))\<rparr>;
          before =
            (if start_frame = MIN_FRAME then None
             else Some \<lparr>fc_typ = fc_typ chosen_chunk,
                        fc_frames = range_new (fc_start chosen_chunk)
                                      (chunk_sub (fc_start new_allocation) 1)\<rparr>);
          after =
            (if fc_end new_allocation = MAX_FRAME then None
             else Some \<lparr>fc_typ = fc_typ chosen_chunk,
                        fc_frames = range_new (chunk_add (fc_end new_allocation) 1)
                                      (fc_end chosen_chunk)\<rparr>)
      in do {
        assert_that (case before of None \<Rightarrow> True
          | Some b \<Rightarrow> \<not> range_contains (fc_frames new_allocation) (fc_end b) \<and>
                      \<not> range_contains (fc_frames b) (fc_start new_allocation));
        assert_that (case after of None \<Rightarrow> True
          | Some a \<Rightarrow> \<not> range_contains (fc_frames new_allocation) (fc_start a) \<and>
                      \<not> range_contains (fc_frames a) (fc_end new_allocation));
        Some (new_allocation, before, after)
      })"

definition allocate_from_chosen_chunk ::
  "(fchunk, 't, 'c) rbtree_api \<Rightarrow> frame \<Rightarrow> usize \<Rightarrow> fchunk \<Rightarrow>
   (fchunk, 't) static_array_rbtree \<Rightarrow> 'c value_ref_mut \<Rightarrow>
   ((allocated_frames \<times> deferred_alloc_action) \<times> (fchunk, 't) static_array_rbtree) panics" where
  "allocate_from_chosen_chunk api start_frame num_frames chosen_chunk list chosen_chunk_ref =
     do {
       (new_allocation, before, after) \<leftarrow> split_chosen_chunk start_frame num_frames chosen_chunk;
       let (removed_chunk, list') = ref_remove api list chosen_chunk_ref;
       Some ((fc_frames new_allocation, deferred_new before after), list')
     }"

definition find_specific_chunk ::
  "(fchunk, 't, 'c) rbtree_api \<Rightarrow> (fchunk, 't) static_array_rbtree \<Rightarrow> frame \<Rightarrow> usize \<Rightarrow>
   ((allocated_frames \<times> deferred_alloc_action, allocation_error) result
     \<times> (fchunk, 't) static_array_rbtree) panics" where
  "find_specific_chunk api list requested_frame num_frames =
     (let requested_end_frame = chunk_add requested_frame (num_frames - 1);
          not_found = Some (Err (AddressNotFound requested_frame num_frames), list);
          ok = map_option (\<lambda>(a, list'). (Ok a, list'))
      in case list of
        Array arr \<Rightarrow>
          (case find_slot (\<lambda>chunk. fc_start chunk \<le> requested_frame \<and>
                                   requested_end_frame \<le> fc_end chunk) arr of
             Some (i, chunk) \<Rightarrow>
               ok (allocate_from_chosen_chunk api requested_frame num_frames chunk list (ArrayRef i))
           | None \<Rightarrow> not_found)
      | RBTree tree \<Rightarrow>
          (let cursor = rb_upper_bound api tree (Included requested_frame) in
           case cur_get api tree cursor of
             None \<Rightarrow> not_found
           | Some chunk \<Rightarrow>
               if \<not> range_contains (fc_frames chunk) requested_frame then not_found
               else if requested_end_frame \<le> fc_end chunk then
                 ok (allocate_from_chosen_chunk api requested_frame num_frames chunk list
                       (RBTreeRef cursor))
               else
                 (case cur_get api tree (cur_next api tree cursor) of
                    None \<Rightarrow>
                      Some (Err (ContiguousChunkNotFound (chunk_add (fc_end chunk) 1)
                                   (requested_end_frame - fc_end chunk)), list)
                  | Some next_chunk \<Rightarrow>
                      if chunk_add (fc_end chunk) 1 = fc_start next_chunk then
                        if requested_end_frame \<le> fc_end next_chunk then
                          (case cur_remove api tree cursor of
                             (removed_initial_chunk, tree', cursor') \<Rightarrow>
                               ok (allocate_from_chosen_chunk api requested_frame num_frames
                                     (next_chunk\<lparr>fc_frames :=
                                        range_new (fc_start chunk) (fc_end next_chunk)\<rparr>)
                                     (RBTree tree') (RBTreeRef cursor')))
                        else None
                      else not_found)))"

partial_function (option) find_any_cursor ::
  "(fchunk, 't, 'c) rbtree_api \<Rightarrow> 't \<Rightarrow> usize \<Rightarrow> 'c \<Rightarrow> ('c \<times> fchunk) option option" where
  "find_any_cursor api tree num_frames cursor =
     (case cur_get api tree cursor of
        None \<Rightarrow> Some None
      | Some chunk \<Rightarrow>
          if num_frames \<le> size_in_chunks (fc_frames chunk) \<and> fc_typ chunk = Free then
            Some (Some (cursor, chunk))
          else find_any_cursor api tree num_frames (cur_prev api tree cursor))"

definition find_any_chunk ::
  "(fchunk, 't, 'c) rbtree_api \<Rightarrow> (fchunk, 't) static_array_rbtree \<Rightarrow> usize \<Rightarrow>
   ((allocated_frames \<times> deferred_alloc_action, allocation_error) result
     \<times> (fchunk, 't) static_array_rbtree) panics" where
  "find_any_chunk api list num_frames =
     (let out_of_space = Some (Err (OutOfAddressSpace num_frames), list);
          ok = map_option (\<lambda>(a, list'). (Ok a, list'))
      in case list of
        Array arr \<Rightarrow>
          (case find_slot (\<lambda>chunk. \<not> (size_in_chunks (fc_frames chunk) < num_frames \<or>
                                       fc_typ chunk \<noteq> Free)) arr of
             Some (i, chunk) \<Rightarrow>
               ok (allocate_from_chosen_chunk api (fc_start chunk) num_frames chunk list (ArrayRef i))
           | None \<Rightarrow> out_of_space)
      | RBTree tree \<Rightarrow>
          do {
            found \<leftarrow> find_any_cursor api tree num_frames (rb_upper_bound api tree Unbounded);
            case found of
              None \<Rightarrow> out_of_space
            | Some (cursor, chunk) \<Rightarrow>
                ok (allocate_from_chosen_chunk api (fc_start chunk) num_frames chunk list
                      (RBTreeRef cursor))
          })"

partial_function (option) overlaps_from ::
  "(fchunk, 't, 'c) rbtree_api \<Rightarrow> 't \<Rightarrow> chunk_range \<Rightarrow> 'c \<Rightarrow> bool option" where
  "overlaps_from api tree frames cursor =
     (case cur_get api tree cursor of
        None \<Rightarrow> Some False
      | Some chunk \<Rightarrow>
          if r_end frames < fc_start chunk then Some False
          else if overlap (fc_frames chunk) frames \<noteq> None then Some True
          else overlaps_from api tree frames (cur_next api tree cursor))"

definition contains_any ::
  "(fchunk, 't, 'c) rbtree_api \<Rightarrow> (fchunk, 't) static_array_rbtree \<Rightarrow> chunk_range \<Rightarrow> bool panics" where
  "contains_any api list frames =
     (case list of
        Array arr \<Rightarrow> Some (\<exists>chunk \<in> set (array_values arr). overlap (fc_frames chunk) frames \<noteq> None)
      | RBTree tree \<Rightarrow>
          overlaps_from api tree frames (rb_upper_bound api tree (Included (r_start frames))))"

definition add_reserved_region ::
  "(fchunk, 't, 'c) rbtree_api \<Rightarrow> (fchunk, 't) static_array_rbtree \<Rightarrow> chunk_range \<Rightarrow>
   ((chunk_range, string) result \<times> (fchunk, 't) static_array_rbtree) panics" where
  "add_reserved_region api list frames =
     do {
       overlapping \<leftarrow>
         (case list of
            Array arr \<Rightarrow> Some (\<exists>chunk \<in> set (array_values arr). overlap (fc_frames chunk) frames \<noteq> None)
          | RBTree tree \<Rightarrow>
              overlaps_from api tree frames (rb_upper_bound api tree (Included (r_start frames))));
       if overlapping then
         Some (Err (case list of
             Array _ \<Rightarrow> ''Failed to add reserved region that overlapped with existing reserved regions (array).''
           | RBTree _ \<Rightarrow> ''Failed to add reserved region that overlapped with existing reserved regions (RBTree).''),
           list)
       else
         (case sarb_insert api list \<lparr>fc_typ = Reserved, fc_frames = frames\<rparr> of
            (Inl c, list') \<Rightarrow> Some (Err ''BUG: Failed to insert non-overlapping frames into list.'', list')
          | (Inr r, list') \<Rightarrow> Some (Ok frames, list'))
     }"

section \<open>The allocation functions\<close>

text \<open>The tail of \<open>allocate_frames_deferred\<close>: the requested frames are in neither free list, so
  they may become a new reserved region.\<close>

definition allocate_new_reserved ::
  "(fchunk, 't, 'c) rbtree_api \<Rightarrow> 't frame_allocator \<Rightarrow> frame \<Rightarrow> usize \<Rightarrow> frame \<Rightarrow> usize \<Rightarrow>
   ((allocated_frames \<times> deferred_alloc_action, string) result \<times> 't frame_allocator) panics" where
  "allocate_new_reserved api st start_frame num_frames requested_start_frame requested_num_frames =
     (let requested_frames =
            range_new requested_start_frame
              (chunk_add requested_start_frame (requested_num_frames - 1))
      in do {
        in_general \<leftarrow> contains_any api (general_regions st) requested_frames;
        if in_general then
          Some (Err (allocation_error_str (AddressNotFree start_frame num_frames)), st)
        else do {
          (r1, rr) \<leftarrow> add_reserved_region api (reserved_regions st) requested_frames;
          let st = st\<lparr>reserved_regions := rr\<rparr>;
          case r1 of
            Inl e \<Rightarrow> Some (Err e, st)
          | Inr new_reserved_frames \<Rightarrow> do {
              (r2, fr) \<leftarrow> add_reserved_region api (free_reserved st) new_reserved_frames;
              let st = st\<lparr>free_reserved := fr\<rparr>;
              case r2 of
                Inl e \<Rightarrow> Some (Err e, st)
              | Inr new_free_reserved_frames \<Rightarrow> do {
                  assert_that (new_reserved_frames = new_free_reserved_frames);
                  (r3, fr) \<leftarrow> find_specific_chunk api (free_reserved st) start_frame num_frames;
                  Some (map_sum allocation_error_str id r3, st\<lparr>free_reserved := fr\<rparr>)
                }
            }
        }
      })"

definition allocate_frames_deferred ::
  "(fchunk, 't, 'c) rbtree_api \<Rightarrow> 't frame_allocator \<Rightarrow> usize option \<Rightarrow> usize \<Rightarrow>
   ((allocated_frames \<times> deferred_alloc_action, string) result \<times> 't frame_allocator) panics" where
  "allocate_frames_deferred api st requested_paddr num_frames =
     (if num_frames = 0 then Some (Err ''cannot allocate zero frames'', st)
      else case requested_paddr of
        Some paddr \<Rightarrow>
          (let start_frame = containing_address paddr in do {
            (first_attempt, fr) \<leftarrow> find_specific_chunk api (free_reserved st) start_frame num_frames;
            let st = st\<lparr>free_reserved := fr\<rparr>;
            case first_attempt of
              Inr success \<Rightarrow> Some (Ok success, st)
            | Inl (AddressNotFound a b) \<Rightarrow> do {
                (second_attempt, fg) \<leftarrow> find_specific_chunk api (free_general st) start_frame num_frames;
                let st = st\<lparr>free_general := fg\<rparr>;
                case second_attempt of
                  Inr success \<Rightarrow> Some (Ok success, st)
                | Inl (AddressNotFound a b) \<Rightarrow>
                    allocate_new_reserved api st start_frame num_frames start_frame num_frames
                | Inl other \<Rightarrow> Some (Err (allocation_error_str (AddressNotFound a b)), st)
              }
            | Inl (ContiguousChunkNotFound f numf) \<Rightarrow>
                allocate_new_reserved api st start_frame num_frames f numf
            | Inl alloc_err \<Rightarrow> Some (Err (allocation_error_str alloc_err), st)
          })
      | None \<Rightarrow> do {
          (r, fg) \<leftarrow> find_any_chunk api (free_general st) num_frames;
          Some (map_sum allocation_error_str id r, st\<lparr>free_general := fg\<rparr>)
        })"

definition allocate_frames_by_bytes_deferred ::
  "(fchunk, 't, 'c) rbtree_api \<Rightarrow> 't frame_allocator \<Rightarrow> usize option \<Rightarrow> usize \<Rightarrow>
   ((allocated_frames \<times> deferred_alloc_action, string) result \<times> 't frame_allocator) panics" where
  "allocate_frames_by_bytes_deferred api st requested_paddr num_bytes =
     (let actual_num_bytes =
            (case requested_paddr of
               Some paddr \<Rightarrow> num_bytes + paddr mod FRAME_SIZE
             | None \<Rightarrow> num_bytes);
          num_frames = (actual_num_bytes + FRAME_SIZE - 1) div FRAME_SIZE
      in allocate_frames_deferred api st requested_paddr num_frames)"

section \<open>Dropping\<close>

definition drop_allocated_frames ::
  "(fchunk, 't, 'c) rbtree_api \<Rightarrow> 't frame_allocator \<Rightarrow> allocated_frames \<Rightarrow> 't frame_allocator panics" where
  "drop_allocated_frames api st frames =
     (if size_in_chunks frames = 0 then Some st
      else do {
        reserved \<leftarrow> contains_any api (reserved_regions st) frames;
        if reserved then
          Some (st\<lparr>free_reserved :=
            snd (sarb_insert api (free_reserved st) \<lparr>fc_typ = Reserved, fc_frames = frames\<rparr>)\<rparr>)
        else
          Some (st\<lparr>free_general :=
            snd (sarb_insert api (free_general st) \<lparr>fc_typ = Free, fc_frames = frames\<rparr>)\<rparr>)
      })"

text \<open>\<open>list.insert(chunk).unwrap()\<close>.\<close>

definition insert_unwrap ::
  "('a, 't, 'c) rbtree_api \<Rightarrow> ('a, 't) static_array_rbtree \<Rightarrow> 'a \<Rightarrow> ('a, 't) static_array_rbtree panics" where
  "insert_unwrap api list v =
     (case sarb_insert api list v of (Inr r, list') \<Rightarrow> Some list' | (Inl e, list') \<Rightarrow> None)"

definition drop_deferred_chunk ::
  "(fchunk, 't, 'c) rbtree_api \<Rightarrow> 't frame_allocator \<Rightarrow> fchunk \<Rightarrow> 't frame_allocator panics" where
  "drop_deferred_chunk api st c =
     (if size_in_chunks (fc_frames c) > 0 then
        case fc_typ c of
          Free \<Rightarrow> do { l \<leftarrow> insert_unwrap api (free_general st) c; Some (st\<lparr>free_general := l\<rparr>) }
        | Reserved \<Rightarrow> do { l \<leftarrow> insert_unwrap api (free_reserved st) c; Some (st\<lparr>free_reserved := l\<rparr>) }
        | Unknown \<Rightarrow> Some st
      else Some st)"

definition drop_deferred ::
  "(fchunk, 't, 'c) rbtree_api \<Rightarrow> 't frame_allocator \<Rightarrow> deferred_alloc_action \<Rightarrow> 't frame_allocator panics" where
  "drop_deferred api st act =
     do { st \<leftarrow> drop_deferred_chunk api st (free1 act); drop_deferred_chunk api st (free2 act) }"

text \<open>The convenience functions drop the deferred action at once: in
  \<^verbatim>\<open>.map(|(af, _action)| af)\<close> the action goes out of scope.\<close>

definition drop_action ::
  "(fchunk, 't, 'c) rbtree_api \<Rightarrow>
   ((allocated_frames \<times> deferred_alloc_action, string) result \<times> 't frame_allocator) panics \<Rightarrow>
   ((allocated_frames, string) result \<times> 't frame_allocator) panics" where
  "drop_action api r =
     do {
       (res, st) \<leftarrow> r;
       case res of
         Inl e \<Rightarrow> Some (Err e, st)
       | Inr (af, action) \<Rightarrow> do { st \<leftarrow> drop_deferred api st action; Some (Ok af, st) }
     }"

definition allocate_frames ::
  "(fchunk, 't, 'c) rbtree_api \<Rightarrow> 't frame_allocator \<Rightarrow> usize \<Rightarrow>
   (allocated_frames option \<times> 't frame_allocator) panics" where
  "allocate_frames api st num_frames =
     map_option (apfst ok_option) (drop_action api (allocate_frames_deferred api st None num_frames))"

definition allocate_frames_by_bytes ::
  "(fchunk, 't, 'c) rbtree_api \<Rightarrow> 't frame_allocator \<Rightarrow> usize \<Rightarrow>
   (allocated_frames option \<times> 't frame_allocator) panics" where
  "allocate_frames_by_bytes api st num_bytes =
     map_option (apfst ok_option)
       (drop_action api (allocate_frames_by_bytes_deferred api st None num_bytes))"

definition allocate_frames_by_bytes_at ::
  "(fchunk, 't, 'c) rbtree_api \<Rightarrow> 't frame_allocator \<Rightarrow> usize \<Rightarrow> usize \<Rightarrow>
   ((allocated_frames, string) result \<times> 't frame_allocator) panics" where
  "allocate_frames_by_bytes_at api st paddr num_bytes =
     drop_action api (allocate_frames_by_bytes_deferred api st (Some paddr) num_bytes)"

definition allocate_frames_at ::
  "(fchunk, 't, 'c) rbtree_api \<Rightarrow> 't frame_allocator \<Rightarrow> usize \<Rightarrow> usize \<Rightarrow>
   ((allocated_frames, string) result \<times> 't frame_allocator) panics" where
  "allocate_frames_at api st paddr num_frames =
     drop_action api (allocate_frames_deferred api st (Some paddr) num_frames)"

definition frame_convert_to_heap_allocated ::
  "(fchunk, 't, 'c) rbtree_api \<Rightarrow> 't frame_allocator \<Rightarrow> 't frame_allocator" where
  "frame_convert_to_heap_allocated api st =
     \<lparr>free_general = sarb_convert_to_heap_allocated api (free_general st),
      free_reserved = sarb_convert_to_heap_allocated api (free_reserved st),
      general_regions = sarb_convert_to_heap_allocated api (general_regions st),
      reserved_regions = sarb_convert_to_heap_allocated api (reserved_regions st)\<rparr>"

section \<open>Initialisation\<close>

text \<open>\<open>free_list[*free_list_idx] = Some(..); *free_list_idx += 1\<close>: panics when all slots are used.\<close>

definition push_slot :: "'a option list \<times> nat \<Rightarrow> 'a \<Rightarrow> ('a option list \<times> nat) panics" where
  "push_slot fl c =
     (case fl of (arr, i) \<Rightarrow> if i < length arr then Some (arr[i := Some c], Suc i) else None)"

text \<open>\<open>check_and_add_free_region\<close>: \<open>rest\<close> holds the reserved areas that the loop has yet to
  visit, \<open>reserved_areas\<close> all of them (for the recursive call), \<open>current_start\<close> and
  \<open>current_end\<close> are the local variables.\<close>

partial_function (option) check_reserved ::
  "chunk_range list \<Rightarrow> frame \<Rightarrow> frame \<Rightarrow> frame \<Rightarrow> chunk_range list \<Rightarrow>
   fchunk option list \<times> nat \<Rightarrow> (fchunk option list \<times> nat) option" where
  "check_reserved reserved_areas area_end current_start current_end rest fl =
     (case rest of
        [] \<Rightarrow>
          (let new_area = range_new current_start current_end in
           if size_in_chunks new_area > 0 then push_slot fl \<lparr>fc_typ = Free, fc_frames = new_area\<rparr>
           else Some fl)
      | reserved # rest' \<Rightarrow>
          (let current_start =
                 (if range_contains reserved current_start then chunk_add (r_end reserved) 1
                  else current_start)
           in if current_start \<le> r_start reserved \<and> r_start reserved \<le> current_end then
                (let current_end = min current_end (chunk_sub (r_start reserved) 1) in
                 if area_end \<le> r_end reserved then
                   check_reserved reserved_areas area_end current_start current_end [] fl
                 else
                   do {
                     fl \<leftarrow> check_reserved reserved_areas area_end
                             (chunk_add (r_end reserved) 1) area_end reserved_areas fl;
                     check_reserved reserved_areas area_end current_start current_end rest' fl
                   })
              else check_reserved reserved_areas area_end current_start current_end rest' fl))"

definition check_and_add_free_region ::
  "chunk_range \<Rightarrow> fchunk option list \<times> nat \<Rightarrow> physical_memory_region list \<Rightarrow>
   (fchunk option list \<times> nat) panics" where
  "check_and_add_free_region area fl reserved_areas =
     check_reserved (map pmr_frames reserved_areas) (r_end area) (r_start area) (r_end area)
       (map pmr_frames reserved_areas) fl"

fun add_free_regions ::
  "physical_memory_region list \<Rightarrow> physical_memory_region list \<Rightarrow> fchunk option list \<times> nat \<Rightarrow>
   (fchunk option list \<times> nat) panics" where
  "add_free_regions [] reserved_areas fl = Some fl"
| "add_free_regions (area # areas) reserved_areas fl =
     do {
       fl \<leftarrow> check_and_add_free_region (pmr_frames area) fl reserved_areas;
       add_free_regions areas reserved_areas fl
     }"

definition reserved_slots :: "physical_memory_region list \<Rightarrow> fchunk option list panics" where
  "reserved_slots areas =
     (if length areas \<le> ARRAY_LEN then
        Some (map (\<lambda>area. Some \<lparr>fc_typ = Reserved, fc_frames = pmr_frames area\<rparr>) areas
              @ replicate (ARRAY_LEN - length areas) None)
      else None)"

text \<open>The inner loop over \<^verbatim>\<open>reserved_list[i + 1..]\<close>: \<open>current\<close> swallows what it overlaps.\<close>

fun absorb :: "fchunk \<Rightarrow> fchunk option list \<Rightarrow> fchunk \<times> fchunk option list \<times> bool" where
  "absorb current [] = (current, [], False)"
| "absorb current (None # es) =
     (case absorb current es of (c, es', changed) \<Rightarrow> (c, None # es', changed))"
| "absorb current (Some other # es) =
     (if overlap (fc_frames current) (fc_frames other) \<noteq> None then
        (case absorb (current\<lparr>fc_frames := range_new (min (fc_start current) (fc_start other))
                                                     (max (fc_end current) (fc_end other))\<rparr>) es of
           (c, es', changed) \<Rightarrow> (c, None # es', True))
      else (case absorb current es of (c, es', changed) \<Rightarrow> (c, Some other # es', changed)))"

lemma length_absorb: "absorb current es = (c, es', ch) \<Longrightarrow> length es' = length es"
  by (induction current es arbitrary: c es' ch rule: absorb.induct) (auto split: prod.splits if_splits)

function merge_pass :: "fchunk option list \<Rightarrow> fchunk list \<times> bool" where
  "merge_pass [] = ([], False)"
| "merge_pass (None # es) = merge_pass es"
| "merge_pass (Some current # es) =
     (case absorb current es of
        (c, es', changed) \<Rightarrow> (case merge_pass es' of (cs, changed') \<Rightarrow> (c # cs, changed \<or> changed')))"
  by pat_completeness auto
termination
  by (relation "measure length") (auto dest: length_absorb [OF sym])

lemma absorb_fewer:
  "absorb current es = (c, es', ch) \<Longrightarrow>
   length (array_values es') + (if ch then 1 else 0) \<le> length (array_values es)"
  by (induction current es arbitrary: c es' ch rule: absorb.induct)
    (force split: prod.splits if_splits)+

lemma merge_pass_fewer:
  "merge_pass arr = (cs, ch) \<Longrightarrow> length cs + (if ch then 1 else 0) \<le> length (array_values arr)"
proof (induction arr arbitrary: cs ch rule: merge_pass.induct)
  case (3 current es)
  obtain c es' ch1 where a: "absorb current es = (c, es', ch1)" by (cases "absorb current es")
  obtain cs2 ch2 where m: "merge_pass es' = (cs2, ch2)" by (cases "merge_pass es'")
  show ?case
    using 3(2) 3(1) [OF a [symmetric] refl m] absorb_fewer [OF a] a m
    by (auto split: if_splits)
qed auto

text \<open>The loop \<open>while changed\<close>: each round that changes something leaves fewer regions.\<close>

function merge_reserved :: "fchunk option list \<Rightarrow> fchunk option list" where
  "merge_reserved arr =
     (case merge_pass arr of
        (cs, changed) \<Rightarrow>
          let temp = map Some cs @ replicate (length arr - length cs) None
          in if changed then merge_reserved temp else temp)"
  by pat_completeness auto

lemma array_values_map_Some [simp]: "array_values (map Some cs) = cs"
  by (induction cs) auto

termination merge_reserved
  by (relation "measure (\<lambda>arr. length (array_values arr))")
    (auto dest!: merge_pass_fewer [OF sym])

declare merge_reserved.simps [simp del]

fun no_overlaps :: "fchunk list \<Rightarrow> bool" where
  "no_overlaps [] = True"
| "no_overlaps (elem # rest) =
     ((\<forall>other \<in> set rest. overlap (fc_frames elem) (fc_frames other) = None) \<and> no_overlaps rest)"

definition frame_init ::
  "(fchunk, 't, 'c) rbtree_api \<Rightarrow> 't frame_allocator \<Rightarrow> physical_memory_region list \<Rightarrow>
   physical_memory_region list \<Rightarrow>
   ((chunk_range \<Rightarrow> allocated_frames, string) result \<times> 't frame_allocator) panics" where
  "frame_init api st free_areas reserved_areas =
     (if sarb_len api (free_general st) \<noteq> 0 \<or> sarb_len api (free_reserved st) \<noteq> 0 \<or>
         sarb_len api (general_regions st) \<noteq> 0 \<or> sarb_len api (reserved_regions st) \<noteq> 0
      then Some (Err ''BUG: Frame allocator was already initialized, cannot be initialized twice.'', st)
      else do {
        (free_list, free_list_idx) \<leftarrow>
          add_free_regions free_areas reserved_areas (replicate ARRAY_LEN None, 0);
        slots \<leftarrow> reserved_slots reserved_areas;
        let reserved_list = merge_reserved slots;
        assert_that (no_overlaps
          (array_values (take free_list_idx free_list) @ array_values reserved_list));
        Some (Ok into_allocated_frames,
          \<lparr>free_general = sarb_new free_list, free_reserved = sarb_new reserved_list,
           general_regions = sarb_new free_list, reserved_regions = sarb_new reserved_list\<rparr>)
      })"

text \<open>The equations of the partial functions compute.\<close>

declare find_any_cursor.simps [code] overlaps_from.simps [code] check_reserved.simps [code]

end
