(* ===== verification/Ownership.thy ===== *)
theory Ownership
  imports MemoryStructs StaticArrayRBTree
begin

text \<open>
  Who owns a page or frame: a count over a multiset of ranges, shared by the correctness proofs of
  the two allocators.
\<close>

text \<open>\<open>owners x M\<close> counts the ranges of \<open>M\<close> that hold page or frame number \<open>x\<close>. Two ranges of \<open>M\<close> overlap
  exactly when some number has two owners; the count is additive, so that conservation of pages and frames is
  an equation between counts.\<close>

definition owners :: "usize \<Rightarrow> chunk_range multiset \<Rightarrow> nat" where
  "owners x M = size {#r \<in># M. x \<in> chunks r#}"

lemma owners_simps [simp]:
  "owners x {#} = 0"
  "owners x (A + B) = owners x A + owners x B"
  "owners x (add_mset r M) = of_bool (x \<in> chunks r) + owners x M"
  by (simp_all add: owners_def)

lemma owners_eq_0: "owners x M = 0 \<longleftrightarrow> (\<forall>r \<in># M. x \<notin> chunks r)"
  by (induction M) auto

lemma owners_pos: "r \<in># M \<Longrightarrow> x \<in> chunks r \<Longrightarrow> 0 < owners x M"
  using owners_eq_0 by blast

lemma owners_mono: "A \<subseteq># B \<Longrightarrow> owners x A \<le> owners x B"
  by (metis owners_simps(2) le_add1 subset_mset.le_iff_add)

lemma owners_disjoint:
  assumes "\<forall>x. owners x M \<le> 1" "M = add_mset r (add_mset r' N)"
  shows "chunks r \<inter> chunks r' = {}"
proof (rule ccontr)
  assume "chunks r \<inter> chunks r' \<noteq> {}"
  then obtain x where "x \<in> chunks r" "x \<in> chunks r'" by blast
  with assms(2) have "2 \<le> owners x M" by simp
  with assms(1) show False by (metis Suc_1 not_less_eq_eq)
qed

lemma mset_two_nth:
  assumes "j < i" "i < length xs"
  shows "\<exists>N. mset xs = add_mset (xs ! i) (add_mset (xs ! j) N)"
proof -
  have "xs ! j \<in> set (take i xs)" using assms by (metis in_set_conv_nth length_take min.absorb4 nth_take)
  then have "xs ! j \<in># mset (remove_nth i xs)" by (simp add: remove_nth_def)
  then show ?thesis using mset_remove_nth [OF assms(2)] by (metis multi_member_split)
qed

lemma le_1_of_bool: "n \<le> 1 \<Longrightarrow> 0 < n \<longleftrightarrow> b \<Longrightarrow> n = of_bool b" for n :: nat
  by (cases b) auto

lemma owners_covered: "0 < owners x M \<longleftrightarrow> x \<in> (\<Union>r \<in> set_mset M. chunks r)"
  using owners_eq_0 [of x M] by (auto simp del: atLeastAtMost_iff)

end
