(* ===== verification/FrameOwnership.thy ===== *)
theory FrameOwnership
  imports FrameAllocator Ownership
begin

text \<open>
  Correctness of the frame allocator: searching and splitting chunks, the ownership of frames
  over all sequences of operations, and the partition that initialisation computes.

  The lemmas about the tree are proved in the locale \<open>frame_tree\<close>, the contract of the external
  red-black tree at the key that \<open>Chunk\<close> is ordered by (its first frame).
\<close>

section \<open>Frames and their owners\<close>

definition chunk_ranges :: "(fchunk, 't, 'c) rbtree_api \<Rightarrow> (fchunk, 't) static_array_rbtree \<Rightarrow> chunk_range multiset" where
  "chunk_ranges api list = image_mset fc_frames (contents api list)"

definition action_ranges :: "deferred_alloc_action \<Rightarrow> chunk_range multiset" where
  "action_ranges act = {#fc_frames (free1 act), fc_frames (free2 act)#}"

definition bounded_range :: "chunk_range \<Rightarrow> bool" where
  "bounded_range r \<longleftrightarrow> r_end r \<le> MAX_FRAME"

lemma MAX_FRAME_eq: "MAX_FRAME = 0xFFFFFFFFFF"
  by (simp add: MAX_FRAME_def containing_address_def canonicalize_physical_address_def PAGE_SIZE_eq)

lemma MIN_FRAME_eq: "MIN_FRAME = 0"
  by (simp add: MIN_FRAME_def containing_address_def addr_zero_def PAGE_SIZE_eq)

lemma bounded_less_MAX_PAGE: "m \<le> MAX_FRAME \<Longrightarrow> m < MAX_PAGE_NUMBER"
  by (rule le_less_trans [of _ MAX_FRAME]) (simp_all add: MAX_FRAME_eq MAX_PAGE_NUMBER_eq)

lemma bounded_not_max: "m \<le> MAX_FRAME \<Longrightarrow> m \<noteq> USIZE_MAX"
  using bounded_less_MAX_PAGE word_neq_max_if_less by blast

section \<open>Splitting a chunk\<close>

text \<open>\<open>carve c f n af act\<close>: the allocation \<open>af\<close> of \<open>n\<close> frames from \<open>f\<close> on and the pieces in \<open>act\<close>
  are the chunk \<open>c\<close>, cut up.\<close>

definition carve :: "fchunk \<Rightarrow> frame \<Rightarrow> usize \<Rightarrow> allocated_frames \<Rightarrow> deferred_alloc_action \<Rightarrow> bool" where
  "carve c f n af act \<longleftrightarrow>
     af = range_new f (chunk_add f (n - 1)) \<and> card (chunks af) = unat n \<and> bounded_range af \<and>
     (\<forall>x. owners x {#fc_frames c#} = owners x {#af#} + owners x (action_ranges act)) \<and>
     (\<forall>r. r \<in># action_ranges act \<longrightarrow> bounded_range r) \<and>
     (\<forall>d \<in> {free1 act, free2 act}. chunks (fc_frames d) \<noteq> {} \<longrightarrow> fc_typ d = fc_typ c)"

lemma split_chosen_chunk_ok:
  assumes n: "num_frames \<noteq> 0"
    and s: "fc_start c \<le> f"
    and e: "chunk_add f (num_frames - 1) \<le> fc_end c"
    and b: "fc_end c \<le> MAX_FRAME"
  obtains na be af where
    "split_chosen_chunk f num_frames c = Some (na, be, af)"
    "carve c f num_frames (fc_frames na) (deferred_new be af)"
proof -
  define m where "m = chunk_add f (num_frames - 1)"
  have m: "m \<le> MAX_FRAME" using e b unfolding m_def by (rule order_trans)
  then have mp: "m < MAX_PAGE_NUMBER" by (rule bounded_less_MAX_PAGE)
  have fm: "f \<le> m" using chunk_add_count(1) [OF n] mp unfolding m_def by blast
  let ?na = "\<lparr>fc_typ = fc_typ c, fc_frames = range_new f m\<rparr>"
  let ?be = "if f = MIN_FRAME then None
    else Some \<lparr>fc_typ = fc_typ c, fc_frames = range_new (fc_start c) (f - 1)\<rparr>"
  let ?af = "if m = MAX_FRAME then None
    else Some \<lparr>fc_typ = fc_typ c, fc_frames = range_new (m + 1) (fc_end c)\<rparr>"
  have ma: "m + 1 \<noteq> 0 \<and> \<not> m + 1 \<le> m"
    using bounded_not_max [OF m] by (metis add_diff_cancel_right' diff_0 not_le order_refl word_less_succ_iff)
  define act where "act = deferred_new ?be ?af"
  have split: "split_chosen_chunk f num_frames c = Some (?na, ?be, ?af)"
    using ma fm
    unfolding split_chosen_chunk_def Let_def m_def [symmetric] chunk_add_1 [OF mp] fchunk.simps
      range_new_simps
    by (auto simp: MIN_FRAME_eq chunk_sub_1 chunk_add_1 [OF mp] word_le_pred_iff)
  have cut: "x \<in> chunks (fc_frames c) \<longleftrightarrow>
      x \<in> {fc_start c..<f} \<or> x \<in> {f..m} \<or> x \<in> {m<..fc_end c}" for x
    using s e fm by (auto simp flip: m_def)
  have fb: "chunks (fc_frames (free1 act)) = {fc_start c..<f}"
    by (auto simp: act_def deferred_new_def chunk_empty_def MIN_FRAME_eq word_Icc_pred)
  have sb: "chunks (fc_frames (free2 act)) = {m<..fc_end c}"
    using b by (auto simp: act_def deferred_new_def chunk_empty_def word_Icc_succ [OF bounded_not_max [OF m]])
  have "owners x (action_ranges act) =
      of_bool (x \<in> {fc_start c..<f}) + of_bool (x \<in> {m<..fc_end c})" for x
    unfolding action_ranges_def owners_simps fb sb by simp
  with cut fm have o: "owners x {#fc_frames c#} =
      owners x {#fc_frames ?na#} + owners x (action_ranges act)" for x
    by (auto simp: of_bool_def)
  have bd: "bounded_range x" if "x \<in># action_ranges act" for x
  proof -
    have "f - 1 \<le> MAX_FRAME" if "f \<noteq> 0"
      using that m fm by (metis order_trans word_le_pred_iff order.strict_implies_order order_refl)
    then show ?thesis using that b
      by (auto simp: action_ranges_def act_def deferred_new_def chunk_empty_def range_empty_def
          bounded_range_def MIN_FRAME_eq split: if_splits)
  qed
  have ty: "fc_typ d = fc_typ c"
    if "d \<in> {free1 act, free2 act}" "chunks (fc_frames d) \<noteq> {}" for d
    using that by (auto simp: act_def deferred_new_def chunk_empty_def range_empty_def split: if_splits)
  have "card {f..m} = unat num_frames" using chunk_add_count(2) [OF n] mp unfolding m_def by blast
  moreover have "bounded_range (fc_frames ?na)" using m by (simp add: bounded_range_def)
  moreover have "fc_frames ?na = range_new f m" by simp
  ultimately have "carve c f num_frames (fc_frames ?na) act"
    unfolding carve_def m_def [symmetric] using o bd ty
    by (metis (no_types, lifting) range_new_simps)
  with split show thesis unfolding act_def by (rule that)
qed

lemma allocate_from_chosen_chunk_ok:
  assumes "num_frames \<noteq> 0" "fc_start c \<le> f" "chunk_add f (num_frames - 1) \<le> fc_end c"
    and b: "fc_end c \<le> MAX_FRAME"
  obtains af act where
    "allocate_from_chosen_chunk api f num_frames c list r =
       Some ((af, act), snd (ref_remove api list r))"
    "carve c f num_frames af act"
proof -
  obtain na be af where s: "split_chosen_chunk f num_frames c = Some (na, be, af)"
    "carve c f num_frames (fc_frames na) (deferred_new be af)"
    by (rule split_chosen_chunk_ok [OF assms])
  have "allocate_from_chosen_chunk api f num_frames c list r =
      Some ((fc_frames na, deferred_new be af), snd (ref_remove api list r))"
    by (simp add: allocate_from_chosen_chunk_def s(1) split: prod.split)
  from this s(2) show thesis by (rule that)
qed

section \<open>Searching an array or a tree\<close>

locale frame_tree = rbtree api fc_start pos
  for api :: "(fchunk, 't, 'c) rbtree_api" and pos
begin

lemma ref_remove_array:
  assumes "i < length arr" "arr ! i = Some c"
  shows "contents api (Array arr) = add_mset c (contents api (snd (ref_remove api (Array arr) (ArrayRef i))))"
  using assms by (simp add: ref_remove_def array_contents_take)

lemma ref_remove_cursor:
  assumes "cur_get api t c = Some x"
  shows "contents api (RBTree t) = add_mset x (contents api (snd (ref_remove api (RBTree t) (RBTreeRef c))))"
proof -
  have "fst (ref_remove api (RBTree t) (RBTreeRef c)) = Some x"
    using assms by (simp add: ref_remove_get ref_get_def)
  then show ?thesis by (metis contents_ref_remove prod.collapse)
qed

lemma get_mem: "cur_get api t c = Some x \<Longrightarrow> x \<in> set (rb_iter api t)"
  by (auto simp: get_pos dest: pos_bound)

text \<open>Removing the chunk under the cursor leaves the cursor on the following chunk.\<close>

lemma remove_then_next:
  assumes "cur_get api t c = Some x" "cur_get api t (cur_next api t c) = Some y"
    "cur_remove api t c = (v, t', c')"
  shows "cur_get api t' c' = Some y" "mset (rb_iter api t) = add_mset x (mset (rb_iter api t'))"
proof -
  obtain i where i: "pos t c = Some i" "x = rb_iter api t ! i" "i < length (rb_iter api t)"
    using assms(1) pos_bound by (auto simp: get_pos)
  with assms(2) have n: "Suc i < length (rb_iter api t)" "y = rb_iter api t ! Suc i"
    by (auto simp: get_pos pos_next split: if_splits)
  from remove_some [OF i(1)] assms(3) n(1)
  have r: "rb_iter api t' = remove_nth i (rb_iter api t)" "pos t' c' = Some i" by auto
  then show "cur_get api t' c' = Some y"
    using n i(3) by (simp add: get_pos remove_nth_def nth_append)
  show "mset (rb_iter api t) = add_mset x (mset (rb_iter api t'))"
    using mset_remove_nth [OF i(3)] by (simp add: r i(2))
qed

end

text \<open>A successful search takes \<open>removed\<close> (one chunk, or two adjacent ones) out of the list and
  cuts it up.\<close>

definition carved_from ::
  "fchunk multiset \<Rightarrow> frame \<Rightarrow> usize \<Rightarrow> allocated_frames \<Rightarrow> deferred_alloc_action \<Rightarrow> bool" where
  "carved_from removed f n af act \<longleftrightarrow>
     (\<exists>c. carve c f n af act \<and> fc_typ c \<in> fc_typ ` set_mset removed \<and>
        (\<forall>x. owners x (image_mset fc_frames removed) = owners x {#fc_frames c#}))"

lemma carved_from_single: "carve c f n af act \<Longrightarrow> carved_from {#c#} f n af act"
  by (auto simp: carved_from_def)

lemma carved_from_pair:
  assumes "carve (c2\<lparr>fc_frames := range_new (fc_start c1) (fc_end c2)\<rparr>) f n af act"
    and "fc_start c1 \<le> fc_end c1" "chunk_add (fc_end c1) 1 = fc_start c2"
    and "fc_end c1 < fc_end c2" "fc_end c2 \<le> MAX_FRAME"
  shows "carved_from {#c1, c2#} f n af act"
proof -
  have "fc_end c1 < MAX_PAGE_NUMBER" using assms(4,5) bounded_less_MAX_PAGE by (meson less_trans order.strict_implies_order)
  then have "fc_start c2 = fc_end c1 + 1" "fc_end c1 \<noteq> - 1"
    using assms(3) chunk_add_1 word_neq_max_if_less by auto
  then have "chunks (fc_frames c2) = {fc_end c1<..fc_end c2}" by (simp add: word_Icc_succ)
  then have "owners x (image_mset fc_frames {#c1, c2#}) =
      owners x {#range_new (fc_start c1) (fc_end c2)#}" for x
    using assms(2,4) by auto
  then show ?thesis using assms(1) by (auto simp: carved_from_def)
qed

context frame_tree
begin

lemma find_specific_chunk_Ok:
  assumes ok: "find_specific_chunk api list f n = Some (Ok (af, act), list')"
    and n: "n \<noteq> 0" and b: "\<forall>c \<in> set (sarb_iter api list). fc_end c \<le> MAX_FRAME"
  obtains removed where "contents api list = removed + contents api list'"
    "carved_from removed f n af act"
proof (cases list)
  case (Array arr)
  with ok obtain i c where i: "find_slot (\<lambda>chunk. fc_start chunk \<le> f \<and> chunk_add f (n - 1) \<le> fc_end chunk) arr = Some (i, c)"
    and a: "allocate_from_chosen_chunk api f n c list (ArrayRef i) = Some ((af, act), list')"
    by (auto simp: find_specific_chunk_def Let_def split: option.splits)
  note s = find_slot_Some [OF i]
  with b Array have "fc_end c \<le> MAX_FRAME"
    by (metis nth_mem sarb_iter_simps(1) set_array_values)
  then have "carve c f n af act \<and> list' = snd (ref_remove api list (ArrayRef i))"
    using s n a by (metis Pair_inject allocate_from_chosen_chunk_ok option.inject)
  then show thesis
    using that [of "{#c#}"] ref_remove_array [of i arr c] s Array carved_from_single by simp
next
  case (RBTree tree)
  define cur where "cur = rb_upper_bound api tree (Included f)"
  with ok RBTree obtain c where c: "cur_get api tree cur = Some c" "f \<in> chunks (fc_frames c)"
    by (auto simp: find_specific_chunk_def Let_def split: option.splits if_splits)
  have bc: "fc_end c \<le> MAX_FRAME" using b RBTree get_mem [OF c(1)] by simp
  show thesis
  proof (cases "chunk_add f (n - 1) \<le> fc_end c")
    case True
    with ok RBTree c have a: "allocate_from_chosen_chunk api f n c list (RBTreeRef cur) = Some ((af, act), list')"
      by (auto simp: find_specific_chunk_def Let_def simp flip: cur_def split: option.splits)
    have "carve c f n af act \<and> list' = snd (ref_remove api list (RBTreeRef cur))"
      using n c(2) True bc a
      by (metis Pair_inject allocate_from_chosen_chunk_ok atLeastAtMost_iff option.inject)
    then show thesis
      using that [of "{#c#}"] ref_remove_cursor [OF c(1)] RBTree carved_from_single by simp
  next
    case False
    obtain v t' c' where r: "cur_remove api tree cur = (v, t', c')" by (cases "cur_remove api tree cur")
    let ?m = "\<lambda>d. d\<lparr>fc_frames := range_new (fc_start c) (fc_end d)\<rparr>"
    from False ok RBTree c r obtain d where d: "cur_get api tree (cur_next api tree cur) = Some d"
      "chunk_add (fc_end c) 1 = fc_start d" "chunk_add f (n - 1) \<le> fc_end d"
      and a: "allocate_from_chosen_chunk api f n (?m d) (RBTree t') (RBTreeRef c') = Some ((af, act), list')"
      by (auto simp: find_specific_chunk_def Let_def simp flip: cur_def split: option.splits if_splits)
    note nx = remove_then_next [OF c(1) d(1) r]
    have bd: "fc_end d \<le> MAX_FRAME" using b RBTree get_mem [OF d(1)] by simp
    have "carve (?m d) f n af act \<and> list' = snd (ref_remove api (RBTree t') (RBTreeRef c'))"
      using n c(2) d(3) bd a
        allocate_from_chosen_chunk_ok [of n "?m d" f api "RBTree t'" "RBTreeRef c'"]
      by auto
    moreover have "fc_end c < fc_end d" using False d(3) by simp
    moreover have "fc_start c \<le> fc_end c" using c(2) by auto
    ultimately show thesis
      using that [of "{#c, d#}"] ref_remove_cursor [OF nx(1)] nx(2) RBTree d(2) bd
        carved_from_pair [of c d f n af act] by simp
  qed
qed

lemma find_specific_chunk_Err:
  assumes "find_specific_chunk api list f n = Some (Err e, list')"
  shows "list' = list"
    and "e = AddressNotFound f n \<or>
      (\<exists>c \<in> set (sarb_iter api list). f \<in> chunks (fc_frames c) \<and> fc_end c < chunk_add f (n - 1) \<and>
        e = ContiguousChunkNotFound (chunk_add (fc_end c) 1) (chunk_add f (n - 1) - fc_end c))"
  using assms
  by (auto simp: find_specific_chunk_def Let_def
      split: static_array_rbtree.splits option.splits if_splits prod.splits dest: get_mem)

end

lemma fits_chunk:
  assumes "n \<noteq> 0" "n \<le> size_in_chunks r" "r_end r \<le> MAX_FRAME"
  shows "chunk_add (r_start r) (n - 1) \<le> r_end r"
proof -
  have "unat n \<le> Suc (unat (r_end r)) - unat (r_start r)"
    using assms(2,3) bounded_not_max
    by (simp add: unat_size_in_chunks card_word_Icc word_le_nat_alt)
  moreover have "unat (chunk_add (r_start r) (n - 1)) \<le> unat (r_start r) + (unat n - 1)"
    using assms(1) unat_chunk_add_le [of "r_start r" "n - 1"] by (simp add: unat_pred)
  moreover have "0 < unat n" using assms(1) by (simp add: unat_gt_0)
  ultimately show ?thesis by (simp add: word_le_nat_alt)
qed

definition fits :: "usize \<Rightarrow> fchunk \<Rightarrow> bool" where
  "fits n c \<longleftrightarrow> n \<le> size_in_chunks (fc_frames c) \<and> fc_typ c = Free"

context frame_tree
begin

text \<open>The search from a cursor downwards returns: the position of the cursor decreases.\<close>

lemma find_any_cursor_returns:
  assumes "pos t c = Some i"
  shows "(\<exists>cur ch. find_any_cursor api t n c = Some (Some (cur, ch)) \<and>
            cur_get api t cur = Some ch \<and> fits n ch) \<or>
         find_any_cursor api t n c = Some None \<and> (\<forall>j\<le>i. \<not> fits n (rb_iter api t ! j))"
  using assms
proof (induction i arbitrary: c)
  case 0
  then have "pos t (cur_prev api t c) = None" by (simp add: pos_prev)
  with 0 show ?case
    by (auto simp: get_pos fits_def find_any_cursor.simps [of _ _ _ c]
        find_any_cursor.simps [of _ _ _ "cur_prev api t c"])
next
  case (Suc i)
  let ?d = "rb_iter api t ! Suc i"
  have g: "cur_get api t c = Some ?d" using Suc.prems by (simp add: get_pos)
  show ?case
  proof (cases "fits n ?d")
    case True
    with g show ?thesis by (auto simp: find_any_cursor.simps [of _ _ _ c] fits_def)
  next
    case False
    with g have "find_any_cursor api t n c = find_any_cursor api t n (cur_prev api t c)"
      by (auto simp: find_any_cursor.simps [of _ _ _ c] fits_def)
    moreover have "pos t (cur_prev api t c) = Some i" using Suc.prems by (simp add: pos_prev)
    ultimately show ?thesis using Suc.IH [of "cur_prev api t c"] False by (auto simp: le_Suc_eq)
  qed
qed

lemma find_any_from_top:
  "(\<exists>cur ch. find_any_cursor api t n (rb_upper_bound api t Unbounded) = Some (Some (cur, ch)) \<and>
      cur_get api t cur = Some ch \<and> fits n ch) \<or>
   find_any_cursor api t n (rb_upper_bound api t Unbounded) = Some None \<and>
     (\<forall>c \<in> set (rb_iter api t). \<not> fits n c)"
proof (cases "rb_iter api t")
  case Nil
  then have "pos t (rb_upper_bound api t Unbounded) = None"
    by (simp add: pos_upper_bound last_below_def)
  then show ?thesis using Nil by (simp add: find_any_cursor.simps get_pos)
next
  case (Cons x xs)
  then have "pos t (rb_upper_bound api t Unbounded) = Some (length xs)"
    by (simp add: pos_upper_bound last_below_def takeWhile_eq_all_conv [THEN iffD2])
  from find_any_cursor_returns [OF this, of n] show ?thesis
    by (metis Cons in_set_conv_nth length_Cons less_Suc_eq_le)
qed

lemma find_any_chunk_cases:
  assumes n: "n \<noteq> 0" and b: "\<forall>c \<in> set (sarb_iter api list). fc_end c \<le> MAX_FRAME"
  obtains (ok) c af act list' where
      "find_any_chunk api list n = Some (Ok (af, act), list')"
      "contents api list = add_mset c (contents api list')"
      "fits n c" "carve c (fc_start c) n af act"
  | (err) "find_any_chunk api list n = Some (Err (OutOfAddressSpace n), list)"
      "\<forall>c \<in> set (sarb_iter api list). \<not> fits n c"
proof -
  have carve: "\<exists>af act. allocate_from_chosen_chunk api (fc_start c) n c list r =
      Some ((af, act), snd (ref_remove api list r)) \<and> carve c (fc_start c) n af act"
    if "c \<in> set (sarb_iter api list)" "fits n c" for c r
    using allocate_from_chosen_chunk_ok [OF n order_refl fits_chunk, of c] n b that
    by (metis fits_def)
  show thesis
  proof (cases list)
    case (Array arr)
    let ?P = "\<lambda>c. \<not> (size_in_chunks (fc_frames c) < n \<or> fc_typ c \<noteq> Free)"
    have P: "?P c \<longleftrightarrow> fits n c" for c by (auto simp: fits_def)
    show thesis
    proof (cases "find_slot ?P arr")
      case None
      then show thesis using err Array find_slot_None [of ?P arr] unfolding P
        by (simp add: find_any_chunk_def fits_def not_less)
    next
      case (Some ic)
      then obtain i c where ic: "find_slot ?P arr = Some (i, c)" by (cases ic) auto
      note s = find_slot_Some [OF ic]
      then have "c \<in> set (sarb_iter api list)" "fits n c"
        using Array P by (auto simp: set_array_values dest: nth_mem)
      with carve [of c "ArrayRef i"] obtain af act where
        "allocate_from_chosen_chunk api (fc_start c) n c list (ArrayRef i) =
          Some ((af, act), snd (ref_remove api list (ArrayRef i)))" "carve c (fc_start c) n af act"
        by blast
      with ok ic Array ref_remove_array [of i arr c] s \<open>fits n c\<close> show thesis
        by (simp add: find_any_chunk_def)
    qed
  next
    case (RBTree t)
    from find_any_from_top [of t n] show thesis
    proof (elim disjE exE conjE)
      fix cur ch assume f: "find_any_cursor api t n (rb_upper_bound api t Unbounded) = Some (Some (cur, ch))"
        and g: "cur_get api t cur = Some ch" "fits n ch"
      from carve [of ch "RBTreeRef cur"] g get_mem RBTree obtain af act where
        "allocate_from_chosen_chunk api (fc_start ch) n ch list (RBTreeRef cur) =
          Some ((af, act), snd (ref_remove api list (RBTreeRef cur)))" "carve ch (fc_start ch) n af act"
        by auto
      with ok f g RBTree ref_remove_cursor [OF g(1)] show thesis
        by (simp add: find_any_chunk_def)
    qed (use err RBTree in \<open>simp add: find_any_chunk_def\<close>)
  qed
qed

end

section \<open>Overlap queries\<close>

text \<open>A list as the allocator keeps it: its chunks are not empty and no two overlap.\<close>

definition wf_list :: "(fchunk, 't, 'c) rbtree_api \<Rightarrow> (fchunk, 't) static_array_rbtree \<Rightarrow> bool" where
  "wf_list api list \<longleftrightarrow>
     (\<forall>x. owners x (chunk_ranges api list) \<le> 1) \<and>
     (\<forall>c \<in> set (sarb_iter api list). chunks (fc_frames c) \<noteq> {} \<and> fc_end c \<le> MAX_FRAME)"

text \<open>The queries start from the last chunk that begins at or below the queried range. When a tree has no
  such chunk, they look at no chunk at all, and miss the chunks that begin inside the range.\<close>

definition missed_overlap ::
  "(fchunk, 't, 'c) rbtree_api \<Rightarrow> (fchunk, 't) static_array_rbtree \<Rightarrow> chunk_range \<Rightarrow> bool" where
  "missed_overlap api list frames =
     (case list of
        Array arr \<Rightarrow> False
      | RBTree t \<Rightarrow> (\<forall>c \<in> set (rb_iter api t). r_start frames < fc_start c) \<and>
                   (\<exists>c \<in> set (rb_iter api t). overlap (fc_frames c) frames \<noteq> None))"

lemma missed_overlap_subset:
  assumes "missed_overlap api list r" "r_start r' \<le> r_start r" "r_end r \<le> r_end r'"
  shows "missed_overlap api list r'"
proof (cases list)
  case (RBTree t)
  have sub: "chunks r \<subseteq> chunks r'" using assms(2,3) by simp
  obtain c where c: "c \<in> set (rb_iter api t)" "overlap (fc_frames c) r \<noteq> None"
    and above: "\<forall>c \<in> set (rb_iter api t). r_start r < fc_start c"
    using assms(1) by (auto simp: missed_overlap_def RBTree)
  from c(2) sub have "overlap (fc_frames c) r' \<noteq> None"
    unfolding overlap_eq_None by blast
  moreover have "\<forall>c \<in> set (rb_iter api t). r_start r' < fc_start c"
    using above assms(2) by (meson le_less_trans)
  ultimately show ?thesis using c(1) by (auto simp: missed_overlap_def RBTree)
qed (use assms(1) in \<open>simp add: missed_overlap_def\<close>)

context frame_tree
begin

lemma overlaps_from_eq:
  "overlaps_from api t frames c =
     Some (case pos t c of None \<Rightarrow> False
       | Some i \<Rightarrow> \<exists>j<length (rb_iter api t). i \<le> j \<and>
                    chunks (fc_frames (rb_iter api t ! j)) \<inter> chunks frames \<noteq> {})"
proof (induction "case pos t c of None \<Rightarrow> 0 | Some i \<Rightarrow> Suc (length (rb_iter api t) - i)" arbitrary: c
    rule: less_induct)
  case less
  show ?case
  proof (cases "pos t c")
    case None
    then show ?thesis by (simp add: overlaps_from.simps get_pos)
  next
    case (Some i)
    let ?xs = "rb_iter api t" and ?Q = "\<lambda>j. chunks (fc_frames (rb_iter api t ! j)) \<inter> chunks frames \<noteq> {}"
    have i: "i < length ?xs" using pos_bound [OF Some] .
    have g: "cur_get api t c = Some (?xs ! i)" using Some by (simp add: get_pos)
    consider (past) "r_end frames < fc_start (?xs ! i)" | (hit) "\<not> r_end frames < fc_start (?xs ! i)" "?Q i"
      | (skip) "\<not> r_end frames < fc_start (?xs ! i)" "\<not> ?Q i" by blast
    then show ?thesis
    proof cases
      case past
      have "\<not> ?Q j" if "i \<le> j" "j < length ?xs" for j
      proof -
        have "fc_start (?xs ! i) \<le> fc_start (?xs ! j)"
          using sorted_nth_mono [OF sorted_iter [of t] that(1)] that i by simp
        with past show ?thesis by auto
      qed
      with past g Some show ?thesis by (auto simp: overlaps_from.simps [of _ _ _ c])
    next
      case hit
      with g Some i show ?thesis
        by (auto simp: overlaps_from.simps [of _ _ _ c] overlap_eq_None)
    next
      case skip
      then have "overlaps_from api t frames c = overlaps_from api t frames (cur_next api t c)"
        using g by (simp add: overlaps_from.simps [of _ _ _ c] overlap_eq_None)
      moreover have "overlaps_from api t frames (cur_next api t c) =
          Some (\<exists>j<length ?xs. Suc i \<le> j \<and> ?Q j)"
        using less(1) [of "cur_next api t c"] Some i
        by (cases "Suc i < length ?xs") (auto simp: pos_next simp del: Int_atLeastAtMost)
      moreover have "(\<exists>j<length ?xs. Suc i \<le> j \<and> ?Q j) \<longleftrightarrow> (\<exists>j<length ?xs. i \<le> j \<and> ?Q j)"
        using skip(2) by (metis Suc_leD Suc_leI le_neq_implies_less)
      ultimately show ?thesis by (simp add: Some)
    qed
  qed
qed

lemma contains_any_returns: "\<exists>b. contains_any api list frames = Some b"
  by (cases list) (simp_all add: contains_any_def overlaps_from_eq)

lemma contains_any_True:
  assumes "contains_any api list frames = Some True"
  shows "\<exists>c \<in> set (sarb_iter api list). chunks (fc_frames c) \<inter> chunks frames \<noteq> {}"
  using assms
  by (cases list)
    (auto simp: contains_any_def overlaps_from_eq overlap_eq_None simp del: Int_atLeastAtMost
      split: option.splits)

lemma contains_any_False:
  assumes q: "contains_any api list frames = Some False"
    and e: "\<not> missed_overlap api list frames" and wf: "wf_list api list"
    and c: "c \<in> set (sarb_iter api list)"
  shows "chunks (fc_frames c) \<inter> chunks frames = {}"
proof (cases list)
  case (Array arr)
  then show ?thesis using q c by (auto simp: contains_any_def overlap_eq_None simp del: Int_atLeastAtMost)
next
  case (RBTree t)
  let ?xs = "rb_iter api t"
  consider (none) "\<forall>d \<in> set ?xs. overlap (fc_frames d) frames = None"
    | (some) d where "d \<in> set ?xs" "fc_start d \<le> r_start frames"
    using e by (auto simp: RBTree missed_overlap_def not_less)
  then show ?thesis
  proof cases
    case none
    then show ?thesis using c by (simp add: RBTree overlap_eq_None del: Int_atLeastAtMost)
  next
    case some
    then obtain i where i: "last_below fc_start (Included (r_start frames)) ?xs = Some i"
      using last_below_None [OF sorted_iter, of "Included (r_start frames)" t d] by (metis below.simps(2) option.exhaust)
    note lb = last_below_Some [OF sorted_iter i]
    have above: "\<forall>j<length ?xs. i \<le> j \<longrightarrow> chunks (fc_frames (?xs ! j)) \<inter> chunks frames = {}"
      using q by (simp add: RBTree contains_any_def overlaps_from_eq pos_upper_bound i del: Int_atLeastAtMost)
    obtain j where j: "j < length ?xs" "c = ?xs ! j" using c RBTree by (auto simp: in_set_conv_nth)
    show ?thesis
    proof (cases "i \<le> j")
      case True then show ?thesis using above j by blast
    next
      case False
      then have ji: "j < i" by simp
      from mset_two_nth [OF ji lb(1)] obtain N where "mset ?xs = add_mset (?xs ! i) (add_mset c N)"
        by (auto simp: j)
      then have disj: "chunks (fc_frames (?xs ! i)) \<inter> chunks (fc_frames c) = {}"
        using wf unfolding wf_list_def chunk_ranges_def RBTree sarb_iter_simps
        by (intro owners_disjoint [where N = "image_mset fc_frames N"]) auto
      have "fc_start c \<le> fc_start (?xs ! i)"
        using sorted_nth_mono [OF sorted_iter [of t], of j i] ji lb(1) by (simp add: j)
      moreover have "fc_start (?xs ! i) \<in> chunks (fc_frames (?xs ! i))"
        using wf lb(1) by (auto simp: wf_list_def RBTree)
      moreover have "fc_start (?xs ! i) \<le> r_start frames" using lb(2) [of i] by simp
      ultimately show ?thesis using disj by (auto simp: disjoint_iff)
    qed
  qed
qed

end

section \<open>The invariant of the allocator\<close>

text \<open>\<open>H\<close> collects the ranges that callers hold: allocated frames and pieces in pending actions.\<close>

definition good_chunk :: "fchunk \<Rightarrow> bool" where
  "good_chunk c \<longleftrightarrow> chunks (fc_frames c) \<noteq> {} \<and> fc_end c \<le> MAX_FRAME"

definition free_ranges :: "(fchunk, 't, 'c) rbtree_api \<Rightarrow> 't frame_allocator \<Rightarrow> chunk_range multiset" where
  "free_ranges api st = chunk_ranges api (free_general st) + chunk_ranges api (free_reserved st)"

definition region_ranges :: "(fchunk, 't, 'c) rbtree_api \<Rightarrow> 't frame_allocator \<Rightarrow> chunk_range multiset" where
  "region_ranges api st = chunk_ranges api (general_regions st) + chunk_ranges api (reserved_regions st)"

definition good_list :: "(fchunk, 't, 'c) rbtree_api \<Rightarrow> (fchunk, 't) static_array_rbtree \<Rightarrow> bool" where
  "good_list api list \<longleftrightarrow> (\<forall>c \<in># contents api list. good_chunk c)"

definition alloc_inv ::
  "(fchunk, 't, 'c) rbtree_api \<Rightarrow> 't frame_allocator \<Rightarrow> chunk_range multiset \<Rightarrow> bool" where
  "alloc_inv api st H \<longleftrightarrow>
     (\<forall>x. owners x (free_ranges api st) + owners x H \<le> 1) \<and>
     (\<forall>x. owners x (free_ranges api st) + owners x H \<le> owners x (region_ranges api st)) \<and>
     (\<forall>x. owners x (region_ranges api st) \<le> 1) \<and>
     good_list api (free_general st) \<and> good_list api (free_reserved st) \<and>
     good_list api (general_regions st) \<and> good_list api (reserved_regions st)"

lemma wf_regions:
  assumes "alloc_inv api st H"
  shows "wf_list api (general_regions st)" "wf_list api (reserved_regions st)"
proof -
  have "owners x (chunk_ranges api (general_regions st)) \<le> 1 \<and>
      owners x (chunk_ranges api (reserved_regions st)) \<le> 1" for x
    using assms by (auto simp: alloc_inv_def region_ranges_def dest: spec [of _ x])
  then show "wf_list api (general_regions st)" "wf_list api (reserved_regions st)"
    using assms by (auto simp: alloc_inv_def wf_list_def good_list_def good_chunk_def)
qed

lemma good_list_bounded:
  "good_list api list \<Longrightarrow> \<forall>c \<in> set (sarb_iter api list). fc_end c \<le> MAX_FRAME"
  by (simp add: good_list_def good_chunk_def)

lemma owners_carved_from:
  "carved_from removed f n af act \<Longrightarrow>
   owners x (image_mset fc_frames removed) = owners x {#af#} + owners x (action_ranges act)"
  unfolding carved_from_def carve_def by metis

text \<open>Taking chunks from a free list, adding a chunk to one, adding a region.\<close>

lemma alloc_inv_take_general:
  assumes "alloc_inv api st H" "contents api (free_general st) = removed + contents api l"
    "carved_from removed f n af act"
  shows "alloc_inv api (st\<lparr>free_general := l\<rparr>) (add_mset af (action_ranges act + H))"
  using assms owners_carved_from [OF assms(3)]
  by (auto simp: alloc_inv_def free_ranges_def region_ranges_def chunk_ranges_def good_list_def ac_simps
      simp del: sarb_iter_simps atLeastAtMost_iff)

lemma alloc_inv_take_reserved:
  assumes "alloc_inv api st H" "contents api (free_reserved st) = removed + contents api l"
    "carved_from removed f n af act"
  shows "alloc_inv api (st\<lparr>free_reserved := l\<rparr>) (add_mset af (action_ranges act + H))"
  using assms owners_carved_from [OF assms(3)]
  by (auto simp: alloc_inv_def free_ranges_def region_ranges_def chunk_ranges_def good_list_def ac_simps
      simp del: sarb_iter_simps atLeastAtMost_iff)

lemma alloc_inv_put:
  assumes "alloc_inv api st (add_mset (fc_frames c) H)" "good_chunk c"
  shows "contents api l = add_mset c (contents api (free_general st)) \<Longrightarrow> alloc_inv api (st\<lparr>free_general := l\<rparr>) H"
    and "contents api l = add_mset c (contents api (free_reserved st)) \<Longrightarrow> alloc_inv api (st\<lparr>free_reserved := l\<rparr>) H"
  using assms
  by (auto simp: alloc_inv_def free_ranges_def region_ranges_def chunk_ranges_def good_list_def ac_simps
      simp del: sarb_iter_simps atLeastAtMost_iff)

lemma alloc_inv_mono:
  assumes "alloc_inv api st H" "\<And>x. owners x H' \<le> owners x H"
  shows "alloc_inv api st H'"
proof -
  have "owners x (free_ranges api st) + owners x H' \<le> owners x (free_ranges api st) + owners x H" for x
    using assms(2) by simp
  then show ?thesis using assms(1) unfolding alloc_inv_def by (meson order_trans)
qed

lemma alloc_inv_new_region:
  assumes "alloc_inv api st H" "good_chunk c"
    and r: "contents api rr = add_mset c (contents api (reserved_regions st))"
    and d: "\<And>x. x \<in> chunks (fc_frames c) \<Longrightarrow> owners x (region_ranges api st) = 0"
  shows "alloc_inv api (st\<lparr>reserved_regions := rr\<rparr>) (add_mset (fc_frames c) H)"
proof -
  have o: "owners x (region_ranges api (st\<lparr>reserved_regions := rr\<rparr>)) =
      of_bool (x \<in> chunks (fc_frames c)) + owners x (region_ranges api st)" for x
    by (simp add: region_ranges_def chunk_ranges_def r del: sarb_iter_simps)
  have "owners x (free_ranges api st) + owners x H = 0" if "x \<in> chunks (fc_frames c)" for x
    using assms(1) d [OF that] by (auto simp: alloc_inv_def dest: spec [of _ x])
  with o d assms(1,2) r show ?thesis
    unfolding alloc_inv_def owners_simps o
    by (auto simp: free_ranges_def good_list_def of_bool_def add.assoc simp del: sarb_iter_simps atLeastAtMost_iff)
qed

text \<open>The requests that the allocator handles: without an address, or with one such that the last requested
  frame is a physical frame and the region lists do not miss an overlap with the requested frames.\<close>

definition request_safe ::
  "(fchunk, 't, 'c) rbtree_api \<Rightarrow> 't frame_allocator \<Rightarrow> usize option \<Rightarrow> usize \<Rightarrow> bool" where
  "request_safe api st requested_paddr n =
     (case requested_paddr of
        None \<Rightarrow> True
      | Some paddr \<Rightarrow>
          let f = containing_address paddr; frames = range_new f (chunk_add f (n - 1)) in
          bounded_range frames \<and>
          \<not> missed_overlap api (general_regions st) frames \<and> \<not> missed_overlap api (reserved_regions st) frames)"

definition outcome ::
  "(allocated_frames \<times> deferred_alloc_action, string) result \<Rightarrow> chunk_range multiset" where
  "outcome r = (case r of Inl _ \<Rightarrow> {#} | Inr (af, act) \<Rightarrow> add_mset af (action_ranges act))"

definition outcome_ok ::
  "frame option \<Rightarrow> usize \<Rightarrow> (allocated_frames \<times> deferred_alloc_action, string) result \<Rightarrow> bool" where
  "outcome_ok f n r =
     (case r of
        Inl _ \<Rightarrow> True
      | Inr (af, act) \<Rightarrow>
          card (chunks af) = unat n \<and> (\<forall>x. f = Some x \<longrightarrow> r_start af = x) \<and> bounded_range af \<and>
          (\<forall>r. r \<in># action_ranges act \<longrightarrow> bounded_range r))"

lemma outcome_ok_Err [simp]: "outcome_ok f n (Inl e)"
  by (simp add: outcome_ok_def)

lemma outcome_ok_carve: "carve c f n af act \<Longrightarrow> outcome_ok (Some f) n (Ok (af, act))"
  by (auto simp: outcome_ok_def carve_def)

lemma outcome_ok_any: "outcome_ok (Some f) n r \<Longrightarrow> outcome_ok None n r"
  by (auto simp: outcome_ok_def split: sum.splits)

lemma outcome_simps [simp]: "outcome (Inl e) = {#}" "outcome (Inr (af, act)) = add_mset af (action_ranges act)"
  by (simp_all add: outcome_def)

context frame_tree
begin

lemma add_reserved_region_eq:
  "add_reserved_region api list frames = Some (r, list') \<Longrightarrow>
   (\<exists>e. r = Err e \<and> list' = list) \<or>
   r = Ok frames \<and> contains_any api list frames = Some False \<and>
     contents api list' = add_mset \<lparr>fc_typ = Reserved, fc_frames = frames\<rparr> (contents api list)"
  by (cases list)
    (auto simp: add_reserved_region_def contains_any_def overlaps_from_eq
      split: if_splits prod.splits sum.splits dest: insert_Err contents_insert simp del: sarb_iter_simps)

lemma fresh_region:
  assumes inv: "alloc_inv api st H"
    and g: "contains_any api (general_regions st) frames = Some False"
      "contains_any api (reserved_regions st) frames = Some False"
    and e: "\<not> missed_overlap api (general_regions st) frames" "\<not> missed_overlap api (reserved_regions st) frames"
    and x: "x \<in> chunks frames"
  shows "owners x (region_ranges api st) = 0"
proof -
  have "x \<notin> chunks (fc_frames c)"
    if "c \<in> set (sarb_iter api (general_regions st)) \<union> set (sarb_iter api (reserved_regions st))" for c
    using that contains_any_False [OF g(1) e(1) wf_regions(1) [OF inv], of c]
      contains_any_False [OF g(2) e(2) wf_regions(2) [OF inv], of c] x by blast
  then show ?thesis
    by (auto simp: region_ranges_def chunk_ranges_def owners_eq_0 simp del: atLeastAtMost_iff sarb_iter_simps)
qed

lemma find_specific_inv:
  assumes inv: "alloc_inv api st H" and n: "n \<noteq> 0"
  shows "find_specific_chunk api (free_reserved st) f n = Some (r, l) \<Longrightarrow>
      alloc_inv api (st\<lparr>free_reserved := l\<rparr>) (outcome (map_sum allocation_error_str id r) + H)"
    and "find_specific_chunk api (free_general st) f n = Some (r, l) \<Longrightarrow>
      alloc_inv api (st\<lparr>free_general := l\<rparr>) (outcome (map_sum allocation_error_str id r) + H)"
proof -
  have g: "good_list api (free_reserved st)" "good_list api (free_general st)"
    using inv by (simp_all add: alloc_inv_def)
  show "alloc_inv api (st\<lparr>free_reserved := l\<rparr>) (outcome (map_sum allocation_error_str id r) + H)"
    if "find_specific_chunk api (free_reserved st) f n = Some (r, l)"
    using that n inv find_specific_chunk_Err(1) good_list_bounded [OF g(1)]
    by (cases r) (auto elim!: find_specific_chunk_Ok simp: alloc_inv_take_reserved dest!: find_specific_chunk_Err(1))
  show "alloc_inv api (st\<lparr>free_general := l\<rparr>) (outcome (map_sum allocation_error_str id r) + H)"
    if "find_specific_chunk api (free_general st) f n = Some (r, l)"
    using that n inv find_specific_chunk_Err(1) good_list_bounded [OF g(2)]
    by (cases r) (auto elim!: find_specific_chunk_Ok simp: alloc_inv_take_general dest!: find_specific_chunk_Err(1))
qed

lemma find_specific_outcome:
  assumes "find_specific_chunk api list f n = Some (r, l)" "n \<noteq> 0" "good_list api list"
  shows "outcome_ok (Some f) n (map_sum allocation_error_str id r)"
proof (cases r)
  case (Inr p)
  then obtain af act where "r = Ok (af, act)" by (cases p) auto
  with assms show ?thesis
    by (auto elim!: find_specific_chunk_Ok simp: carved_from_def outcome_ok_carve dest: good_list_bounded)
qed simp

lemma allocate_new_reserved_inv:
  assumes inv: "alloc_inv api st H" and n: "n \<noteq> 0"
    and run: "allocate_new_reserved api st f n f' n' = Some (r, st')"
    and rng: "frames = range_new f' (chunk_add f' (n' - 1))" "chunks frames \<noteq> {}" "bounded_range frames"
    and e: "\<not> missed_overlap api (general_regions st) frames" "\<not> missed_overlap api (reserved_regions st) frames"
  shows "alloc_inv api st' (outcome r + H) \<and> outcome_ok (Some f) n r"
proof -
  let ?c = "\<lparr>fc_typ = Reserved, fc_frames = frames\<rparr>"
  have gc: "good_chunk ?c" using rng by (simp add: good_chunk_def bounded_range_def)
  obtain b where b: "contains_any api (general_regions st) frames = Some b"
    using contains_any_returns by blast
  show ?thesis
  proof (cases b)
    case True
    with run b inv show ?thesis by (auto simp: allocate_new_reserved_def rng(1) [symmetric])
  next
    case False
    with run b obtain r1 rr where r1: "add_reserved_region api (reserved_regions st) frames = Some (r1, rr)"
      by (auto simp: allocate_new_reserved_def rng(1) [symmetric] bind_eq_Some_conv)
    note run1 = run [unfolded allocate_new_reserved_def Let_def, folded rng(1)]
    from add_reserved_region_eq [OF r1] show ?thesis
    proof (elim disjE exE conjE)
      fix e assume "r1 = Err e" "rr = reserved_regions st"
      with run1 b False r1 inv show ?thesis by auto
    next
      assume ok: "r1 = Ok frames" "contains_any api (reserved_regions st) frames = Some False"
        "contents api rr = add_mset ?c (contents api (reserved_regions st))"
      define st1 where "st1 = st\<lparr>reserved_regions := rr\<rparr>"
      have inv1: "alloc_inv api st1 (add_mset frames H)"
        using alloc_inv_new_region [OF inv gc ok(3)] fresh_region [OF inv _ ok(2) e] b False
        by (simp add: st1_def)
      from run1 b False r1 ok(1) obtain r2 fr where
        r2: "add_reserved_region api (free_reserved st1) frames = Some (r2, fr)"
        by (auto simp: st1_def bind_eq_Some_conv)
      from add_reserved_region_eq [OF r2] show ?thesis
      proof (elim disjE exE conjE)
        fix e assume "r2 = Err e" "fr = free_reserved st1"
        with run1 b False r1 ok(1) r2 have "r = Err e" "st' = st1"
          by (auto simp: st1_def)
        with inv1 show ?thesis by (auto intro: alloc_inv_mono)
      next
        assume ok2: "r2 = Ok frames" "contents api fr = add_mset ?c (contents api (free_reserved st1))"
        define st2 where "st2 = st1\<lparr>free_reserved := fr\<rparr>"
        have inv2: "alloc_inv api st2 H"
          using alloc_inv_put(2) [of api st1 ?c H fr] inv1 gc ok2(2) by (simp add: st2_def)
        from run1 b False r1 ok(1) r2 ok2(1) obtain r3 fr' where
          r3: "find_specific_chunk api (free_reserved st2) f n = Some (r3, fr')"
          and r: "r = map_sum allocation_error_str id r3" "st' = st2\<lparr>free_reserved := fr'\<rparr>"
          by (auto simp: st1_def st2_def bind_eq_Some_conv)
        have "good_list api (free_reserved st2)" using inv2 by (simp add: alloc_inv_def)
        with find_specific_inv(1) [OF inv2 n r3] find_specific_outcome [OF r3 n] r show ?thesis by simp
      qed
    qed
  qed
qed

end

lemma chunk_add_rest:
  assumes "e < m" "m \<le> MAX_FRAME"
  shows "chunk_add (chunk_add e 1) (m - e - 1) = m" "chunk_add e 1 \<le> m"
proof -
  have e: "chunk_add e 1 = e + 1" "e \<noteq> - 1"
    using assms bounded_less_MAX_PAGE chunk_add_1 word_neq_max_if_less
    by (meson less_trans order.strict_implies_order)+
  then show le: "chunk_add e 1 \<le> m" using assms(1) by (simp add: word_succ_le_iff)
  have "e + 1 + (m - e - 1) = m" by simp
  moreover have "\<not> e + 1 + (m - e - 1) < e + 1" using le by (simp add: e)
  moreover have "m \<le> MAX_PAGE_NUMBER" using bounded_less_MAX_PAGE [OF assms(2)] by simp
  ultimately show "chunk_add (chunk_add e 1) (m - e - 1) = m"
    by (simp add: chunk_add_def [of "e + 1"] saturating_add_def e min_def)
qed

context frame_tree
begin

lemma allocate_frames_at_inv:
  assumes inv: "alloc_inv api st H" and n: "n \<noteq> 0" and ex: "request_safe api st (Some paddr) n"
    and run: "allocate_frames_deferred api st (Some paddr) n = Some (r, st')"
  shows "alloc_inv api st' (outcome r + H) \<and> outcome_ok (Some (containing_address paddr)) n r"
proof -
  define f where "f = containing_address paddr"
  define m where "m = chunk_add f (n - 1)"
  have rng: "m \<le> MAX_FRAME" "\<not> missed_overlap api (general_regions st) (range_new f m)"
    "\<not> missed_overlap api (reserved_regions st) (range_new f m)"
    using ex by (simp_all add: request_safe_def bounded_range_def m_def f_def Let_def)
  have fm: "f \<le> m" using chunk_add_count(1) [OF n] bounded_less_MAX_PAGE [OF rng(1)] by (simp add: m_def)
  note run1 = run [unfolded allocate_frames_deferred_def option.case Let_def, folded f_def]
  obtain r1 fr where r1: "find_specific_chunk api (free_reserved st) f n = Some (r1, fr)"
    using run1 n by (auto simp: bind_eq_Some_conv)
  have g: "good_list api (free_reserved st)" "good_list api (free_general st)"
    using inv by (simp_all add: alloc_inv_def)
  note inv1 = find_specific_inv(1) [OF inv n r1] find_specific_outcome [OF r1 n g(1)]
  have new: "alloc_inv api st' (outcome r + H) \<and> outcome_ok (Some f) n r"
    if "allocate_new_reserved api st f n f' n' = Some (r, st')" "chunk_add f' (n' - 1) = m" "f \<le> f'" "f' \<le> m"
    for f' n'
    using that rng by (intro allocate_new_reserved_inv [OF inv n that(1) refl])
      (auto simp: bounded_range_def dest: missed_overlap_subset [where r' = "range_new f m"])
  have "alloc_inv api st' (outcome r + H) \<and> outcome_ok (Some f) n r"
  proof (cases r1)
    case (Inr p)
    with run1 r1 n inv1 show ?thesis by auto
  next
    case (Inl e)
    have st: "st\<lparr>free_reserved := fr\<rparr> = st" using find_specific_chunk_Err(1) r1 Inl by fastforce
    from find_specific_chunk_Err(2) [OF r1 [unfolded Inl]] show ?thesis
    proof (elim disjE bexE conjE)
      assume e: "e = AddressNotFound f n"
      with run1 r1 n Inl obtain r2 fg where r2: "find_specific_chunk api (free_general st) f n = Some (r2, fg)"
        by (auto simp: bind_eq_Some_conv)
      note inv2 = find_specific_inv(2) [OF inv n r2] find_specific_outcome [OF r2 n g(2)]
      show ?thesis
      proof (cases r2)
        case (Inr p)
        with run1 r1 Inl e r2 n inv2 st show ?thesis by auto
      next
        case Inl2: (Inl e2)
        have "st\<lparr>free_general := fg\<rparr> = st" using find_specific_chunk_Err(1) r2 Inl2 by fastforce
        with run1 r1 Inl e r2 n Inl2 st inv new [of f n] fm show ?thesis
          by (auto simp: m_def split: allocation_error.splits)
      qed
    next
      fix c assume c: "f \<in> chunks (fc_frames c)" "fc_end c < chunk_add f (n - 1)"
        "e = ContiguousChunkNotFound (chunk_add (fc_end c) 1) (chunk_add f (n - 1) - fc_end c)"
      have "fc_end c < m" using c(2) by (simp add: m_def)
      from chunk_add_rest [OF this rng(1)] have
        "chunk_add (chunk_add (fc_end c) 1) (m - fc_end c - 1) = m" "chunk_add (fc_end c) 1 \<le> m" .
      moreover have "f \<le> chunk_add (fc_end c) 1"
        using c(1) \<open>fc_end c < m\<close> rng(1) bounded_less_MAX_PAGE chunk_add_count
        by (metis (no_types, lifting) atLeastAtMost_iff chunk_add_1 less_trans
            order.strict_implies_order word_neq_max_if_less word_less_succ_iff)
      moreover have "allocate_new_reserved api st f n (chunk_add (fc_end c) 1) (m - fc_end c) = Some (r, st')"
        using run1 r1 Inl c(3) n st by (simp add: m_def)
      ultimately show ?thesis using new by blast
    qed
  qed
  then show ?thesis by (simp add: f_def)
qed

lemma allocate_frames_deferred_inv:
  assumes inv: "alloc_inv api st H" and ex: "request_safe api st p n"
    and run: "allocate_frames_deferred api st p n = Some (r, st')"
  shows "alloc_inv api st' (outcome r + H) \<and> outcome_ok (map_option containing_address p) n r"
proof (cases "n = 0")
  case True
  then show ?thesis using inv run by (auto simp: allocate_frames_deferred_def)
next
  case n: False
  show ?thesis
  proof (cases p)
    case (Some paddr)
    then show ?thesis using allocate_frames_at_inv [OF inv n] ex run by simp
  next
    case None
    have "good_list api (free_general st)" using inv by (simp add: alloc_inv_def)
    from find_any_chunk_cases [OF n good_list_bounded [OF this]] show ?thesis
    proof cases
      case ok: (1 c af act list')
      then have "alloc_inv api (st\<lparr>free_general := list'\<rparr>) (add_mset af (action_ranges act + H))"
        using alloc_inv_take_general [OF inv _ carved_from_single [OF ok(4)]] by simp
      with ok(1) outcome_ok_any [OF outcome_ok_carve [OF ok(4)]] None n run show ?thesis by (auto simp: allocate_frames_deferred_def)
    next
      case err: 2
      with None n run inv show ?thesis by (auto simp: allocate_frames_deferred_def)
    qed
  qed
qed

end

end
