(* ===== verification/FrameSystem.thy ===== *)
theory FrameSystem
  imports FrameOwnership
begin

text \<open>
  The frame allocator in use: the allocator together with the \<open>AllocatedFrames\<close> and
  \<open>DeferredAllocAction\<close> values that callers hold, and the steps that callers can take. The
  invariant of \<open>FrameOwnership\<close> holds in every state that initialisation and a sequence of
  steps reach.
\<close>

section \<open>The operations on owned frames keep the invariant\<close>

text \<open>What a caller can hold: a range inside the physical address space, empty only as
  \<open>FrameRange::empty()\<close>.\<close>

definition held_ok :: "chunk_range \<Rightarrow> bool" where
  "held_ok r \<longleftrightarrow> bounded_range r \<and> (chunks r = {} \<longrightarrow> r = range_empty)"

lemma held_ok_empty [simp]: "held_ok range_empty"
  by (simp add: held_ok_def bounded_range_def range_empty_def)

lemma held_ok_cases:
  assumes "held_ok r"
  obtains (empty) "r = range_empty" | (some) "r_start r \<le> r_end r" "r_end r \<le> MAX_FRAME"
  using assms by (auto simp: held_ok_def bounded_range_def)

lemma chunk_add_bounded: "m \<le> MAX_FRAME \<Longrightarrow> chunk_add m 1 = m + 1"
  by (simp add: bounded_less_MAX_PAGE chunk_add_1)

lemma join_ranges:
  assumes "r_start a \<le> r_end a" "r_end a \<le> MAX_FRAME" "r_start b \<le> r_end b" "r_end b \<le> MAX_FRAME"
    "chunk_add (r_end a) 1 = r_start b"
  shows "held_ok (range_new (r_start a) (r_end b))"
    "owners x {#range_new (r_start a) (r_end b)#} = owners x {#a#} + owners x {#b#}"
proof -
  have "r_start b = r_end a + 1" "r_end a \<noteq> - 1"
    using assms(2,5) bounded_not_max by (simp_all add: chunk_add_bounded)
  then have b: "chunks b = {r_end a<..r_end b}" and lt: "r_end a < r_end b"
    using assms(3) by (simp_all add: word_Icc_succ word_succ_le_iff)
  then show "held_ok (range_new (r_start a) (r_end b))"
    using assms by (auto simp: held_ok_def bounded_range_def)
  show "owners x {#range_new (r_start a) (r_end b)#} = owners x {#a#} + owners x {#b#}"
    unfolding owners_simps b using assms(1) lt by auto
qed

lemma allocated_frames_merge_ok:
  assumes "held_ok a" "held_ok b" "allocated_frames_merge a b = Ok c"
  shows "held_ok c" "owners x {#c#} = owners x {#a#} + owners x {#b#}"
proof -
  have z: "chunk_add 0 1 = 1" using chunk_add_bounded [of 0] by simp
  have "held_ok c \<and> owners x {#c#} = owners x {#a#} + owners x {#b#}"
    using assms(1)
  proof (cases rule: held_ok_cases)
    case empty
    from assms(2) show ?thesis
    proof (cases rule: held_ok_cases)
      case some
      then show ?thesis using assms(3) empty
        by (auto simp: allocated_frames_merge_def range_empty_def held_ok_def bounded_range_def
            chunk_add_bounded z split: if_splits)
    qed (use assms(3) empty in \<open>auto simp: allocated_frames_merge_def range_empty_def z held_ok_def bounded_range_def split: if_splits\<close>)
  next
    case some_a: some
    from assms(2) show ?thesis
    proof (cases rule: held_ok_cases)
      case empty
      then show ?thesis using assms(3) some_a
        by (auto simp: allocated_frames_merge_def range_empty_def held_ok_def bounded_range_def
            chunk_add_bounded z split: if_splits)
    next
      case some
      show ?thesis
        using assms(3) join_ranges [OF some_a some] join_ranges [OF some some_a]
        unfolding allocated_frames_merge_def
        by (auto simp del: owners_simps split: if_splits)
    qed
  qed
  then show "held_ok c" "owners x {#c#} = owners x {#a#} + owners x {#b#}" by simp_all
qed

lemma allocated_frames_split_ok:
  assumes "held_ok a" "allocated_frames_split a at_frame = Ok (f, s)"
  shows "held_ok f" "held_ok s" "owners x {#a#} = owners x {#f#} + owners x {#s#}"
proof -
  have z: "chunk_add 0 1 = 1" "chunk_sub 1 1 = 0"
    using chunk_add_bounded [of 0] by (simp_all add: chunk_sub_1)
  have "held_ok f \<and> held_ok s \<and> owners x {#a#} = owners x {#f#} + owners x {#s#}"
    using assms(1)
  proof (cases rule: held_ok_cases)
    case empty
    then have "1 < at_frame" "chunk_sub at_frame 1 \<le> 0"
      using assms(2) by (auto simp: allocated_frames_split_def Let_def range_empty_def z split: if_splits)
    then show ?thesis using word_neq_0_if_less [of 1 at_frame] by (simp add: chunk_sub_1)
  next
    case some
    then have h: "held_ok (range_new (r_start a) (r_end a))" by (auto simp: held_ok_def bounded_range_def)
    show ?thesis
    proof (cases "at_frame = r_start a \<or> at_frame = chunk_add (r_end a) 1")
      case True
      have "chunk_sub (r_end a + 1) 1 = r_end a"
        using bounded_not_max [OF some(2)] chunk_sub_1 [of "r_end a + 1"] by (simp add: add_eq_0_iff2)
      with True h some assms(2) show ?thesis
        by (auto simp: allocated_frames_split_def Let_def chunk_add_bounded
            simp del: atLeastAtMost_iff split: if_splits)
    next
      case False
      with assms(2) have *: "f = range_new (r_start a) (chunk_sub at_frame 1)"
        "s = range_new at_frame (r_end a)" "r_start a < at_frame" "chunk_sub at_frame 1 \<le> r_end a"
        by (auto simp: allocated_frames_split_def Let_def split: if_splits)
      then have nz: "at_frame \<noteq> 0" using word_neq_0_if_less by blast
      then have p: "chunk_sub at_frame 1 = at_frame - 1" by (rule chunk_sub_1)
      have "at_frame - 1 \<noteq> r_end a" using False some(2) chunk_add_bounded by (metis diff_add_cancel)
      then have lt: "at_frame - 1 < r_end a" using *(4) p by simp
      then have "at_frame - 1 \<le> MAX_FRAME" using some(2) by (meson less_imp_le order_trans)
      with lt have le: "r_start a \<le> at_frame - 1" "at_frame \<le> r_end a" "at_frame - 1 \<le> MAX_FRAME"
        using *(3) nz by (auto simp: word_le_pred_iff word_pred_less_iff)
      then have "held_ok f" "held_ok s" using * some(2) by (auto simp: p held_ok_def bounded_range_def)
      moreover have "owners x {#range_new (r_start f) (r_end s)#} = owners x {#f#} + owners x {#s#}"
        using * le some(2) by (intro join_ranges) (simp_all add: p chunk_add_bounded)
      ultimately show ?thesis using * by simp
    qed
  qed
  then show "held_ok f" "held_ok s" "owners x {#a#} = owners x {#f#} + owners x {#s#}" by auto
qed

context frame_tree
begin

lemma insert_inv:
  assumes "alloc_inv api st (add_mset (fc_frames c) H)" "good_chunk c"
  shows "alloc_inv api (st\<lparr>free_general := snd (sarb_insert api (free_general st) c)\<rparr>) H"
    "alloc_inv api (st\<lparr>free_reserved := snd (sarb_insert api (free_reserved st) c)\<rparr>) H"
proof -
  have m: "alloc_inv api st H" by (rule alloc_inv_mono [OF assms(1)]) simp
  show "alloc_inv api (st\<lparr>free_general := snd (sarb_insert api (free_general st) c)\<rparr>) H"
  proof (cases "sarb_insert api (free_general st) c")
    case (Pair r l)
    then show ?thesis using m alloc_inv_put(1) [OF assms]
      by (cases r) (auto dest: contents_insert insert_Err)
  qed
  show "alloc_inv api (st\<lparr>free_reserved := snd (sarb_insert api (free_reserved st) c)\<rparr>) H"
  proof (cases "sarb_insert api (free_reserved st) c")
    case (Pair r l)
    then show ?thesis using m alloc_inv_put(2) [OF assms]
      by (cases r) (auto dest: contents_insert insert_Err)
  qed
qed

lemma good_chunk_sized:
  "bounded_range r \<Longrightarrow> size_in_chunks r \<noteq> 0 \<Longrightarrow> good_chunk \<lparr>fc_typ = t, fc_frames = r\<rparr>"
  using size_in_chunks_eq_0 [OF bounded_not_max] by (simp add: good_chunk_def bounded_range_def)

lemma drop_allocated_frames_inv:
  assumes inv: "alloc_inv api st (add_mset r H)" and b: "bounded_range r"
    and run: "drop_allocated_frames api st r = Some st'"
  shows "alloc_inv api st' H"
proof (cases "size_in_chunks r = 0")
  case True
  have "alloc_inv api st H" by (rule alloc_inv_mono [OF inv]) simp
  with True run show ?thesis by (simp add: drop_allocated_frames_def)
next
  case False
  note g = good_chunk_sized [OF b False]
  from run False insert_inv [OF _ g] inv show ?thesis
    by (auto simp: drop_allocated_frames_def bind_eq_Some_conv split: if_splits)
qed

lemma insert_unwrap_eq: "insert_unwrap api list v = Some list' \<Longrightarrow> list' = snd (sarb_insert api list v)"
  by (auto simp: insert_unwrap_def split: prod.splits sum.splits)

lemma drop_deferred_chunk_inv:
  assumes inv: "alloc_inv api st (add_mset (fc_frames c) H)" and b: "bounded_range (fc_frames c)"
    and run: "drop_deferred_chunk api st c = Some st'"
  shows "alloc_inv api st' H"
proof -
  have m: "alloc_inv api st H" by (rule alloc_inv_mono [OF inv]) simp
  have g: "good_chunk c" if "size_in_chunks (fc_frames c) \<noteq> 0"
    using good_chunk_sized [OF b that] by (simp add: good_chunk_def)
  from run m g insert_inv [OF inv] show ?thesis
    by (auto simp: drop_deferred_chunk_def bind_eq_Some_conv word_greater_zero_iff dest!: insert_unwrap_eq
        split: if_splits memory_region_type.splits)
qed

lemma drop_deferred_inv:
  assumes "alloc_inv api st (action_ranges act + H)" "\<forall>r \<in># action_ranges act. bounded_range r"
    and "drop_deferred api st act = Some st'"
  shows "alloc_inv api st' H"
  using assms drop_deferred_chunk_inv [of st "free1 act" "add_mset (fc_frames (free2 act)) H"]
  by (auto simp: drop_deferred_def action_ranges_def bind_eq_Some_conv intro: drop_deferred_chunk_inv)

lemma convert_inv: "alloc_inv api st H \<Longrightarrow> alloc_inv api (frame_convert_to_heap_allocated api st) H"
  by (simp add: alloc_inv_def frame_convert_to_heap_allocated_def free_ranges_def region_ranges_def
      chunk_ranges_def good_list_def contents_convert del: sarb_iter_simps set_mset_mset)

end

section \<open>The system\<close>

record 't frame_system =
  fs_allocator :: "'t frame_allocator"
  fs_held :: "allocated_frames multiset"
  fs_pending :: "deferred_alloc_action multiset"

definition held_ranges :: "'t frame_system \<Rightarrow> chunk_range multiset" where
  "held_ranges s = fs_held s + (\<Sum>act \<in># fs_pending s. action_ranges act)"

definition owned :: "(fchunk, 't, 'c) rbtree_api \<Rightarrow> 't frame_system \<Rightarrow> chunk_range multiset" where
  "owned api s = free_ranges api (fs_allocator s) + held_ranges s"

text \<open>The steps are all the calls that return: any request, the drops, merging, splitting and the conversion.
  The label tells requests apart, so that a run can be required to make requests of a certain kind only.\<close>

datatype frame_call = RequestFrames "usize option" usize | OtherFrameCall

inductive fs_step ::
  "(fchunk, 't, 'c) rbtree_api \<Rightarrow> 't frame_system \<Rightarrow> frame_call \<Rightarrow> 't frame_system \<Rightarrow> bool"
  for api :: "(fchunk, 't, 'c) rbtree_api" where
  allocate:
    "allocate_frames_deferred api st p n = Some (Ok (af, act), st') \<Longrightarrow>
     fs_step api \<lparr>fs_allocator = st, fs_held = h, fs_pending = d\<rparr> (RequestFrames p n)
       \<lparr>fs_allocator = st', fs_held = add_mset af h, fs_pending = add_mset act d\<rparr>"
| allocate_err:
    "allocate_frames_deferred api st p n = Some (Err e, st') \<Longrightarrow>
     fs_step api \<lparr>fs_allocator = st, fs_held = h, fs_pending = d\<rparr> (RequestFrames p n)
       \<lparr>fs_allocator = st', fs_held = h, fs_pending = d\<rparr>"
| drop_frames:
    "drop_allocated_frames api st r = Some st' \<Longrightarrow>
     fs_step api \<lparr>fs_allocator = st, fs_held = add_mset r h, fs_pending = d\<rparr> OtherFrameCall
       \<lparr>fs_allocator = st', fs_held = h, fs_pending = d\<rparr>"
| drop_pending:
    "drop_deferred api st act = Some st' \<Longrightarrow>
     fs_step api \<lparr>fs_allocator = st, fs_held = h, fs_pending = add_mset act d\<rparr> OtherFrameCall
       \<lparr>fs_allocator = st', fs_held = h, fs_pending = d\<rparr>"
| merge:
    "allocated_frames_merge a b = Ok c \<Longrightarrow>
     fs_step api \<lparr>fs_allocator = st, fs_held = add_mset a (add_mset b h), fs_pending = d\<rparr> OtherFrameCall
       \<lparr>fs_allocator = st, fs_held = add_mset c h, fs_pending = d\<rparr>"
| split:
    "allocated_frames_split a at_frame = Ok (f, s) \<Longrightarrow>
     fs_step api \<lparr>fs_allocator = st, fs_held = add_mset a h, fs_pending = d\<rparr> OtherFrameCall
       \<lparr>fs_allocator = st, fs_held = add_mset f (add_mset s h), fs_pending = d\<rparr>"
| convert:
    "fs_step api \<lparr>fs_allocator = st, fs_held = h, fs_pending = d\<rparr> OtherFrameCall
       \<lparr>fs_allocator = frame_convert_to_heap_allocated api st, fs_held = h, fs_pending = d\<rparr>"

fun frame_call_ok ::
  "('t frame_allocator \<Rightarrow> usize option \<Rightarrow> usize \<Rightarrow> bool) \<Rightarrow> 't frame_system \<Rightarrow> frame_call \<Rightarrow> bool" where
  "frame_call_ok ok s (RequestFrames p n) = ok (fs_allocator s) p n"
| "frame_call_ok ok s OtherFrameCall = True"

text \<open>The runs in which every request satisfies \<open>ok\<close> in the state in which it is made.\<close>

inductive frame_run ::
  "(fchunk, 't, 'c) rbtree_api \<Rightarrow> ('t frame_allocator \<Rightarrow> usize option \<Rightarrow> usize \<Rightarrow> bool) \<Rightarrow>
   't frame_system \<Rightarrow> 't frame_system \<Rightarrow> bool"
  for api :: "(fchunk, 't, 'c) rbtree_api" and ok where
  frame_run_start: "frame_run api ok s s"
| frame_run_step:
    "frame_run api ok s s' \<Longrightarrow> fs_step api s' l s'' \<Longrightarrow> frame_call_ok ok s' l \<Longrightarrow> frame_run api ok s s''"

definition fs_inv :: "(fchunk, 't, 'c) rbtree_api \<Rightarrow> 't frame_system \<Rightarrow> bool" where
  "fs_inv api s \<longleftrightarrow>
     alloc_inv api (fs_allocator s) (held_ranges s) \<and>
     (\<forall>r. r \<in># fs_held s \<longrightarrow> held_ok r) \<and>
     (\<forall>act r. act \<in># fs_pending s \<longrightarrow> r \<in># action_ranges act \<longrightarrow> bounded_range r)"

lemma outcome_held_ok:
  assumes "outcome_ok f n (Ok (af, act))" "n \<noteq> 0"
  shows "held_ok af" "r \<in># action_ranges act \<Longrightarrow> bounded_range r"
proof -
  have "card (chunks af) = unat n" using assms(1) by (simp add: outcome_ok_def)
  then have "chunks af \<noteq> {}" using assms(2) by (metis card.empty unat_eq_zero)
  then show "held_ok af" "r \<in># action_ranges act \<Longrightarrow> bounded_range r"
    using assms(1) by (simp_all add: outcome_ok_def held_ok_def)
qed

context frame_tree
begin

lemma fs_step_inv:
  assumes "fs_step api s l s'" "frame_call_ok (request_safe api) s l" "fs_inv api s"
  shows "fs_inv api s'"
  using assms(1)
proof (cases rule: fs_step.cases)
  case (allocate st p n af act st' h d)
  have safe: "request_safe api st p n" using assms(2) by (simp add: allocate)
  have n: "n \<noteq> 0" using allocate(4) by (auto simp: allocate_frames_deferred_def)
  have "alloc_inv api st (held_ranges s)" using assms(3) by (simp add: fs_inv_def allocate)
  from allocate_frames_deferred_inv [OF this safe allocate(4)] have
    i: "alloc_inv api st' (add_mset af (action_ranges act + held_ranges s))"
    and o: "outcome_ok (map_option containing_address p) n (Ok (af, act))" by simp_all
  have "held_ranges s' = add_mset af (action_ranges act + held_ranges s)"
    by (simp add: held_ranges_def allocate ac_simps)
  with i have "alloc_inv api (fs_allocator s') (held_ranges s')" by (simp add: allocate)
  then show ?thesis using assms(3) outcome_held_ok [OF o n] unfolding fs_inv_def
    by (auto simp: allocate)
next
  case (allocate_err st p n e st' h d)
  have safe: "request_safe api st p n" using assms(2) by (simp add: allocate_err)
  have "alloc_inv api st (held_ranges s)" using assms(3) by (simp add: fs_inv_def allocate_err)
  from allocate_frames_deferred_inv [OF this safe allocate_err(4)] show ?thesis
    using assms(3) by (auto simp: fs_inv_def held_ranges_def allocate_err)
next
  case (drop_frames st r st' h d)
  with assms(3) drop_allocated_frames_inv [OF _ _ drop_frames(4)] show ?thesis
    by (auto simp: fs_inv_def held_ranges_def held_ok_def)
next
  case (drop_pending st act st' h d)
  with assms(3) drop_deferred_inv [OF _ _ drop_pending(4)] show ?thesis
    by (auto simp: fs_inv_def held_ranges_def ac_simps)
next
  case (merge a b c st h d)
  with assms(3) have i: "alloc_inv api st (held_ranges s)" "held_ok a" "held_ok b"
    by (auto simp: fs_inv_def)
  note m = allocated_frames_merge_ok [OF i(2,3) merge(4)]
  have "alloc_inv api st (held_ranges s')"
    by (rule alloc_inv_mono [OF i(1)]) (use m(2) in \<open>simp add: held_ranges_def merge\<close>)
  with assms(3) m(1) show ?thesis by (auto simp: fs_inv_def merge)
next
  case (split a at_frame f sa st h d)
  with assms(3) have i: "alloc_inv api st (held_ranges s)" "held_ok a" by (auto simp: fs_inv_def)
  note m = allocated_frames_split_ok [OF i(2) split(4)]
  have "alloc_inv api st (held_ranges s')"
    by (rule alloc_inv_mono [OF i(1)]) (use m(3) in \<open>simp add: held_ranges_def split\<close>)
  with assms(3) m(1,2) show ?thesis by (auto simp: fs_inv_def split)
next
  case (convert st h d)
  with assms(3) convert_inv show ?thesis by (auto simp: fs_inv_def held_ranges_def)
qed

lemma frame_run_inv: "frame_run api (request_safe api) s s' \<Longrightarrow> fs_inv api s \<Longrightarrow> fs_inv api s'"
  by (induction rule: frame_run.induct) (auto intro: fs_step_inv)

end

end
