(* ===== verification/FrameInit.thy ===== *)
theory FrameInit
  imports FrameSystem
begin

text \<open>
  Initialisation of the frame allocator (\<open>init\<close> and \<open>check_and_add_free_region\<close> in
  \<^verbatim>\<open>src/kernel/frame_allocator/src/lib.rs\<close>): any state that it returns satisfies the invariant,
  and for reserved regions in ascending order it returns and computes the free frames exactly.
\<close>

section \<open>Filling the slots of a list\<close>

fun push_all :: "'a option list \<times> nat \<Rightarrow> 'a list \<Rightarrow> ('a option list \<times> nat) panics" where
  "push_all fl [] = Some fl"
| "push_all fl (c # cs) = do { fl \<leftarrow> push_slot fl c; push_all fl cs }"

definition slots :: "'a list \<Rightarrow> 'a option list \<times> nat" where
  "slots cs = (map Some cs @ replicate (ARRAY_LEN - length cs) None, length cs)"

lemma push_slot_slots:
  "push_slot (slots cs) c = (if length cs < ARRAY_LEN then Some (slots (cs @ [c])) else None)"
proof (cases "length cs < ARRAY_LEN")
  case True
  then have "(map Some cs @ replicate (ARRAY_LEN - length cs) None)[length cs := Some c] =
      map Some (cs @ [c]) @ replicate (ARRAY_LEN - Suc (length cs)) None"
    by (simp add: list_update_append Suc_diff_Suc [symmetric])
  with True show ?thesis by (simp add: push_slot_def slots_def)
qed (simp add: push_slot_def slots_def)

lemma push_all_append: "push_all fl (ps @ qs) = Option.bind (push_all fl ps) (\<lambda>fl. push_all fl qs)"
  by (induction ps arbitrary: fl) (auto split: bind_split)

lemma push_all_slots:
  "length (cs @ ps) \<le> ARRAY_LEN \<Longrightarrow> push_all (slots cs) ps = Some (slots (cs @ ps))"
  by (induction ps arbitrary: cs) (auto simp: push_slot_slots)

lemma slots_Nil: "slots [] = (replicate ARRAY_LEN None, 0)"
  by (simp add: slots_def)

lemma slots_simps [simp]: "snd (slots cs) = length cs" "array_values (fst (slots cs)) = cs"
  "array_values (take (length cs) (fst (slots cs))) = cs"
  by (simp_all add: slots_def)

section \<open>Every list that initialisation builds is good\<close>

lemma size_pos_iff: "e \<le> MAX_FRAME \<Longrightarrow> 0 < size_in_chunks (range_new s e) \<longleftrightarrow> s \<le> e"
  using size_in_chunks_eq_0 [of "range_new s e"] bounded_not_max [of e]
  by (auto simp: word_greater_zero_iff)

lemma push_area_good:
  assumes "(if s \<le> e then push_slot (slots cs) \<lparr>fc_typ = Free, fc_frames = range_new s e\<rparr>
            else Some (slots cs)) = Some fl" "e \<le> MAX_FRAME"
  shows "\<exists>ps. fl = slots (cs @ ps) \<and> (\<forall>p \<in> set ps. good_chunk p)"
proof (cases "s \<le> e")
  case True
  with assms show ?thesis
    by (intro exI [of _ "[\<lparr>fc_typ = Free, fc_frames = range_new s e\<rparr>]"])
      (auto simp: push_slot_slots good_chunk_def split: if_splits)
qed (use assms in \<open>auto intro: exI [of _ "[]"]\<close>)

lemma check_reserved_good:
  "check_reserved R ae s e rest (slots cs) = Some fl \<Longrightarrow> e \<le> MAX_FRAME \<Longrightarrow> ae \<le> MAX_FRAME \<Longrightarrow>
   \<exists>ps. fl = slots (cs @ ps) \<and> (\<forall>p \<in> set ps. good_chunk p)"
proof -
  have "fl0 = slots cs \<longrightarrow> e \<le> MAX_FRAME \<longrightarrow> ae \<le> MAX_FRAME \<longrightarrow>
      (\<exists>ps. fl = slots (cs @ ps) \<and> (\<forall>p \<in> set ps. good_chunk p))"
    if "check_reserved R ae s e rest fl0 = Some fl" for fl0
  proof (rule check_reserved.raw_induct [OF _ that, of "\<lambda>R ae s e rest fl0 fl. \<forall>cs. fl0 = slots cs \<longrightarrow>
      e \<le> MAX_FRAME \<longrightarrow> ae \<le> MAX_FRAME \<longrightarrow>
      (\<exists>ps. fl = slots (cs @ ps) \<and> (\<forall>p \<in> set ps. good_chunk p))", THEN spec], goal_cases)
    case (1 rec R ae s e rest fl0 fl)
    show ?case
    proof (cases rest)
      case Nil
      with 1(2) have "(if 0 < size_in_chunks (range_new s e) then push_slot fl0 \<lparr>fc_typ = Free, fc_frames = range_new s e\<rparr>
          else Some fl0) = Some fl" by (simp add: Let_def)
      then show ?thesis using push_area_good [of s e _ fl] size_pos_iff [of e s] by auto
    next
      case (Cons r rest')
      define s' where "s' = (if range_contains r s then chunk_add (r_end r) 1 else s)"
      have me: "min e (chunk_sub (r_start r) 1) \<le> MAX_FRAME" if "e \<le> MAX_FRAME"
        using that by (meson min.coboundedI1)
      note run = 1(2) [unfolded Cons list.case Let_def, folded s'_def]
      show ?thesis
      proof (intro allI impI)
        fix cs assume a: "fl0 = slots cs" "e \<le> MAX_FRAME" "ae \<le> MAX_FRAME"
        show "\<exists>ps. fl = slots (cs @ ps) \<and> (\<forall>p \<in> set ps. good_chunk p)"
        proof (cases "s' \<le> r_start r \<and> r_start r \<le> e \<and> \<not> ae \<le> r_end r")
          case False
          then obtain e' rest'' where "rec R ae s' e' rest'' fl0 = Some fl" "e' \<le> MAX_FRAME"
            using run a me by (auto split: if_splits)
          from 1(1) [OF this(1)] this(2) a show ?thesis by blast
        next
          case True
          with run obtain fl1 where r1: "rec R ae (chunk_add (r_end r) 1) ae R fl0 = Some fl1"
            and r2: "rec R ae s' (min e (chunk_sub (r_start r) 1)) rest' fl1 = Some fl"
            by (auto simp: bind_eq_Some_conv)
          from 1(1) [OF r1] a obtain ps where ps: "fl1 = slots (cs @ ps)" "\<forall>p \<in> set ps. good_chunk p"
            by blast
          from 1(1) [OF r2] a ps(1) me obtain qs where "fl = slots ((cs @ ps) @ qs)"
            "\<forall>p \<in> set qs. good_chunk p" by blast
          with ps(2) show ?thesis by (intro exI [of _ "ps @ qs"]) auto
        qed
      qed
    qed
  qed
  then show "check_reserved R ae s e rest (slots cs) = Some fl \<Longrightarrow> e \<le> MAX_FRAME \<Longrightarrow> ae \<le> MAX_FRAME \<Longrightarrow>
   \<exists>ps. fl = slots (cs @ ps) \<and> (\<forall>p \<in> set ps. good_chunk p)" by blast
qed

section \<open>The exact result for reserved regions in ascending order\<close>

definition uncovered :: "chunk_range list \<Rightarrow> frame \<Rightarrow> bool" where
  "uncovered R x \<longleftrightarrow> (\<forall>r \<in> set R. x \<notin> chunks r)"

definition good_reserved :: "chunk_range list \<Rightarrow> bool" where
  "good_reserved R \<longleftrightarrow> sorted (map r_start R) \<and> (\<forall>r \<in> set R. r_start r \<le> r_end r \<and> r_end r \<le> MAX_FRAME)"

definition area_pieces :: "frame \<Rightarrow> frame \<Rightarrow> fchunk list" where
  "area_pieces s e = (if s \<le> e then [\<lparr>fc_typ = Free, fc_frames = range_new s e\<rparr>] else [])"

definition piece_owners :: "frame \<Rightarrow> fchunk list \<Rightarrow> nat" where
  "piece_owners x ps = owners x (mset (map fc_frames ps))"

lemma piece_owners_simps [simp]:
  "piece_owners x [] = 0" "piece_owners x (p # ps) = of_bool (x \<in> chunks (fc_frames p)) + piece_owners x ps"
  "piece_owners x (ps @ qs) = piece_owners x ps + piece_owners x qs"
  "piece_owners x (area_pieces s e) = of_bool (x \<in> {s..e})"
  by (auto simp: piece_owners_def area_pieces_def)

lemma check_reserved_Nil:
  "e \<le> MAX_FRAME \<Longrightarrow> check_reserved R ae s e [] fl = push_all fl (area_pieces s e)"
  by (subst check_reserved.simps) (simp add: Let_def size_pos_iff area_pieces_def)

text \<open>Once the current area ends below the remaining regions, they leave it alone.\<close>

lemma check_reserved_below:
  assumes "\<forall>r \<in> set rest. s < r_start r \<and> e < r_start r" "e \<le> MAX_FRAME"
  shows "check_reserved R ae s e rest fl = push_all fl (area_pieces s e)"
  using assms
proof (induction rest)
  case (Cons r rest)
  then show ?case by (subst check_reserved.simps) (auto simp: Let_def)
qed (simp add: check_reserved_Nil)

text \<open>A piece is followed by a reserved region or by the end of the area: the number of regions
  bounds the number of pieces.\<close>

definition regions_from :: "frame \<Rightarrow> chunk_range list \<Rightarrow> nat" where
  "regions_from s R = length (filter (\<lambda>r. s \<le> r_end r) R)"

lemma regions_from_less:
  assumes "r \<in> set R" "s \<le> r_end r" "r_end r \<le> MAX_FRAME"
  shows "regions_from (r_end r + 1) R < regions_from s R"
proof -
  have ge: "r_end r + 1 \<le> x \<longleftrightarrow> r_end r < x" for x
    using bounded_not_max [OF assms(3)] by (rule word_succ_le_iff)
  have "filter (\<lambda>r'. r_end r + 1 \<le> r_end r') R = filter (\<lambda>r'. r_end r + 1 \<le> r_end r') (filter (\<lambda>r. s \<le> r_end r) R)"
    using assms(2) by (auto simp: ge intro!: filter_cong)
  moreover have "length \<dots> < length (filter (\<lambda>r. s \<le> r_end r) R)"
    by (rule length_filter_less [of r]) (use assms in \<open>auto simp: ge\<close>)
  ultimately show ?thesis by (simp add: regions_from_def)
qed

definition exact_pieces ::
  "chunk_range list \<Rightarrow> frame \<Rightarrow> frame \<Rightarrow> chunk_range list \<Rightarrow> fchunk list \<Rightarrow> bool" where
  "exact_pieces R ae s rest ps \<longleftrightarrow>
     (\<forall>fl. check_reserved R ae s ae rest fl = push_all fl ps) \<and>
     (\<forall>x. piece_owners x ps = of_bool (x \<in> {s..ae} \<and> uncovered R x)) \<and>
     length ps \<le> Suc (regions_from s R)"

lemma regions_from_mono: "s \<le> s' \<Longrightarrow> regions_from s' R \<le> regions_from s R"
  unfolding regions_from_def by (induction R) auto

lemma exact_pieces_skip:
  assumes "exact_pieces R ae s' rest ps" "s \<le> s'" "r \<in> set R" "{s..<s'} \<subseteq> chunks r"
    and "\<forall>fl. check_reserved R ae s ae (r # rest) fl = check_reserved R ae s' ae rest fl"
  shows "exact_pieces R ae s (r # rest) ps"
proof -
  have "x \<in> {s..ae} \<and> uncovered R x \<longleftrightarrow> x \<in> {s'..ae} \<and> uncovered R x" for x
  proof (cases "x \<in> {s..<s'}")
    case True
    then have "\<not> uncovered R x" using assms(3,4) unfolding uncovered_def by blast
    then show ?thesis by simp
  next
    case False
    then show ?thesis using assms(2) by auto
  qed
  then show ?thesis
    using assms(1,5) regions_from_mono [OF assms(2), of R] by (auto simp: exact_pieces_def)
qed

text \<open>A region strictly inside the current area: what lies before it is one piece, what lies after
  it is handled by the recursive call.\<close>

lemma exact_pieces_cut:
  assumes R: "good_reserved R" "R = seen @ r # rest" and ae: "ae \<le> MAX_FRAME"
    and seen: "\<forall>q \<in> set seen. r_end q < s \<or> ae < r_start q"
    and cut: "s < r_start r" "r_start r \<le> ae"
    and rec: "exact_pieces R ae (r_end r + 1) R ps"
  shows "\<exists>ps. exact_pieces R ae s (r # rest) ps"
proof -
  let ?e = "r_start r - 1"
  have nz: "r_start r \<noteq> 0" using cut(1) by (rule word_neq_0_if_less)
  have r: "r_start r \<le> r_end r" "r_end r \<le> MAX_FRAME" and rs: "\<forall>q \<in> set rest. r_start r \<le> r_start q"
    using R by (auto simp: good_reserved_def sorted_append)
  have e: "{s..?e} = {s..<r_start r}" "?e < r_start r" "?e \<le> ae" "?e \<le> MAX_FRAME"
    using word_Icc_pred [OF nz] word_pred_less_iff [OF nz] cut(2) ae
    by (auto intro: order_trans less_imp_le)
  have a1: "chunk_add (r_end r) 1 = r_end r + 1" using r(2) by (rule chunk_add_bounded)
  have below: "check_reserved R ae s ?e rest fl = push_all fl (area_pieces s ?e)" for fl
    using check_reserved_below [of rest s ?e R ae fl] rs e cut(1) by (meson less_le_trans)
  have unc: "x \<in> {s..<r_start r} \<Longrightarrow> uncovered R x" for x
    using seen R(2) rs cut(2) by (force simp: uncovered_def)
  have after: "x \<in> {r_end r + 1..ae} \<longleftrightarrow> x \<in> {r_end r<..ae}" for x
    using word_Icc_succ [OF bounded_not_max [OF r(2)]] by blast
  have rin: "r \<in> set R" using R(2) by simp
  have split: "x \<in> {s..ae} \<and> uncovered R x \<longleftrightarrow>
      x \<in> {s..<r_start r} \<or> x \<in> {r_end r<..ae} \<and> uncovered R x" for x
    using unc [of x] rin cut r(1) by (auto simp: uncovered_def)
  show ?thesis
  proof (cases "ae \<le> r_end r")
    case True
    have "check_reserved R ae s ae (r # rest) fl = push_all fl (area_pieces s ?e)" for fl
      by (subst check_reserved.simps)
        (use cut e True nz in \<open>auto simp: Let_def chunk_sub_1 min_absorb2 check_reserved_Nil\<close>)
    moreover have "piece_owners x (area_pieces s ?e) = of_bool (x \<in> {s..ae} \<and> uncovered R x)" for x
      using True unfolding split by (simp add: e(1))
    moreover have "length (area_pieces s ?e) \<le> 1" by (simp add: area_pieces_def)
    ultimately have "exact_pieces R ae s (r # rest) (area_pieces s ?e)"
      unfolding exact_pieces_def by simp
    then show ?thesis by blast
  next
    case False
    have "check_reserved R ae s ae (r # rest) fl = push_all fl (ps @ area_pieces s ?e)" for fl
    proof -
      have "check_reserved R ae s ae (r # rest) fl =
          Option.bind (check_reserved R ae (r_end r + 1) ae R fl) (check_reserved R ae s ?e rest)"
        by (subst check_reserved.simps)
          (use cut e False nz in \<open>auto simp: Let_def chunk_sub_1 min_absorb2 a1\<close>)
      moreover have "check_reserved R ae (r_end r + 1) ae R fl = push_all fl ps"
        using rec unfolding exact_pieces_def by blast
      moreover have "check_reserved R ae s ?e rest = (\<lambda>fl. push_all fl (area_pieces s ?e))"
        using below by blast
      ultimately show ?thesis by (simp add: push_all_append)
    qed
    moreover have "piece_owners x (ps @ area_pieces s ?e) = of_bool (x \<in> {s..ae} \<and> uncovered R x)" for x
    proof -
      have "piece_owners x ps = of_bool (x \<in> {r_end r<..ae} \<and> uncovered R x)"
        using rec by (simp add: exact_pieces_def after del: atLeastAtMost_iff)
      then show ?thesis unfolding split piece_owners_simps e(1) using r(1) by auto
    qed
    moreover have "length (ps @ area_pieces s ?e) \<le> Suc (regions_from s R)"
    proof -
      have "s \<le> r_end r" using cut(1) r(1) by simp
      from regions_from_less [OF rin this r(2)] rec show ?thesis
        by (simp add: exact_pieces_def area_pieces_def)
    qed
    ultimately have "exact_pieces R ae s (r # rest) (ps @ area_pieces s ?e)"
      unfolding exact_pieces_def by blast
    then show ?thesis by blast
  qed
qed

lemma exact_pieces_rest:
  assumes R: "good_reserved R" and ae: "ae \<le> MAX_FRAME"
    and rec: "\<And>s'. s0 < s' \<Longrightarrow> \<exists>ps. exact_pieces R ae s' R ps"
    and "R = seen @ rest" "\<forall>q \<in> set seen. r_end q < s \<or> ae < r_start q" "s0 \<le> s"
  shows "\<exists>ps. exact_pieces R ae s rest ps"
  using assms(4-)
proof (induction rest arbitrary: s seen)
  case Nil
  then have "\<forall>x \<in> {s..ae}. uncovered R x" by (force simp: uncovered_def)
  then have "exact_pieces R ae s [] (area_pieces s ae)"
    using ae check_reserved_Nil by (auto simp: exact_pieces_def area_pieces_def)
  then show ?case by blast
next
  case (Cons r rest)
  have rin: "r \<in> set R" and r: "r_start r \<le> r_end r" "r_end r \<le> MAX_FRAME"
    using R Cons(2) by (auto simp: good_reserved_def)
  have a1: "chunk_add (r_end r) 1 = r_end r + 1" using r(2) by (rule chunk_add_bounded)
  have gt: "x < r_end r + 1 \<longleftrightarrow> x \<le> r_end r" for x
    using bounded_not_max [OF r(2)] by (rule word_less_succ_iff)
  consider (in_r) "s \<in> chunks r" | (cut) "s < r_start r" "r_start r \<le> ae"
    | (out) "r_end r < s \<or> ae < r_start r" "s \<notin> chunks r" "\<not> (s \<le> r_start r \<and> r_start r \<le> ae)"
    using r(1) by force
  then show ?case
  proof cases
    case in_r
    then have lt: "s < r_end r + 1" by (simp add: gt)
    have "\<forall>q \<in> set (seen @ [r]). r_end q < r_end r + 1 \<or> ae < r_start q"
      using Cons(3) lt by (auto simp: gt intro: less_imp_le)
    moreover have "s0 \<le> r_end r + 1" using Cons(4) lt by simp
    ultimately obtain ps where "exact_pieces R ae (r_end r + 1) rest ps"
      using Cons.IH [of "seen @ [r]" "r_end r + 1"] Cons(2) by auto
    moreover have "check_reserved R ae s ae (r # rest) fl = check_reserved R ae (r_end r + 1) ae rest fl" for fl
      by (subst check_reserved.simps) (use in_r r gt [of "r_start r"] in \<open>auto simp: Let_def a1\<close>)
    moreover have "{s..<r_end r + 1} \<subseteq> chunks r" using in_r by (auto simp: gt)
    ultimately show ?thesis
      using exact_pieces_skip [of R ae "r_end r + 1" rest ps s r] lt rin less_imp_le by blast
  next
    case cut
    have "s0 < r_end r + 1" using Cons(4) cut(1) r(1) by (auto simp: gt)
    from rec [OF this] exact_pieces_cut [OF R Cons(2) ae Cons(3) cut] show ?thesis by blast
  next
    case out
    have "check_reserved R ae s ae (r # rest) fl = check_reserved R ae s ae rest fl" for fl
      by (subst check_reserved.simps) (use out in \<open>auto simp: Let_def\<close>)
    moreover have "\<exists>ps. exact_pieces R ae s rest ps"
      using Cons.IH [of "seen @ [r]" s] Cons(2-4) out(1) by auto
    ultimately show ?thesis by (auto simp: exact_pieces_def)
  qed
qed

lemma exact_pieces_all:
  assumes "good_reserved R" "ae \<le> MAX_FRAME"
  shows "\<exists>ps. exact_pieces R ae s R ps"
proof (induction "2 ^ 64 - unat s" arbitrary: s rule: less_induct)
  case less
  have "\<exists>ps. exact_pieces R ae s' R ps" if "s < s'" for s'
  proof (rule less)
    show "2 ^ 64 - unat s' < 2 ^ 64 - unat s"
      using that unat_lt_2p [of s'] by (simp add: word_less_nat_alt)
  qed
  from exact_pieces_rest [OF assms this, of s "[]" R s] show ?case by simp
qed

section \<open>Merging the reserved regions\<close>

definition covered :: "fchunk list \<Rightarrow> frame set" where
  "covered cs = (\<Union>c \<in> set cs. chunks (fc_frames c))"

lemma covered_simps [simp]:
  "covered [] = {}" "covered (c # cs) = chunks (fc_frames c) \<union> covered cs"
  by (simp_all add: covered_def)

lemma hull_overlapping:
  assumes "overlap a b \<noteq> None"
  shows "{min (r_start a) (r_start b)..max (r_end a) (r_end b)} = chunks a \<union> chunks b"
proof -
  from assms obtain x where "r_start a \<le> x" "x \<le> r_end a" "r_start b \<le> x" "x \<le> r_end b"
    by (auto simp: overlap_eq_None disjoint_iff simp del: Int_atLeastAtMost)
  then show ?thesis by (auto simp: min_le_iff_disj le_max_iff_disj)
qed

definition hull :: "fchunk \<Rightarrow> fchunk \<Rightarrow> fchunk" where
  "hull c d = c\<lparr>fc_frames := range_new (min (fc_start c) (fc_start d)) (max (fc_end c) (fc_end d))\<rparr>"

lemma absorb_eqs:
  "absorb cur (None # es) = (c, es', ch) \<longleftrightarrow> (\<exists>es1. absorb cur es = (c, es1, ch) \<and> es' = None # es1)"
  "overlap (fc_frames cur) (fc_frames d) = None \<Longrightarrow> absorb cur (Some d # es) = (c, es', ch) \<longleftrightarrow>
     (\<exists>es1. absorb cur es = (c, es1, ch) \<and> es' = Some d # es1)"
  "overlap (fc_frames cur) (fc_frames d) \<noteq> None \<Longrightarrow> absorb cur (Some d # es) = (c, es', ch) \<longleftrightarrow>
     ch \<and> (\<exists>es1 ch1. absorb (hull cur d) es = (c, es1, ch1) \<and> es' = None # es1)"
  by (auto simp: hull_def split: prod.splits)

lemma absorb_induct [consumes 1, case_names Nil None skip hit]:
  assumes "absorb current es = (c, es', ch)"
    and "\<And>cur. P cur [] cur [] False"
    and "\<And>cur es c es' ch. P cur es c es' ch \<Longrightarrow> P cur (None # es) c (None # es') ch"
    and "\<And>cur d es c es' ch. overlap (fc_frames cur) (fc_frames d) = None \<Longrightarrow>
      P cur es c es' ch \<Longrightarrow> P cur (Some d # es) c (Some d # es') ch"
    and "\<And>cur d es c es' ch. overlap (fc_frames cur) (fc_frames d) \<noteq> None \<Longrightarrow>
      P (hull cur d) es c es' ch \<Longrightarrow> P cur (Some d # es) c (None # es') True"
  shows "P current es c es' ch"
  using assms(1)
proof (induction es arbitrary: current c es' ch)
  case (Cons e es)
  show ?case
  proof (cases e)
    case None
    from Cons(2) [unfolded None absorb_eqs(1)] obtain es1 where
      "absorb current es = (c, es1, ch)" "es' = None # es1" by blast
    then show ?thesis using assms(3) Cons(1) None by blast
  next
    case (Some d)
    show ?thesis
    proof (cases "overlap (fc_frames current) (fc_frames d) = None")
      case True
      from Cons(2) [unfolded Some absorb_eqs(2) [OF True]] obtain es1 where
        "absorb current es = (c, es1, ch)" "es' = Some d # es1" by blast
      then show ?thesis using assms(4) [OF True] Cons(1) Some by blast
    next
      case False
      from Cons(2) [unfolded Some absorb_eqs(3) [OF False]] obtain es1 ch1 where
        "absorb (hull current d) es = (c, es1, ch1)" "es' = None # es1" "ch = True" by blast
      then show ?thesis using assms(5) [OF False] Cons(1) Some by blast
    qed
  qed
qed (use assms(2) in simp)

lemma chunks_hull:
  "overlap (fc_frames c) (fc_frames d) \<noteq> None \<Longrightarrow>
   chunks (fc_frames (hull c d)) = chunks (fc_frames c) \<union> chunks (fc_frames d)"
  using hull_overlapping [of "fc_frames c" "fc_frames d"] by (simp add: hull_def)

lemma absorb_covered:
  "absorb current es = (c, es', ch) \<Longrightarrow>
   chunks (fc_frames c) \<union> covered (array_values es') =
   chunks (fc_frames current) \<union> covered (array_values es)"
proof (induction rule: absorb_induct)
  case (skip cur d es c es' ch)
  then show ?case
    by (simp only: array_values.simps covered_simps Un_left_commute [of _ "chunks (fc_frames d)"])
next
  case (hit cur d es c es' ch)
  from hit(2) [unfolded chunks_hull [OF hit(1)]] show ?case
    by (simp only: array_values.simps covered_simps Un_assoc)
qed (simp_all only: array_values.simps)

lemma absorb_good:
  "absorb current es = (c, es', ch) \<Longrightarrow>
   good_chunk current \<and> (\<forall>c \<in> set (array_values es). good_chunk c) \<longrightarrow>
   good_chunk c \<and> (\<forall>c \<in> set (array_values es'). good_chunk c)"
proof (induction rule: absorb_induct)
  case (hit cur d es c es' ch)
  have "good_chunk (hull cur d)" if "good_chunk cur" "good_chunk d"
    using that by (auto simp: hull_def good_chunk_def min_le_iff_disj le_max_iff_disj)
  with hit(2) show ?case unfolding array_values.simps list.set by blast
qed (unfold array_values.simps list.set, blast+)

lemma absorb_unchanged:
  "absorb current es = (c, es', ch) \<Longrightarrow> \<not> ch \<longrightarrow>
   c = current \<and> es' = es \<and>
   (\<forall>d \<in> set (array_values es). overlap (fc_frames current) (fc_frames d) = None)"
  by (induction rule: absorb_induct) simp_all

lemma merge_pass_spec:
  "merge_pass arr = (cs, ch) \<Longrightarrow>
   covered cs = covered (array_values arr) \<and>
   ((\<forall>c \<in> set (array_values arr). good_chunk c) \<longrightarrow> (\<forall>c \<in> set cs. good_chunk c)) \<and>
   (\<not> ch \<longrightarrow> no_overlaps cs \<and> cs = array_values arr)"
proof (induction arr arbitrary: cs ch rule: merge_pass.induct)
  case (3 current es)
  obtain c es' ch1 where a: "absorb current es = (c, es', ch1)" by (cases "absorb current es")
  obtain cs2 ch2 where m: "merge_pass es' = (cs2, ch2)" by (cases "merge_pass es'")
  have cs: "cs = c # cs2" "ch = (ch1 \<or> ch2)" using 3(2) a m by auto
  note IH = 3(1) [OF a [symmetric] refl m]
  have "no_overlaps cs \<and> cs = current # array_values es" if "\<not> ch"
    using that IH cs absorb_unchanged [OF a] by auto
  moreover have "covered cs = covered (array_values (Some current # es))"
    using IH absorb_covered [OF a] by (simp add: cs(1))
  moreover have "\<forall>c \<in> set cs. good_chunk c" if "\<forall>c \<in> set (array_values (Some current # es)). good_chunk c"
  proof -
    have "good_chunk current \<and> (\<forall>c \<in> set (array_values es). good_chunk c)"
      using that unfolding array_values.simps list.set by blast
    then have "good_chunk c" "\<forall>c \<in> set (array_values es'). good_chunk c"
      using absorb_good [OF a] by blast+
    moreover from this(2) have "\<forall>c \<in> set cs2. good_chunk c" using IH by blast
    ultimately show ?thesis by (simp add: cs(1))
  qed
  ultimately show ?case unfolding array_values.simps by blast
next
  case (2 es)
  from 2(1) [OF 2(2) [unfolded merge_pass.simps]] show ?case unfolding array_values.simps .
qed auto

lemma merge_reserved_spec:
  "covered (array_values (merge_reserved arr)) = covered (array_values arr)"
  "\<forall>c \<in> set (array_values arr). good_chunk c \<Longrightarrow> \<forall>c \<in> set (array_values (merge_reserved arr)). good_chunk c"
  "no_overlaps (array_values (merge_reserved arr))"
proof -
  have "covered (array_values (merge_reserved arr)) = covered (array_values arr) \<and>
    ((\<forall>c \<in> set (array_values arr). good_chunk c) \<longrightarrow> (\<forall>c \<in> set (array_values (merge_reserved arr)). good_chunk c)) \<and>
    no_overlaps (array_values (merge_reserved arr))"
  proof (induction arr rule: merge_reserved.induct)
    case (1 arr)
    obtain cs ch where m: "merge_pass arr = (cs, ch)" by fastforce
    define temp where "temp = map Some cs @ replicate (length arr - length cs) None"
    have t: "merge_reserved arr = (if ch then merge_reserved temp else temp)" "array_values temp = cs"
      by (simp_all add: merge_reserved.simps [of arr] m Let_def temp_def)
    note mp = merge_pass_spec [OF m]
    show ?case
    proof (cases ch)
      case True
      then have e: "merge_reserved arr = merge_reserved temp" using t(1) by simp
      note IH = 1 [OF m [symmetric] temp_def True, unfolded t(2)]
      show ?thesis unfolding e
      proof (intro conjI impI)
        show "covered (array_values (merge_reserved temp)) = covered (array_values arr)"
          using IH mp by simp
        assume "\<forall>c \<in> set (array_values arr). good_chunk c"
        then have "\<forall>c \<in> set cs. good_chunk c" using mp by blast
        then show "\<forall>c \<in> set (array_values (merge_reserved temp)). good_chunk c" using IH by blast
      qed (use IH in blast)
    next
      case False
      then have "merge_reserved arr = temp" using t(1) by simp
      with mp False show ?thesis using t(2) by metis
    qed
  qed
  then show "covered (array_values (merge_reserved arr)) = covered (array_values arr)"
    "\<forall>c \<in> set (array_values arr). good_chunk c \<Longrightarrow> \<forall>c \<in> set (array_values (merge_reserved arr)). good_chunk c"
    "no_overlaps (array_values (merge_reserved arr))" by blast+
qed

lemma piece_owners_pos: "0 < piece_owners x cs \<longleftrightarrow> x \<in> covered cs"
  by (induction cs) auto

lemma overlap_none_covered:
  "(\<forall>d \<in> set cs. overlap r (fc_frames d) = None) \<longleftrightarrow> chunks r \<inter> covered cs = {}"
  by (induction cs) (simp_all add: overlap_eq_None Int_Un_distrib del: Int_atLeastAtMost)

lemma of_bool_add_le_1: "of_bool b + (p :: nat) \<le> 1 \<longleftrightarrow> (b \<longrightarrow> \<not> 0 < p) \<and> p \<le> 1"
  by (cases b) auto

lemma no_overlaps_owners: "no_overlaps cs \<longleftrightarrow> (\<forall>x. piece_owners x cs \<le> 1)"
proof (induction cs)
  case (Cons c cs)
  show ?case
    unfolding no_overlaps.simps overlap_none_covered piece_owners_simps of_bool_add_le_1
      piece_owners_pos disjoint_iff all_conj_distrib Cons ..
qed simp

section \<open>The initial state\<close>

lemma add_free_regions_good:
  "add_free_regions areas R (slots cs) = Some fl \<Longrightarrow> \<forall>a \<in> set areas. r_end (pmr_frames a) \<le> MAX_FRAME \<Longrightarrow>
   \<exists>ps. fl = slots (cs @ ps) \<and> (\<forall>p \<in> set ps. good_chunk p)"
proof (induction areas arbitrary: cs)
  case (Cons a areas)
  then obtain fl1 where f: "check_and_add_free_region (pmr_frames a) (slots cs) R = Some fl1"
    "add_free_regions areas R fl1 = Some fl"
    by (auto simp: bind_eq_Some_conv)
  then obtain ps where ps: "fl1 = slots (cs @ ps)" "\<forall>p \<in> set ps. good_chunk p"
    using check_reserved_good [OF f(1) [unfolded check_and_add_free_region_def]] Cons(3) by auto
  from Cons(1) [of "cs @ ps"] f(2) ps(1) Cons(3) obtain qs where
    "fl = slots ((cs @ ps) @ qs)" "\<forall>p \<in> set qs. good_chunk p" by auto
  with ps(2) show ?case by (intro exI [of _ "ps @ qs"]) auto
qed (auto intro: exI [of _ "[]"])

lemma reserved_slots_values:
  "reserved_slots areas = Some arr \<Longrightarrow>
   array_values arr = map (\<lambda>a. \<lparr>fc_typ = Reserved, fc_frames = pmr_frames a\<rparr>) areas"
proof -
  have "array_values (map (\<lambda>a. Some (f a)) xs) = map f xs" for f :: "'x \<Rightarrow> 'y" and xs
    by (induction xs) auto
  then show "reserved_slots areas = Some arr \<Longrightarrow>
      array_values arr = map (\<lambda>a. \<lparr>fc_typ = Reserved, fc_frames = pmr_frames a\<rparr>) areas"
    by (auto simp: reserved_slots_def split: if_splits)
qed

lemma initial_inv:
  assumes "no_overlaps (ps @ array_values rl)" "\<forall>p \<in> set ps. good_chunk p" "\<forall>c \<in> set (array_values rl). good_chunk c"
  shows "alloc_inv api \<lparr>free_general = sarb_new (fst (slots ps)), free_reserved = sarb_new rl,
    general_regions = sarb_new (fst (slots ps)), reserved_regions = sarb_new rl\<rparr> {#}"
proof -
  have "\<forall>x. piece_owners x ps + piece_owners x (array_values rl) \<le> 1"
    using assms(1) by (simp add: no_overlaps_owners)
  then show ?thesis
    using assms(2,3)
    by (simp add: alloc_inv_def free_ranges_def region_ranges_def chunk_ranges_def good_list_def
        piece_owners_def)
qed

lemma frame_init_inv:
  assumes "frame_init api st0 free_areas reserved_areas = Some (Ok cb, st)"
    and "\<forall>a \<in> set free_areas. r_end (pmr_frames a) \<le> MAX_FRAME"
    and "\<forall>a \<in> set reserved_areas. r_start (pmr_frames a) \<le> r_end (pmr_frames a) \<and> r_end (pmr_frames a) \<le> MAX_FRAME"
  shows "alloc_inv api st {#}"
proof -
  obtain fl arr where f: "add_free_regions free_areas reserved_areas (slots []) = Some fl"
    and r: "reserved_slots reserved_areas = Some arr"
    and n: "no_overlaps (array_values (take (snd fl) (fst fl)) @ array_values (merge_reserved arr))"
    and st: "st = \<lparr>free_general = sarb_new (fst fl), free_reserved = sarb_new (merge_reserved arr),
      general_regions = sarb_new (fst fl), reserved_regions = sarb_new (merge_reserved arr)\<rparr>"
    using assms(1) by (auto simp: frame_init_def slots_Nil bind_eq_Some_conv Let_def split: if_splits)
  from add_free_regions_good [OF f assms(2)] obtain ps where
    ps: "fl = slots ps" "\<forall>p \<in> set ps. good_chunk p" by auto
  have "\<forall>c \<in> set (array_values arr). good_chunk c"
    using assms(3) reserved_slots_values [OF r] by (auto simp: good_chunk_def)
  then have "\<forall>c \<in> set (array_values (merge_reserved arr)). good_chunk c" by (rule merge_reserved_spec(2))
  from initial_inv [OF _ ps(2) this] n show ?thesis by (simp add: st ps(1))
qed

lemma add_free_regions_exact:
  assumes R: "good_reserved (map pmr_frames reserved_areas)"
    and "\<forall>a \<in> set areas. r_end (pmr_frames a) \<le> MAX_FRAME"
  shows "\<exists>ps. (\<forall>fl. add_free_regions areas reserved_areas fl = push_all fl ps) \<and>
    (\<forall>x. piece_owners x ps =
      owners x (mset (map pmr_frames areas)) * of_bool (uncovered (map pmr_frames reserved_areas) x)) \<and>
    length ps \<le> length areas * Suc (length reserved_areas)"
  using assms(2)
proof (induction areas)
  case (Cons a areas)
  let ?R = "map pmr_frames reserved_areas"
  from exact_pieces_all [OF R, of "r_end (pmr_frames a)" "r_start (pmr_frames a)"] Cons(2) obtain ps where
    ps: "exact_pieces ?R (r_end (pmr_frames a)) (r_start (pmr_frames a)) ?R ps" by auto
  from Cons obtain qs where
    q: "\<And>fl. add_free_regions areas reserved_areas fl = push_all fl qs"
      "\<And>x. piece_owners x qs = owners x (mset (map pmr_frames areas)) * of_bool (uncovered ?R x)"
      "length qs \<le> length areas * Suc (length reserved_areas)" by auto
  have "add_free_regions (a # areas) reserved_areas fl = push_all fl (ps @ qs)" for fl
  proof -
    have "check_and_add_free_region (pmr_frames a) fl reserved_areas = push_all fl ps"
      using ps unfolding check_and_add_free_region_def exact_pieces_def by blast
    moreover have "add_free_regions areas reserved_areas = (\<lambda>fl. push_all fl qs)" using q(1) by blast
    ultimately show ?thesis by (simp add: push_all_append)
  qed
  moreover have "piece_owners x (ps @ qs) =
      owners x (mset (map pmr_frames (a # areas))) * of_bool (uncovered ?R x)" for x
    using ps by (auto simp: q exact_pieces_def)
  moreover have "length (ps @ qs) \<le> length (a # areas) * Suc (length reserved_areas)"
  proof -
    have "regions_from s ?R \<le> length reserved_areas" for s
      using length_filter_le [of "\<lambda>r. s \<le> r_end r" ?R] by (simp add: regions_from_def)
    then have "length ps \<le> Suc (length reserved_areas)"
      using ps by (meson exact_pieces_def le_trans Suc_le_mono)
    with q(3) show ?thesis by simp
  qed
  ultimately show ?case by (intro exI [of _ "ps @ qs"]) blast
qed (auto intro: exI [of _ "[]"])

lemma count_outside: "a * of_bool (\<not> b) + of_bool b \<le> (1 :: nat) \<longleftrightarrow> b \<or> a \<le> 1"
  by (cases b) auto


end
