(* ===== verification/FrameProperties.thy ===== *)
theory FrameProperties
  imports FrameInit
begin

text \<open>
  The properties of the frame allocator: one owner per frame over all histories, exactness of
  allocation at any and at a given address, conservation of frames over allocation and release,
  the overlap query and where it fails, splitting and merging.
\<close>

section \<open>Heap mode: releasing never fails\<close>

definition heap_mode :: "'t frame_allocator \<Rightarrow> bool" where
  "heap_mode st \<longleftrightarrow> (\<exists>t. free_general st = RBTree t) \<and> (\<exists>t. free_reserved st = RBTree t)"

text \<open>\<open>st'\<close> is \<open>st\<close> with one more range in its free lists.\<close>

definition freed ::
  "(fchunk, 't, 'c) rbtree_api \<Rightarrow> 't frame_allocator \<Rightarrow> chunk_range \<Rightarrow> 't frame_allocator \<Rightarrow> bool" where
  "freed api st r st' \<longleftrightarrow>
     (\<forall>x. owners x (free_ranges api st') = owners x (free_ranges api st) + of_bool (x \<in> chunks r)) \<and>
     heap_mode st' \<and> general_regions st' = general_regions st \<and> reserved_regions st' = reserved_regions st"

context frame_tree
begin

lemma freed_insert:
  assumes "heap_mode st"
  shows "freed api st (fc_frames c) (st\<lparr>free_general := snd (sarb_insert api (free_general st) c)\<rparr>)"
    and "freed api st (fc_frames c) (st\<lparr>free_reserved := snd (sarb_insert api (free_reserved st) c)\<rparr>)"
    and "insert_unwrap api (free_general st) c = Some (snd (sarb_insert api (free_general st) c))"
    and "insert_unwrap api (free_reserved st) c = Some (snd (sarb_insert api (free_reserved st) c))"
proof -
  obtain t1 t2 where t: "free_general st = RBTree t1" "free_reserved st = RBTree t2"
    using assms by (auto simp: heap_mode_def)
  obtain c1 u1 where i1: "sarb_insert api (RBTree t1) c = (Ok c1, RBTree u1)" using insert_RBTree_Ok by blast
  obtain c2 u2 where i2: "sarb_insert api (RBTree t2) c = (Ok c2, RBTree u2)" using insert_RBTree_Ok by blast
  from contents_insert [OF i1] contents_insert [OF i2]
  show "freed api st (fc_frames c) (st\<lparr>free_general := snd (sarb_insert api (free_general st) c)\<rparr>)"
    "freed api st (fc_frames c) (st\<lparr>free_reserved := snd (sarb_insert api (free_reserved st) c)\<rparr>)"
    by (simp_all add: freed_def heap_mode_def t i1 i2 free_ranges_def chunk_ranges_def)
  show "insert_unwrap api (free_general st) c = Some (snd (sarb_insert api (free_general st) c))"
    "insert_unwrap api (free_reserved st) c = Some (snd (sarb_insert api (free_reserved st) c))"
    by (simp_all add: insert_unwrap_def t i1 i2)
qed

lemma freed_empty: "heap_mode st \<Longrightarrow> chunks r = {} \<Longrightarrow> freed api st r st"
  by (simp add: freed_def)

lemma drop_deferred_chunk_freed:
  assumes "heap_mode st" "bounded_range (fc_frames c)" "chunks (fc_frames c) \<noteq> {} \<Longrightarrow> fc_typ c \<noteq> Unknown"
  obtains st' where "drop_deferred_chunk api st c = Some st'" "freed api st (fc_frames c) st'"
proof -
  have e: "size_in_chunks (fc_frames c) = 0 \<longleftrightarrow> chunks (fc_frames c) = {}"
    using assms(2) size_in_chunks_eq_0 bounded_not_max by (auto simp: bounded_range_def)
  show thesis
  proof (cases "size_in_chunks (fc_frames c) = 0")
    case True
    then show thesis using that [of st] e freed_empty [OF assms(1)] by (simp add: drop_deferred_chunk_def)
  next
    case False
    then have "fc_typ c \<noteq> Unknown" using assms(3) e by blast
    then show thesis
      using that False freed_insert [OF assms(1)]
      by (cases "fc_typ c") (auto simp: drop_deferred_chunk_def word_greater_zero_iff)
  qed
qed

lemma drop_allocated_frames_freed:
  assumes "heap_mode st" "bounded_range r"
  obtains st' where "drop_allocated_frames api st r = Some st'" "freed api st r st'"
proof -
  have e: "size_in_chunks r = 0 \<longleftrightarrow> chunks r = {}"
    using assms(2) size_in_chunks_eq_0 bounded_not_max by (auto simp: bounded_range_def)
  obtain b where "contains_any api (reserved_regions st) r = Some b" using contains_any_returns by blast
  then show thesis
    using that e freed_empty [OF assms(1), of r]
      freed_insert(1) [OF assms(1), of "\<lparr>fc_typ = Free, fc_frames = r\<rparr>"]
      freed_insert(2) [OF assms(1), of "\<lparr>fc_typ = Reserved, fc_frames = r\<rparr>"]
    by (cases "size_in_chunks r = 0"; cases b) (auto simp: drop_allocated_frames_def)
qed

lemma drop_deferred_freed:
  assumes "heap_mode st" "carve c f n af act" "fc_typ c \<noteq> Unknown"
  obtains st' where "drop_deferred api st act = Some st'" "heap_mode st'"
    "\<And>x. owners x (free_ranges api st') = owners x (free_ranges api st) + owners x (action_ranges act)"
proof -
  have b: "bounded_range (fc_frames (free1 act))" "bounded_range (fc_frames (free2 act))"
    using assms(2) by (auto simp: carve_def action_ranges_def)
  have ty: "chunks (fc_frames d) \<noteq> {} \<Longrightarrow> fc_typ d \<noteq> Unknown" if "d \<in> {free1 act, free2 act}" for d
    using that assms(2,3) unfolding carve_def by metis
  obtain st1 where 1: "drop_deferred_chunk api st (free1 act) = Some st1" "freed api st (fc_frames (free1 act)) st1"
    using drop_deferred_chunk_freed [OF assms(1) b(1)] ty by blast
  then have "heap_mode st1" by (simp add: freed_def)
  then obtain st2 where 2: "drop_deferred_chunk api st1 (free2 act) = Some st2" "freed api st1 (fc_frames (free2 act)) st2"
    using drop_deferred_chunk_freed [OF _ b(2)] ty by blast
  show thesis
    by (rule that [of st2]) (use 1 2 in \<open>simp_all add: drop_deferred_def freed_def action_ranges_def\<close>)
qed

end

lemma allocate_from_chosen_chunk_list:
  "allocate_from_chosen_chunk api f n c list r = Some (x, l) \<Longrightarrow> l = snd (ref_remove api list r)"
  by (cases "ref_remove api list r") (auto simp: allocate_from_chosen_chunk_def bind_eq_Some_conv)

lemma find_any_chunk_tree:
  assumes "find_any_chunk api (RBTree t) n = Some (r, l)"
  shows "\<exists>t'. l = RBTree t'"
proof -
  have "\<exists>t'. snd (ref_remove api (RBTree t) c) = RBTree t'" for c
    by (cases c) (auto simp: ref_remove_def split: prod.splits)
  with assms show ?thesis
    by (auto simp: find_any_chunk_def Let_def bind_eq_Some_conv
        split: option.splits prod.splits dest!: allocate_from_chosen_chunk_list)
qed

interpretation list_frames: frame_tree "list_rbtree fc_start" list_pos
  by (rule frame_tree.intro) (rule list_rbtree.rbtree_axioms)

section \<open>Properties\<close>


text \<open>Allocation at any address (C10). In a state that satisfies the invariant the call returns. It
  succeeds exactly if some chunk of the general list has enough frames; then it hands out exactly
  \<open>n\<close> frames, all of them from the general list, and each frame of the list is afterwards in the
  list, in the allocation or in the deferred action, once; otherwise it reports that the address
  space is exhausted and changes nothing.\<close>

theorem allocate_any_exact:
  assumes "frame_tree api pos" "alloc_inv api st H" "n \<noteq> 0"
  shows "(\<exists>af act st'. allocate_frames_deferred api st None n = Some (Ok (af, act), st') \<and>
            (\<exists>c \<in> set (sarb_iter api (free_general st)). fits n c) \<and>
            card (chunks af) = unat n \<and>
            (\<forall>x. owners x (chunk_ranges api (free_general st)) =
               owners x (chunk_ranges api (free_general st')) + owners x {#af#} + owners x (action_ranges act)) \<and>
            free_reserved st' = free_reserved st \<and> alloc_inv api st' (add_mset af (action_ranges act + H))) \<or>
         allocate_frames_deferred api st None n = Some (Err ''out of physical address space'', st) \<and>
            (\<forall>c \<in> set (sarb_iter api (free_general st)). \<not> fits n c)"
proof -
  have b: "\<forall>c \<in> set (sarb_iter api (free_general st)). fc_end c \<le> MAX_FRAME"
    using assms(2) good_list_bounded unfolding alloc_inv_def by blast
  from frame_tree.find_any_chunk_cases [OF assms(1,3) b] show ?thesis
  proof cases
    case (1 c af act l)
    have run: "allocate_frames_deferred api st None n = Some (Ok (af, act), st\<lparr>free_general := l\<rparr>)"
      using assms(3) 1(1) by (simp add: allocate_frames_deferred_def)
    have "request_safe api st None n" by (simp add: request_safe_def)
    from frame_tree.allocate_frames_deferred_inv [OF assms(1,2) this run]
    have inv: "alloc_inv api (st\<lparr>free_general := l\<rparr>) (add_mset af (action_ranges act + H))" by simp
    have "c \<in> set (sarb_iter api (free_general st))" using arg_cong [OF 1(2), of set_mset] by auto
    moreover have "owners x (chunk_ranges api (free_general st)) =
        owners x (chunk_ranges api l) + owners x {#af#} + owners x (action_ranges act)" for x
      using 1(2) owners_carved_from [OF carved_from_single [OF 1(4)], of x] by (simp add: chunk_ranges_def)
    moreover have "card (chunks af) = unat n" using 1(4) unfolding carve_def by blast
    ultimately show ?thesis using run inv 1(3) by (intro disjI1 exI [of _ af] exI [of _ act]) auto
  next
    case 2
    then show ?thesis using assms(3) by (simp add: allocate_frames_deferred_def)
  qed
qed


text \<open>Allocating and releasing loses no frame (C14). Once the lists are trees, \<open>allocate_frames\<close>
  followed by dropping the allocation returns without a panic and leaves every frame of the free
  lists exactly as often in them as before.\<close>

theorem allocate_release_conserves:
  assumes "frame_tree api pos" "alloc_inv api st H" "heap_mode st"
    and "allocate_frames api st n = Some (Some af, st1)"
  shows "card (chunks af) = unat n \<and>
    (\<forall>x. owners x (free_ranges api st) = owners x (free_ranges api st1) + owners x {#af#}) \<and>
    (\<exists>st2. drop_allocated_frames api st1 af = Some st2 \<and>
       (\<forall>x. owners x (free_ranges api st2) = owners x (free_ranges api st)))"
proof -
  have n: "n \<noteq> 0" using assms(4) by (auto simp: allocate_frames_def drop_action_def allocate_frames_deferred_def)
  have b: "\<forall>c \<in> set (sarb_iter api (free_general st)). fc_end c \<le> MAX_FRAME"
    using assms(2) good_list_bounded unfolding alloc_inv_def by blast
  from frame_tree.find_any_chunk_cases [OF assms(1) n b] show ?thesis
  proof cases
    case (1 c a act l)
    define st' where "st' = st\<lparr>free_general := l\<rparr>"
    obtain t where "l = RBTree t"
      using 1(1) assms(3) find_any_chunk_tree by (metis heap_mode_def)
    then have h: "heap_mode st'" using assms(3) by (simp add: st'_def heap_mode_def)
    have "fc_typ c \<noteq> Unknown" using 1(3) by (simp add: fits_def)
    then obtain st'' where d: "drop_deferred api st' act = Some st''" "heap_mode st''"
      "\<And>x. owners x (free_ranges api st'') = owners x (free_ranges api st') + owners x (action_ranges act)"
      using frame_tree.drop_deferred_freed [OF assms(1) h 1(4)] by blast
    have eq: "a = af" "st'' = st1"
      using assms(4) n 1(1) d(1)
      by (auto simp: allocate_frames_def drop_action_def allocate_frames_deferred_def st'_def)
    have "owners x (free_ranges api st) =
        owners x (free_ranges api st') + owners x {#af#} + owners x (action_ranges act)" for x
      using 1(2) owners_carved_from [OF carved_from_single [OF 1(4)], of x]
      by (simp add: chunk_ranges_def free_ranges_def st'_def eq)
    with d(3) have o: "owners x (free_ranges api st) = owners x (free_ranges api st1) + owners x {#af#}" for x
      by (simp add: eq)
    have "card (chunks af) = unat n" "bounded_range af" using 1(4) unfolding carve_def eq by blast+
    moreover obtain st2 where "drop_allocated_frames api st1 af = Some st2" "freed api st1 af st2"
      using frame_tree.drop_allocated_frames_freed [OF assms(1) _ \<open>bounded_range af\<close>] d(2) eq by blast
    ultimately show ?thesis using o by (auto simp: freed_def)
  next
    case 2
    then show ?thesis using assms(4) n
      by (simp add: allocate_frames_def drop_action_def allocate_frames_deferred_def)
  qed
qed

text \<open>The overlap query. It returns in every case. On a list without overlapping or empty
  chunks it finds an overlap exactly if there is one and it is not missed.\<close>

lemma contains_any_exact:
  assumes "frame_tree api pos" "wf_list api list" "\<not> missed_overlap api list frames"
  shows "contains_any api list frames =
    Some (\<exists>c \<in> set (sarb_iter api list). chunks (fc_frames c) \<inter> chunks frames \<noteq> {})"
proof -
  obtain b where b: "contains_any api list frames = Some b"
    using frame_tree.contains_any_returns [OF assms(1)] by blast
  show ?thesis
  proof (cases b)
    case True
    with b frame_tree.contains_any_True [OF assms(1), of list frames] show ?thesis by simp
  next
    case False
    with b have "contains_any api list frames = Some False" by simp
    from frame_tree.contains_any_False [OF assms(1) this assms(3,2)]
    have "\<forall>c \<in> set (sarb_iter api list). chunks (fc_frames c) \<inter> chunks frames = {}" by blast
    with b False show ?thesis by simp
  qed
qed

text \<open>Where the query fails. In a tree in which every chunk starts above the first queried frame
  \<open>contains_any\<close> answers \<open>false\<close> whatever the range overlaps, and \<open>add_reserved_region\<close> adds the
  range.\<close>

lemma overlap_missed_below:
  assumes "frame_tree api pos" "\<forall>c \<in> set (rb_iter api t). r_start frames < fc_start c"
  shows "contains_any api (RBTree t) frames = Some False \<and>
    (\<exists>list'. add_reserved_region api (RBTree t) frames = Some (Ok frames, list'))"
proof -
  have "rbtree api fc_start pos" using assms(1) by (simp add: frame_tree_def)
  then have "pos t (rb_upper_bound api t (Included (r_start frames))) = None"
  proof (rule rbtree.pos_upper_bound [THEN trans])
    show "last_below fc_start (Included (r_start frames)) (rb_iter api t) = None"
      using assms(2) by (cases "rb_iter api t") (auto simp: last_below_def)
  qed
  then have "overlaps_from api t frames (rb_upper_bound api t (Included (r_start frames))) = Some False"
    by (simp add: frame_tree.overlaps_from_eq [OF assms(1)])
  then show ?thesis
    by (auto simp: contains_any_def add_reserved_region_def sarb_insert_def split: prod.splits)
qed

context frame_tree
begin

lemma find_specific_above:
  assumes "\<forall>c \<in> set (rb_iter api t). f < fc_start c"
  shows "find_specific_chunk api (RBTree t) f n = Some (Err (AddressNotFound f n), RBTree t)"
proof -
  have "last_below fc_start (Included f) (rb_iter api t) = None"
    using assms by (cases "rb_iter api t") (auto simp: last_below_def)
  then show ?thesis by (simp add: find_specific_chunk_def get_pos pos_upper_bound)
qed

lemma find_specific_lowest:
  assumes "n \<noteq> 0" "chunk_add f (n - 1) \<le> MAX_FRAME" "f \<le> chunk_add f (n - 1)"
    and iter: "mset (rb_iter api t) = add_mset \<lparr>fc_typ = Reserved, fc_frames = range_new f (chunk_add f (n - 1))\<rparr> M"
    and above: "\<forall>c \<in># M. f < fc_start c"
  obtains af act t' where "find_specific_chunk api (RBTree t) f n = Some (Ok (af, act), RBTree t')"
    "carve \<lparr>fc_typ = Reserved, fc_frames = range_new f (chunk_add f (n - 1))\<rparr> f n af act" "mset (rb_iter api t') = M"
proof -
  let ?c = "\<lparr>fc_typ = Reserved, fc_frames = range_new f (chunk_add f (n - 1))\<rparr>"
  let ?cur = "rb_upper_bound api t (Included f)"
  have c: "?c \<in> set (rb_iter api t)" using arg_cong [OF iter, of set_mset] by auto
  then obtain i where i: "last_below fc_start (Included f) (rb_iter api t) = Some i"
    using last_below_None [OF sorted_iter, of "Included f" t ?c]
    by (cases "last_below fc_start (Included f) (rb_iter api t)") auto
  note lb = last_below_Some [OF sorted_iter i]
  have "rb_iter api t ! i \<in> set (rb_iter api t)" "fc_start (rb_iter api t ! i) \<le> f"
    using lb(1) lb(2) [of i] by simp_all
  then have "rb_iter api t ! i = ?c"
    using above arg_cong [OF iter, of set_mset] by (auto simp: not_less [symmetric])
  then have g: "cur_get api t ?cur = Some ?c" by (simp add: get_pos pos_upper_bound i)
  obtain af act where a: "allocate_from_chosen_chunk api f n ?c (RBTree t) (RBTreeRef ?cur) =
      Some ((af, act), snd (ref_remove api (RBTree t) (RBTreeRef ?cur)))" "carve ?c f n af act"
    by (rule allocate_from_chosen_chunk_ok [of n ?c f api "RBTree t" "RBTreeRef ?cur"]) (use assms(1,2) in auto)
  obtain t' where t': "snd (ref_remove api (RBTree t) (RBTreeRef ?cur)) = RBTree t'"
    by (cases "cur_remove api t ?cur") (auto simp: ref_remove_def)
  show thesis
  proof (rule that [of af act t'])
    show "find_specific_chunk api (RBTree t) f n = Some (Ok (af, act), RBTree t')"
      using g a(1) t' assms(3) by (simp add: find_specific_chunk_def Let_def)
    show "mset (rb_iter api t') = M" using ref_remove_cursor [OF g] t' iter by simp
  qed (rule a(2))
qed

text \<open>In heap mode every free chunk lies in a region, so it starts above a frame below all regions.\<close>

lemma free_above:
  assumes inv: "alloc_inv api st H" and c: "c \<in># contents api (free_general st) + contents api (free_reserved st)"
    and above: "\<forall>d \<in># contents api (general_regions st) + contents api (reserved_regions st). f < fc_start d"
  shows "f < fc_start c"
proof -
  have "good_chunk c" using inv c by (auto simp: alloc_inv_def good_list_def simp del: sarb_iter_simps set_mset_mset)
  then have "fc_start c \<in> chunks (fc_frames c)" by (simp add: good_chunk_def)
  then have "owners (fc_start c) (free_ranges api st) \<noteq> 0"
    using c by (auto simp: free_ranges_def chunk_ranges_def owners_eq_0 simp del: sarb_iter_simps set_mset_mset)
  moreover have "owners (fc_start c) (free_ranges api st) \<le> owners (fc_start c) (region_ranges api st)"
    using inv unfolding alloc_inv_def by (meson add_leD1)
  ultimately have "owners (fc_start c) (region_ranges api st) \<noteq> 0" by linarith
  then obtain d where "d \<in># contents api (general_regions st) + contents api (reserved_regions st)" "fc_start d \<le> fc_start c"
    by (auto simp: region_ranges_def chunk_ranges_def owners_eq_0 simp del: sarb_iter_simps set_mset_mset)
  then show ?thesis using above by (meson less_le_trans)
qed

end

text \<open>The path through \<open>allocate_frames_deferred\<close> that makes the request a new reserved region.\<close>

lemma allocate_as_new_region:
  assumes n: "n \<noteq> 0" and f: "f = containing_address paddr" "m = chunk_add f (n - 1)"
    and nf: "find_specific_chunk api (free_reserved st) f n = Some (Err (AddressNotFound f n), free_reserved st)"
    "find_specific_chunk api (free_general st) f n = Some (Err (AddressNotFound f n), free_general st)"
    and cg: "contains_any api (general_regions st) (range_new f m) = Some False"
    and rr: "add_reserved_region api (reserved_regions st) (range_new f m) = Some (Ok (range_new f m), rr)"
    and fr: "add_reserved_region api (free_reserved st) (range_new f m) = Some (Ok (range_new f m), fr)"
    and r: "find_specific_chunk api fr f n = Some (Ok (af, act), fr')"
  shows "allocate_frames_deferred api st (Some paddr) n = Some (Ok (af, act), st\<lparr>reserved_regions := rr, free_reserved := fr'\<rparr>)"
proof -
  have "allocate_new_reserved api st f n f n = Some (Ok (af, act), st\<lparr>reserved_regions := rr, free_reserved := fr'\<rparr>)"
    unfolding allocate_new_reserved_def f(2)[symmetric] Let_def
    by (simp add: cg rr fr r)
  then show ?thesis using n
    by (simp add: allocate_frames_deferred_def nf flip: f(1))
qed

text \<open>What a request below all regions does (C18). In heap mode, let every region begin above the first requested frame.
  Then a request at that frame succeeds, whatever it overlaps: the overlap query looks at no region, and the
  requested frames become a new reserved region. Each requested frame has one owner more than before, so
  every requested frame that was free or that a caller held has two owners afterwards.\<close>

theorem missed_overlap_double_owner:
  assumes tree: "frame_tree api pos" and inv: "alloc_inv api st H" and heap: "heap_mode st"
    and regions: "general_regions st = RBTree gt" "reserved_regions st = RBTree rt"
    and f: "f = containing_address paddr" "m = chunk_add f (n - 1)" and n: "n \<noteq> 0" and m: "m \<le> MAX_FRAME"
    and above: "\<forall>c \<in> set (rb_iter api gt) \<union> set (rb_iter api rt). f < fc_start c"
  shows "\<exists>af act st'. allocate_frames_deferred api st (Some paddr) n = Some (Ok (af, act), st') \<and>
    chunks af = {f..m} \<and>
    (\<forall>x. owners x (free_ranges api st') + owners x (add_mset af (action_ranges act + H)) =
         owners x (free_ranges api st) + owners x H + of_bool (x \<in> chunks af))"
proof -
  obtain tg tr where t: "free_general st = RBTree tg" "free_reserved st = RBTree tr"
    using heap by (auto simp: heap_mode_def)
  have free: "\<forall>c \<in> set (rb_iter api tg) \<union> set (rb_iter api tr). f < fc_start c"
    using frame_tree.free_above [OF tree inv] above by (auto simp: t regions)
  let ?c = "\<lparr>fc_typ = Reserved, fc_frames = range_new f m\<rparr>"
  have low: "\<forall>c \<in> set (rb_iter api u). r_start (range_new f m) < fc_start c" if "u \<in> {gt, rt, tr}" for u
    using that above free by auto
  obtain rr where rr: "add_reserved_region api (RBTree rt) (range_new f m) = Some (Ok (range_new f m), rr)"
    using overlap_missed_below [OF tree low] by blast
  obtain fr where fr: "add_reserved_region api (RBTree tr) (range_new f m) = Some (Ok (range_new f m), fr)"
    using overlap_missed_below [OF tree low] by blast
  have cg: "contains_any api (RBTree gt) (range_new f m) = Some False"
    using overlap_missed_below [OF tree low] by blast
  obtain u where u: "fr = RBTree u"
    using fr
    by (auto simp: add_reserved_region_def sarb_insert_def bind_eq_Some_conv split: if_splits prod.splits)
  have iter: "mset (rb_iter api u) = add_mset ?c (mset (rb_iter api tr))"
    using frame_tree.add_reserved_region_eq [OF tree fr] by (simp add: u)
  have fm: "f \<le> m" using chunk_add_count(1) [OF n, of f] bounded_less_MAX_PAGE [OF m] by (simp add: f)
  obtain af act u' where r: "find_specific_chunk api (RBTree u) f n = Some (Ok (af, act), RBTree u')"
    "carve ?c f n af act" "mset (rb_iter api u') = mset (rb_iter api tr)"
    by (rule frame_tree.find_specific_lowest [OF tree n m [unfolded f(2)] fm [unfolded f(2)] iter [unfolded f(2)], folded f(2)])
      (use free in auto)
  have nf: "find_specific_chunk api (free_reserved st) f n = Some (Err (AddressNotFound f n), free_reserved st)"
    "find_specific_chunk api (free_general st) f n = Some (Err (AddressNotFound f n), free_general st)"
    using frame_tree.find_specific_above [OF tree, of _ f n] free by (auto simp: t)
  let ?st = "st\<lparr>reserved_regions := rr, free_reserved := RBTree u'\<rparr>"
  have "allocate_frames_deferred api st (Some paddr) n = Some (Ok (af, act), ?st)"
    by (rule allocate_as_new_region [OF n f nf, where fr = "RBTree u"]) (simp_all add: cg rr fr [unfolded u] r(1) regions t)
  moreover have "free_ranges api ?st = free_ranges api st"
    by (simp add: free_ranges_def chunk_ranges_def t r(3))
  moreover have af: "af = range_new f m" using r(2) by (simp add: carve_def flip: f)
  moreover have "owners x {#af#} = owners x {#af#} + owners x (action_ranges act)" for x
    using r(2) af unfolding carve_def by (metis fchunk.select_convs(2))
  then have "owners x (action_ranges act) = 0" for x by (metis add_cancel_left_right)
  ultimately show ?thesis
    by (intro exI [of _ af] exI [of _ act] exI [of _ ?st]) (simp add: add.commute)
qed

text \<open>Splitting and merging. Splitting allocated frames strictly inside yields the two halves,
  and merging the halves, in either order, yields the original range.\<close>

lemma split_merge_roundtrip:
  assumes "bounded_range a" "r_start a < at_frame" "at_frame \<le> r_end a"
  shows "\<exists>f s. allocated_frames_split a at_frame = Ok (f, s) \<and>
    chunks f = {r_start a..<at_frame} \<and> chunks s = {at_frame..r_end a} \<and>
    allocated_frames_merge f s = Ok (range_new (r_start a) (r_end a)) \<and>
    allocated_frames_merge s f = Ok (range_new (r_start a) (r_end a))"
proof -
  have nz: "at_frame \<noteq> 0" using assms(2) by (rule word_neq_0_if_less)
  have b: "r_end a \<le> MAX_FRAME" using assms(1) by (simp add: bounded_range_def)
  have lt: "at_frame < r_end a + 1" using assms(3) bounded_not_max [OF b] by (simp add: word_less_succ_iff)
  have le: "at_frame - 1 < at_frame" using nz by (simp add: word_pred_less_iff)
  then have "at_frame - 1 \<le> r_end a" using assms(3) by simp
  then have "at_frame - 1 \<le> MAX_FRAME" using b by simp
  then have a1: "chunk_add (at_frame - 1) 1 = at_frame" by (simp add: chunk_add_bounded)
  have "allocated_frames_split a at_frame =
      Ok (range_new (r_start a) (at_frame - 1), range_new at_frame (r_end a))"
    using assms(2) lt \<open>at_frame - 1 \<le> r_end a\<close>
    by (auto simp: allocated_frames_split_def Let_def chunk_sub_1 [OF nz] chunk_add_bounded [OF b])
  moreover have "r_start a \<noteq> r_end a + 1" using assms(2) lt by auto
  ultimately show ?thesis
    by (auto simp: allocated_frames_merge_def a1 chunk_add_bounded [OF b] word_Icc_pred [OF nz])
qed

section \<open>Examples\<close>

text \<open>One hundred frames, of which ten are reserved, on the list instance of the tree.\<close>

definition example_uninit :: "fchunk list frame_allocator" where
  "example_uninit = \<lparr>free_general = sarb_empty, free_reserved = sarb_empty,
     general_regions = sarb_empty, reserved_regions = sarb_empty\<rparr>"

definition example_free :: "physical_memory_region list" where
  "example_free = [\<lparr>pmr_frames = range_new 0 99, pmr_typ = Free\<rparr>]"

definition example_reserved :: "physical_memory_region list" where
  "example_reserved = [\<lparr>pmr_frames = range_new 10 19, pmr_typ = Reserved\<rparr>]"

definition example_init :: "fchunk list frame_allocator" where
  "example_init = snd (the (frame_init (list_rbtree fc_start) example_uninit example_free example_reserved))"

definition example_heap :: "fchunk list frame_allocator" where
  "example_heap = frame_convert_to_heap_allocated (list_rbtree fc_start) example_init"

lemma frame_init_Ok:
  assumes "map_option (\<lambda>(r, st). isl r) (frame_init api st free_areas reserved_areas) = Some False"
  shows "frame_init api st free_areas reserved_areas =
    Some (Ok into_allocated_frames, snd (the (frame_init api st free_areas reserved_areas)))"
  using assms by (auto simp: frame_init_def bind_eq_Some_conv Let_def split: if_splits)

lemma example_init_run:
  "frame_init (list_rbtree fc_start) example_uninit example_free example_reserved =
     Some (Ok into_allocated_frames, example_init)"
  unfolding example_init_def by (rule frame_init_Ok) code_simp

lemma example_areas:
  "\<forall>a \<in> set example_free. r_end (pmr_frames a) \<le> MAX_FRAME"
  "\<forall>a \<in> set example_reserved. r_start (pmr_frames a) \<le> r_end (pmr_frames a) \<and> r_end (pmr_frames a) \<le> MAX_FRAME"
  by (simp_all add: example_free_def example_reserved_def MAX_FRAME_eq)

lemma example_inv:
  "alloc_inv (list_rbtree fc_start) example_init {#}" "alloc_inv (list_rbtree fc_start) example_heap {#}"
  using frame_init_inv [OF example_init_run example_areas] list_frames.convert_inv
  by (simp_all add: example_heap_def)

text \<open>The values of a call that succeeds.\<close>

abbreviation ok_value :: "(('a, 'e) result \<times> 's) option \<Rightarrow> 'a" where
  "ok_value r \<equiv> (case r of Some (Inr a, st) \<Rightarrow> a)"

lemma ok_valueI:
  "map_option (\<lambda>(r, st). isl r) r = Some False \<Longrightarrow> r = Some (Ok (ok_value r), snd (the r))"
  by (auto simp: isl_def split: sum.splits)

definition example_any :: "((allocated_frames \<times> deferred_alloc_action, string) result \<times> fchunk list frame_allocator) panics" where
  "example_any = allocate_frames_deferred (list_rbtree fc_start) example_init None 4"

text \<open>Frames 100 to 199 only; a request for frames 50 to 149 in heap mode.\<close>

definition example_above :: "fchunk list frame_allocator" where
  "example_above = frame_convert_to_heap_allocated (list_rbtree fc_start) (snd (the (frame_init (list_rbtree fc_start)
     example_uninit [\<lparr>pmr_frames = range_new 100 199, pmr_typ = Free\<rparr>] [])))"

definition example_at :: "((allocated_frames \<times> deferred_alloc_action, string) result \<times> fchunk list frame_allocator) panics" where
  "example_at = allocate_frames_deferred (list_rbtree fc_start) example_init (Some 0xC000) 3"

lemma example_runs:
  "allocate_frames_deferred (list_rbtree fc_start) example_init None 4 =
     Some (Ok (ok_value example_any), snd (the example_any))"
  "allocate_frames_deferred (list_rbtree fc_start) example_init (Some 0xC000) 3 =
     Some (Ok (ok_value example_at), snd (the example_at))"
  unfolding example_any_def example_at_def by (rule ok_valueI, code_simp)+

lemma example_at_safe: "request_safe (list_rbtree fc_start) example_init (Some 0xC000) 3"
  by code_simp


theorem allocate_any_exact_witness:
  "\<exists>af act st'. allocate_frames_deferred (list_rbtree fc_start) example_init None 4 = Some (Ok (af, act), st') \<and>
     card (chunks af) = 4"
  using allocate_any_exact [OF list_frames.frame_tree_axioms example_inv(1), of 4] example_runs(1)
  by auto


definition example_release :: "(allocated_frames option \<times> fchunk list frame_allocator) panics" where
  "example_release = allocate_frames (list_rbtree fc_start) example_heap 4"

theorem allocate_release_conserves_witness:
  "\<exists>st2. drop_allocated_frames (list_rbtree fc_start) (snd (the example_release)) (range_new 20 23) = Some st2 \<and>
     (\<forall>x. owners x (free_ranges (list_rbtree fc_start) st2) = owners x (free_ranges (list_rbtree fc_start) example_heap))"
proof -
  have "map_option fst example_release = Some (Some (range_new 20 23))" by code_simp
  then have "allocate_frames (list_rbtree fc_start) example_heap 4 =
      Some (Some (range_new 20 23), snd (the example_release))"
    by (auto simp: example_release_def)
  moreover have "heap_mode example_heap"
    by (auto simp: heap_mode_def example_heap_def frame_convert_to_heap_allocated_def
        sarb_convert_to_heap_allocated_def split: static_array_rbtree.splits)
  ultimately show ?thesis
    using allocate_release_conserves [OF list_frames.frame_tree_axioms example_inv(2), of 4] by blast
qed

text \<open>Frames 50 to 149 overlap the only region, 100 to 199; the query does not see it.\<close>

theorem missed_overlap_double_owner_witness:
  "\<exists>af act st'. allocate_frames_deferred (list_rbtree fc_start) example_above (Some 0x32000) 100 = Some (Ok (af, act), st') \<and>
     owners 120 (free_ranges (list_rbtree fc_start) st') + owners 120 (add_mset af (action_ranges act)) = 2"
proof -
  let ?api = "list_rbtree fc_start" and ?areas = "[\<lparr>pmr_frames = range_new 100 199, pmr_typ = Free\<rparr>]"
  have "frame_init ?api example_uninit ?areas [] =
      Some (Ok into_allocated_frames, snd (the (frame_init ?api example_uninit ?areas [])))"
    by (rule frame_init_Ok) code_simp
  from frame_init_inv [OF this] have inv: "alloc_inv ?api example_above {#}"
    unfolding example_above_def by (intro list_frames.convert_inv) (simp add: MAX_FRAME_eq)
  have trees: "\<exists>t. sarb_convert_to_heap_allocated ?api l = RBTree t" for l
    by (cases l) (simp_all add: sarb_convert_to_heap_allocated_def)
  then have heap: "heap_mode example_above" by (simp add: heap_mode_def example_above_def frame_convert_to_heap_allocated_def)
  obtain gt rt where r: "general_regions example_above = RBTree gt" "reserved_regions example_above = RBTree rt"
    using trees unfolding example_above_def frame_convert_to_heap_allocated_def frame_allocator.simps by metis
  have iter: "sarb_iter ?api (free_general example_above) = [\<lparr>fc_typ = Free, fc_frames = range_new 100 199\<rparr>]"
    "sarb_iter ?api (free_reserved example_above) = []"
    "sarb_iter ?api (general_regions example_above) = [\<lparr>fc_typ = Free, fc_frames = range_new 100 199\<rparr>]"
    "sarb_iter ?api (reserved_regions example_above) = []"
    by code_simp+
  have 1: "owners 120 (free_ranges ?api example_above) = 1"
    unfolding free_ranges_def chunk_ranges_def iter by simp
  have above: "\<forall>c \<in> set (rb_iter ?api gt) \<union> set (rb_iter ?api rt). 50 < fc_start c"
    using iter(3,4) unfolding r sarb_iter_simps by simp
  have f: "50 = containing_address 0x32000" "149 = chunk_add 50 (100 - 1)"
    by (simp_all add: containing_address_def PAGE_SIZE_eq chunk_add_def MAX_PAGE_NUMBER_eq saturating_add_def)
  have bounds: "(100 :: usize) \<noteq> 0" "(149 :: usize) \<le> MAX_FRAME" by (simp_all add: MAX_FRAME_eq)
  obtain af act st' where a: "allocate_frames_deferred ?api example_above (Some 0x32000) 100 = Some (Ok (af, act), st')"
    "chunks af = {50..149}" "owners 120 (free_ranges ?api st') + owners 120 (add_mset af (action_ranges act + {#})) =
       owners 120 (free_ranges ?api example_above) + owners 120 {#} + of_bool (120 \<in> chunks af)"
    using missed_overlap_double_owner [OF list_frames.frame_tree_axioms inv heap r f bounds above] by blast
  have "owners 120 (free_ranges ?api st') + owners 120 (add_mset af (action_ranges act)) = 2"
    using a(3) unfolding a(2) 1 by simp
  with a(1) show ?thesis by blast
qed


end
