(* ===== verification/PageAllocator.thy ===== *)
theory PageAllocator
  imports Ownership
begin

text \<open>
  The allocator of virtual pages: \<^verbatim>\<open>src/kernel/page_allocator/src/lib.rs\<close>.

  A \<open>Chunk\<close> is a range of pages, ordered and compared by its first page. The static free list and
  the cell \<open>DESIGNATED_PAGES_LOW_END\<close> are the record \<open>page_allocator\<close>. As in the frame allocator,
  \<open>AllocatedPages\<close> and \<open>DeferredAllocAction\<close> are values that callers hold, panics are \<open>None\<close>, and
  loops over cursors are partial functions.
\<close>

section \<open>Data\<close>

type_synonym pchunk = chunk_range
type_synonym allocated_pages = chunk_range

record page_deferred_action =
  pfree1 :: pchunk
  pfree2 :: pchunk

datatype page_allocation_error =
    PageAddressNotFree page usize
  | PageOutOfAddressSpace usize
  | PageNotInitialized

fun page_allocation_error_str :: "page_allocation_error \<Rightarrow> string" where
  "page_allocation_error_str (PageAddressNotFree _ _) =
     ''address was in use or outside of this page allocator's range''"
| "page_allocation_error_str (PageOutOfAddressSpace _) = ''out of virtual address space''"
| "page_allocation_error_str PageNotInitialized = ''the page allocator has not yet been initialized''"

record 't page_allocator =
  designated_pages_low_end :: "page option"
  free_page_list :: "(pchunk, 't) static_array_rbtree"

definition DESIGNATED_PAGES_HIGH_START :: page where
  "DESIGNATED_PAGES_HIGH_START =
     containing_address (canonicalize_virtual_address UPCOMING_PAGE_TABLE_RECURSIVE_MEMORY_START)"

definition MIN_PAGE :: page where "MIN_PAGE = containing_address addr_zero"

definition MAX_PAGE :: page where
  "MAX_PAGE = containing_address (canonicalize_virtual_address MAX_VIRTUAL_ADDRESS)"

definition page_deferred_new :: "pchunk option \<Rightarrow> pchunk option \<Rightarrow> page_deferred_action" where
  "page_deferred_new f1 f2 =
     \<lparr>pfree1 = (case f1 of None \<Rightarrow> range_empty | Some c \<Rightarrow> c),
      pfree2 = (case f2 of None \<Rightarrow> range_empty | Some c \<Rightarrow> c)\<rparr>"

section \<open>Initialisation\<close>

definition initial_free_chunks :: "page \<Rightarrow> pchunk option list" where
  "initial_free_chunks designated_low_end =
     [Some (range_new (containing_address addr_zero) designated_low_end),
      Some (range_new (chunk_add designated_low_end 1) (chunk_sub DESIGNATED_PAGES_HIGH_START 1)),
      Some (range_new DESIGNATED_PAGES_HIGH_START
              (containing_address (canonicalize_virtual_address
                 (KERNEL_TEXT_START - ADDRESSABILITY_PER_P4_ENTRY - 1)))),
      Some (range_new (containing_address (canonicalize_virtual_address KERNEL_TEXT_START))
              (containing_address (canonicalize_virtual_address MAX_VIRTUAL_ADDRESS)))]
     @ replicate 28 None"

text \<open>\<open>Once::call_once\<close> keeps the value of the first call.\<close>

definition page_init :: "'t page_allocator \<Rightarrow> usize \<Rightarrow> ((unit, string) result \<times> 't page_allocator) panics" where
  "page_init st end_vaddr =
     do {
       assert_that (end_vaddr <
         canonicalize_virtual_address (DESIGNATED_PAGES_HIGH_START * PAGE_SIZE));
       let designated_low_end =
         (case designated_pages_low_end st of Some p \<Rightarrow> p | None \<Rightarrow> containing_address end_vaddr);
       Some (Ok (), st\<lparr>designated_pages_low_end := Some designated_low_end,
                       free_page_list := sarb_new (initial_free_chunks designated_low_end)\<rparr>)
     }"

section \<open>AllocatedPages\<close>

definition allocated_pages_empty :: allocated_pages where "allocated_pages_empty = range_empty"

definition allocated_pages_merge ::
  "allocated_pages \<Rightarrow> allocated_pages \<Rightarrow> (allocated_pages, allocated_pages) result" where
  "allocated_pages_merge self ap =
     (if r_start ap \<noteq> chunk_add (r_end self) 1 then Err ap
      else Ok (range_new (r_start self) (r_end ap)))"

definition allocated_pages_split ::
  "allocated_pages \<Rightarrow> page \<Rightarrow> (allocated_pages \<times> allocated_pages, allocated_pages) result" where
  "allocated_pages_split self at_page =
     (let end_of_first = chunk_sub at_page 1 in
      if at_page = r_start self \<and> at_page \<le> r_end self then
        Ok (range_empty, range_new at_page (r_end self))
      else if at_page = chunk_add (r_end self) 1 \<and> r_start self \<le> end_of_first then
        Ok (range_new (r_start self) (r_end self), range_empty)
      else if r_start self < at_page \<and> end_of_first \<le> r_end self then
        Ok (range_new (r_start self) end_of_first, range_new at_page (r_end self))
      else Err self)"

definition drop_allocated_pages ::
  "(pchunk, 't, 'c) rbtree_api \<Rightarrow> 't page_allocator \<Rightarrow> allocated_pages \<Rightarrow> 't page_allocator" where
  "drop_allocated_pages api st pages =
     (if size_in_chunks pages = 0 then st
      else st\<lparr>free_page_list := snd (sarb_insert api (free_page_list st) pages)\<rparr>)"

definition drop_page_chunk ::
  "(pchunk, 't, 'c) rbtree_api \<Rightarrow> 't page_allocator \<Rightarrow> pchunk \<Rightarrow> 't page_allocator panics" where
  "drop_page_chunk api st c =
     (if size_in_chunks c > 0 then
        (case sarb_insert api (free_page_list st) c of
           (Inr r, l) \<Rightarrow> Some (st\<lparr>free_page_list := l\<rparr>)
         | (Inl e, l) \<Rightarrow> None)
      else Some st)"

definition drop_page_deferred ::
  "(pchunk, 't, 'c) rbtree_api \<Rightarrow> 't page_allocator \<Rightarrow> page_deferred_action \<Rightarrow> 't page_allocator panics" where
  "drop_page_deferred api st act =
     do { st \<leftarrow> drop_page_chunk api st (pfree1 act); drop_page_chunk api st (pfree2 act) }"

section \<open>Searching\<close>

text \<open>The final sanity check compares chunks, that is their first pages.\<close>

definition adjust_chosen_chunk ::
  "(pchunk, 't, 'c) rbtree_api \<Rightarrow> page \<Rightarrow> usize \<Rightarrow> pchunk \<Rightarrow>
   (pchunk, 't) static_array_rbtree \<Rightarrow> 'c value_ref_mut \<Rightarrow>
   ((allocated_pages \<times> page_deferred_action) \<times> (pchunk, 't) static_array_rbtree) panics" where
  "adjust_chosen_chunk api start_page num_pages chosen_chunk list chosen_chunk_ref =
     (let new_allocation = range_new start_page (chunk_add start_page (num_pages - 1));
          before =
            (if start_page = MIN_PAGE then None
             else Some (range_new (r_start chosen_chunk) (chunk_sub (r_start new_allocation) 1)));
          after =
            (if r_end new_allocation = MAX_PAGE then None
             else Some (range_new (chunk_add (r_end new_allocation) 1) (r_end chosen_chunk)))
      in do {
        assert_that (case before of None \<Rightarrow> True
          | Some b \<Rightarrow> \<not> range_contains new_allocation (r_end b) \<and>
                      \<not> range_contains b (r_start new_allocation));
        assert_that (case after of None \<Rightarrow> True
          | Some a \<Rightarrow> \<not> range_contains new_allocation (r_start a) \<and>
                      \<not> range_contains a (r_end new_allocation));
        let (removed_chunk, list') = ref_remove api list chosen_chunk_ref;
        assert_that (map_option r_start removed_chunk = Some (r_start chosen_chunk));
        Some ((new_allocation, page_deferred_new before after), list')
      })"

text \<open>The loop that swallows the chunks right behind \<open>new_end_page\<close>.\<close>

partial_function (option) merge_contiguous ::
  "(pchunk, 't, 'c) rbtree_api \<Rightarrow> 't \<Rightarrow> 'c \<Rightarrow> page \<Rightarrow> ('t \<times> 'c \<times> page) option" where
  "merge_contiguous api tree cursor new_end_page =
     (case cur_get api tree cursor of
        None \<Rightarrow> Some (tree, cursor, new_end_page)
      | Some next_chunk \<Rightarrow>
          if chunk_sub (r_start next_chunk) 1 = new_end_page then
            (case cur_remove api tree cursor of
               (None, tree', cursor') \<Rightarrow> None
             | (Some removed, tree', cursor') \<Rightarrow>
                 merge_contiguous api tree' cursor' (r_end next_chunk))
          else Some (tree, cursor, new_end_page))"

definition page_find_specific_chunk ::
  "(pchunk, 't, 'c) rbtree_api \<Rightarrow> (pchunk, 't) static_array_rbtree \<Rightarrow> page \<Rightarrow> usize \<Rightarrow>
   ((allocated_pages \<times> page_deferred_action, page_allocation_error) result
     \<times> (pchunk, 't) static_array_rbtree) panics" where
  "page_find_specific_chunk api list requested_page num_pages =
     (let requested_end_page = chunk_add requested_page (num_pages - 1);
          not_free = Err (PageAddressNotFree requested_page num_pages);
          ok = map_option (\<lambda>(a, list'). (Ok a, list'))
      in case list of
        Array arr \<Rightarrow>
          (case find_slot (\<lambda>chunk. r_start chunk \<le> requested_page \<and>
                                        requested_end_page \<le> r_end chunk) arr of
             Some (i, chunk) \<Rightarrow>
               ok (adjust_chosen_chunk api requested_page num_pages chunk list (ArrayRef i))
           | None \<Rightarrow> Some (not_free, list))
      | RBTree tree \<Rightarrow>
          (let cursor = rb_upper_bound api tree (Included requested_page) in
           case cur_get api tree cursor of
             None \<Rightarrow> Some (not_free, list)
           | Some chunk \<Rightarrow>
               if \<not> r_start chunk \<le> requested_page then Some (not_free, list)
               else if requested_end_page \<le> r_end chunk then
                 ok (adjust_chosen_chunk api requested_page num_pages chunk list (RBTreeRef cursor))
               else do {
                 (tree, cursor, new_end_page) \<leftarrow>
                   merge_contiguous api tree (cur_next api tree cursor) (r_end chunk);
                 if r_end chunk < new_end_page then
                   (case cur_replace api tree (cur_prev api tree cursor)
                           (range_new (r_start chunk) new_end_page) of
                      (Inl e, tree, cursor) \<Rightarrow> None
                    | (Inr removed, tree, cursor) \<Rightarrow>
                        ok (adjust_chosen_chunk api requested_page num_pages chunk (RBTree tree)
                              (RBTreeRef cursor)))
                 else Some (not_free, RBTree tree)
               }))"

text \<open>The three loops that walk down from a cursor: stop, take the chunk, or go on.\<close>

partial_function (option) search_down ::
  "(pchunk, 't, 'c) rbtree_api \<Rightarrow> 't \<Rightarrow> (pchunk \<Rightarrow> bool) \<Rightarrow> (pchunk \<Rightarrow> bool) \<Rightarrow> 'c \<Rightarrow>
   ('c \<times> pchunk) option option" where
  "search_down api tree stop fit cursor =
     (case cur_get api tree cursor of
        None \<Rightarrow> Some None
      | Some chunk \<Rightarrow>
          if stop chunk then Some None
          else if fit chunk then Some (Some (cursor, chunk))
          else search_down api tree stop fit (cur_prev api tree cursor))"

definition search_tree ::
  "(pchunk, 't, 'c) rbtree_api \<Rightarrow> 't \<Rightarrow> page \<Rightarrow> usize \<Rightarrow> ('c \<times> pchunk) option option" where
  "search_tree api tree designated_low_end num_pages =
     (let fit = (\<lambda>chunk. num_pages < size_in_chunks chunk) in do {
        first \<leftarrow> search_down api tree (\<lambda>chunk. r_start chunk \<le> designated_low_end) fit
                  (rb_upper_bound api tree (Excluded DESIGNATED_PAGES_HIGH_START));
        case first of
          Some found \<Rightarrow> Some (Some found)
        | None \<Rightarrow> do {
            low \<leftarrow> search_down api tree (\<lambda>chunk. False) fit
                    (rb_upper_bound api tree (Included designated_low_end));
            case low of
              Some found \<Rightarrow> Some (Some found)
            | None \<Rightarrow>
                search_down api tree (\<lambda>chunk. r_start chunk < DESIGNATED_PAGES_HIGH_START) fit
                  (rb_upper_bound api tree Unbounded)
          }
      })"

definition page_find_any_chunk ::
  "(pchunk, 't, 'c) rbtree_api \<Rightarrow> page option \<Rightarrow> (pchunk, 't) static_array_rbtree \<Rightarrow> usize \<Rightarrow>
   ((allocated_pages \<times> page_deferred_action, page_allocation_error) result
     \<times> (pchunk, 't) static_array_rbtree) panics" where
  "page_find_any_chunk api low_end list num_pages =
     (let out_of_space = Some (Err (PageOutOfAddressSpace num_pages), list);
          ok = map_option (\<lambda>(a, list'). (Ok a, list'))
      in case low_end of
        None \<Rightarrow> Some (Err PageNotInitialized, list)
      | Some designated_low_end \<Rightarrow>
          (case list of
             Array arr \<Rightarrow>
               (case find_slot (\<lambda>chunk. \<not> (size_in_chunks chunk < num_pages \<or>
                                                 r_start chunk \<le> designated_low_end \<or>
                                                 DESIGNATED_PAGES_HIGH_START \<le> r_end chunk)) arr of
                  Some (i, chunk) \<Rightarrow>
                    ok (adjust_chosen_chunk api (r_start chunk) num_pages chunk list (ArrayRef i))
                | None \<Rightarrow>
                    (case find_slot (\<lambda>chunk. num_pages \<le> size_in_chunks chunk) arr of
                       Some (i, chunk) \<Rightarrow>
                         ok (adjust_chosen_chunk api (r_start chunk) num_pages chunk list (ArrayRef i))
                     | None \<Rightarrow> out_of_space))
           | RBTree tree \<Rightarrow> do {
               found \<leftarrow> search_tree api tree designated_low_end num_pages;
               case found of
                 None \<Rightarrow> out_of_space
               | Some (cursor, chunk) \<Rightarrow>
                   ok (adjust_chosen_chunk api (r_start chunk) num_pages chunk list (RBTreeRef cursor))
             }))"

section \<open>The allocation functions\<close>

definition allocate_pages_deferred ::
  "(pchunk, 't, 'c) rbtree_api \<Rightarrow> 't page_allocator \<Rightarrow> usize option \<Rightarrow> usize \<Rightarrow>
   ((allocated_pages \<times> page_deferred_action, string) result \<times> 't page_allocator) panics" where
  "allocate_pages_deferred api st requested_vaddr num_pages =
     (if num_pages = 0 then Some (Err ''cannot allocate zero pages'', st)
      else do {
        (r, l) \<leftarrow>
          (case requested_vaddr of
             Some vaddr \<Rightarrow>
               page_find_specific_chunk api (free_page_list st) (containing_address vaddr) num_pages
           | None \<Rightarrow>
               page_find_any_chunk api (designated_pages_low_end st) (free_page_list st) num_pages);
        Some (map_sum page_allocation_error_str id r, st\<lparr>free_page_list := l\<rparr>)
      })"

definition allocate_pages_by_bytes_deferred ::
  "(pchunk, 't, 'c) rbtree_api \<Rightarrow> 't page_allocator \<Rightarrow> usize option \<Rightarrow> usize \<Rightarrow>
   ((allocated_pages \<times> page_deferred_action, string) result \<times> 't page_allocator) panics" where
  "allocate_pages_by_bytes_deferred api st requested_vaddr num_bytes =
     (let actual_num_bytes =
            (case requested_vaddr of
               Some vaddr \<Rightarrow> num_bytes + vaddr mod PAGE_SIZE
             | None \<Rightarrow> num_bytes);
          num_pages = (actual_num_bytes + PAGE_SIZE - 1) div PAGE_SIZE
      in allocate_pages_deferred api st requested_vaddr num_pages)"

definition page_drop_action ::
  "(pchunk, 't, 'c) rbtree_api \<Rightarrow>
   ((allocated_pages \<times> page_deferred_action, string) result \<times> 't page_allocator) panics \<Rightarrow>
   ((allocated_pages, string) result \<times> 't page_allocator) panics" where
  "page_drop_action api r =
     do {
       (res, st) \<leftarrow> r;
       case res of
         Inl e \<Rightarrow> Some (Err e, st)
       | Inr (ap, action) \<Rightarrow> do { st \<leftarrow> drop_page_deferred api st action; Some (Ok ap, st) }
     }"

definition allocate_pages ::
  "(pchunk, 't, 'c) rbtree_api \<Rightarrow> 't page_allocator \<Rightarrow> usize \<Rightarrow>
   (allocated_pages option \<times> 't page_allocator) panics" where
  "allocate_pages api st num_pages =
     map_option (apfst ok_option)
       (page_drop_action api (allocate_pages_deferred api st None num_pages))"

definition allocate_pages_by_bytes ::
  "(pchunk, 't, 'c) rbtree_api \<Rightarrow> 't page_allocator \<Rightarrow> usize \<Rightarrow>
   (allocated_pages option \<times> 't page_allocator) panics" where
  "allocate_pages_by_bytes api st num_bytes =
     map_option (apfst ok_option)
       (page_drop_action api (allocate_pages_by_bytes_deferred api st None num_bytes))"

definition allocate_pages_by_bytes_at ::
  "(pchunk, 't, 'c) rbtree_api \<Rightarrow> 't page_allocator \<Rightarrow> usize \<Rightarrow> usize \<Rightarrow>
   ((allocated_pages, string) result \<times> 't page_allocator) panics" where
  "allocate_pages_by_bytes_at api st vaddr num_bytes =
     page_drop_action api (allocate_pages_by_bytes_deferred api st (Some vaddr) num_bytes)"

definition allocate_pages_at ::
  "(pchunk, 't, 'c) rbtree_api \<Rightarrow> 't page_allocator \<Rightarrow> usize \<Rightarrow> usize \<Rightarrow>
   ((allocated_pages, string) result \<times> 't page_allocator) panics" where
  "allocate_pages_at api st vaddr num_pages =
     page_drop_action api (allocate_pages_deferred api st (Some vaddr) num_pages)"

definition page_convert_to_heap_allocated ::
  "(pchunk, 't, 'c) rbtree_api \<Rightarrow> 't page_allocator \<Rightarrow> 't page_allocator" where
  "page_convert_to_heap_allocated api st =
     st\<lparr>free_page_list := sarb_convert_to_heap_allocated api (free_page_list st)\<rparr>"

declare merge_contiguous.simps [code] search_down.simps [code]

end
