(* ===== verification/PageOwnership.thy ===== *)
theory PageOwnership
  imports PageAllocator
begin

text \<open>
  Correctness of the page allocator: cutting up a chunk, searching arrays and trees, and the
  conservation of pages over sequences of operations. The page numbers reach up to the largest
  page, where the arithmetic of the code saturates; the lemmas carry the condition that a request
  does not run past it.
\<close>

section \<open>Page numbers\<close>

lemma MAX_PAGE_eq: "MAX_PAGE = 0xFFFFFFFFFFFFF"
  by code_simp

lemma MIN_PAGE_eq: "MIN_PAGE = 0"
  by (simp add: MIN_PAGE_def containing_address_def addr_zero_def PAGE_SIZE_eq)

lemma HIGH_START_eq: "DESIGNATED_PAGES_HIGH_START = 0xFFFFFE0000000"
  by code_simp

lemma MAX_PAGE_NUMBER_MAX_PAGE: "MAX_PAGE_NUMBER = MAX_PAGE"
  by (simp add: MAX_PAGE_NUMBER_eq MAX_PAGE_eq)

definition page_range :: "chunk_range \<Rightarrow> bool" where
  "page_range r \<longleftrightarrow> r_end r \<le> MAX_PAGE"

lemma page_not_max: "m \<le> MAX_PAGE \<Longrightarrow> m \<noteq> USIZE_MAX"
  by (rule word_neq_max_if_less [of _ "0x10000000000000"], erule le_less_trans) (simp add: MAX_PAGE_eq)

text \<open>The request of \<open>n\<close> pages from \<open>f\<close> on ends at or below the largest page.\<close>

definition request_fits :: "page \<Rightarrow> usize \<Rightarrow> bool" where
  "request_fits f n \<longleftrightarrow> unat f + unat n \<le> 2 ^ 52"

lemma request_end:
  assumes "n \<noteq> 0" "request_fits f n"
  shows "unat (chunk_add f (n - 1)) = unat f + (unat n - 1)" "f \<le> chunk_add f (n - 1)"
    "chunk_add f (n - 1) \<le> MAX_PAGE" "card {f..chunk_add f (n - 1)} = unat n"
proof -
  have n: "0 < unat n" "unat (n - 1) = unat n - 1" using assms(1) by (simp_all add: unat_gt_0 unat_pred)
  have "unat (saturating_add f (n - 1)) = unat f + (unat n - 1)"
    using assms(2) n by (simp add: unat_saturating_add request_fits_def)
  moreover from this have "saturating_add f (n - 1) \<le> MAX_PAGE_NUMBER"
    using assms(2) n(1) by (simp add: word_le_nat_alt MAX_PAGE_NUMBER_eq request_fits_def)
  ultimately show *: "unat (chunk_add f (n - 1)) = unat f + (unat n - 1)"
    by (simp add: chunk_add_def min_absorb2)
  then show "f \<le> chunk_add f (n - 1)" "card {f..chunk_add f (n - 1)} = unat n"
    using n(1) by (simp_all add: word_le_nat_alt card_word_Icc)
  show "chunk_add f (n - 1) \<le> MAX_PAGE"
    by (simp add: chunk_add_def MAX_PAGE_NUMBER_MAX_PAGE)
qed

lemma chunk_add_page: "m \<le> MAX_PAGE \<Longrightarrow> m \<noteq> MAX_PAGE \<Longrightarrow> chunk_add m 1 = m + 1"
  by (rule chunk_add_1) (simp add: MAX_PAGE_NUMBER_MAX_PAGE)

lemma page_fits_chunk:
  assumes "n \<noteq> 0" "n \<le> size_in_chunks r" "page_range r"
  shows "request_fits (r_start r) n" "chunk_add (r_start r) (n - 1) \<le> r_end r"
proof -
  have le: "unat n \<le> Suc (unat (r_end r)) - unat (r_start r)"
    using assms(2,3) page_not_max
    by (simp add: unat_size_in_chunks card_word_Icc word_le_nat_alt page_range_def)
  have n: "0 < unat n" using assms(1) by (simp add: unat_gt_0)
  have "unat (r_end r) \<le> 2 ^ 52 - 1" using assms(3) by (simp add: page_range_def MAX_PAGE_eq word_le_nat_alt)
  with le n show f: "request_fits (r_start r) n" by (simp add: request_fits_def)
  from request_end(1) [OF assms(1) f] le n show "chunk_add (r_start r) (n - 1) \<le> r_end r"
    by (simp add: word_le_nat_alt)
qed

section \<open>Cutting up a chunk\<close>

definition page_action_ranges :: "page_deferred_action \<Rightarrow> chunk_range multiset" where
  "page_action_ranges act = {#pfree1 act, pfree2 act#}"

definition page_carve :: "pchunk \<Rightarrow> page \<Rightarrow> usize \<Rightarrow> allocated_pages \<Rightarrow> page_deferred_action \<Rightarrow> bool" where
  "page_carve c f n ap act \<longleftrightarrow>
     ap = range_new f (chunk_add f (n - 1)) \<and> card (chunks ap) = unat n \<and> page_range ap \<and>
     (\<forall>x. owners x {#c#} = owners x {#ap#} + owners x (page_action_ranges act)) \<and>
     (\<forall>r. r \<in># page_action_ranges act \<longrightarrow> page_range r)"

lemma adjust_chosen_chunk_ok:
  assumes n: "n \<noteq> 0" "request_fits f n"
    and s: "r_start c \<le> f" and e: "chunk_add f (n - 1) \<le> r_end c" and b: "page_range c"
    and rem: "ref_remove api list r = (Some c, list')"
  obtains ap act where "adjust_chosen_chunk api f n c list r = Some ((ap, act), list')" "page_carve c f n ap act"
proof -
  define m where "m = chunk_add f (n - 1)"
  note re = request_end [OF n, folded m_def]
  let ?be = "if f = MIN_PAGE then None else Some (range_new (r_start c) (f - 1))"
  let ?af = "if m = MAX_PAGE then None else Some (range_new (m + 1) (r_end c))"
  define act where "act = page_deferred_new ?be ?af"
  have ma: "m + 1 \<noteq> 0 \<and> \<not> m + 1 \<le> m"
    using page_not_max [OF re(3)] by (metis add_diff_cancel_right' diff_0 not_le order_refl word_less_succ_iff)
  have c1: "m \<noteq> MAX_PAGE \<Longrightarrow> chunk_add m 1 = m + 1" using chunk_add_page re(3) by blast
  have run: "adjust_chosen_chunk api f n c list r = Some ((range_new f m, act), list')"
    unfolding adjust_chosen_chunk_def Let_def m_def [symmetric] range_new_simps act_def rem prod.case
    using ma re(2) c1
    by (auto simp: MIN_PAGE_eq chunk_sub_1 word_le_pred_iff)
  have cut: "x \<in> chunks c \<longleftrightarrow> x \<in> {r_start c..<f} \<or> x \<in> {f..m} \<or> x \<in> {m<..r_end c}" for x
    using s e re(2) by (auto simp flip: m_def)
  have fb: "chunks (pfree1 act) = {r_start c..<f}"
    by (auto simp: act_def page_deferred_new_def MIN_PAGE_eq word_Icc_pred)
  have sb: "chunks (pfree2 act) = {m<..r_end c}"
    using b by (auto simp: act_def page_deferred_new_def page_range_def word_Icc_succ [OF page_not_max [OF re(3)]])
  have "owners x (page_action_ranges act) = of_bool (x \<in> {r_start c..<f}) + of_bool (x \<in> {m<..r_end c})" for x
    unfolding page_action_ranges_def owners_simps fb sb by simp
  with cut re(2) have o: "owners x {#c#} = owners x {#range_new f m#} + owners x (page_action_ranges act)" for x
    by (auto simp: of_bool_def)
  have "f - 1 \<le> MAX_PAGE" if "f \<noteq> 0"
    using that re(2,3) by (metis order_trans word_le_pred_iff order.strict_implies_order order_refl)
  then have bd: "page_range x" if "x \<in># page_action_ranges act" for x
    using that b by (auto simp: page_action_ranges_def act_def page_deferred_new_def range_empty_def
        page_range_def MIN_PAGE_eq split: if_splits)
  have "page_range (range_new f m)" using re(3) by (simp add: page_range_def)
  then have "page_carve c f n (range_new f m) act"
    unfolding page_carve_def m_def [symmetric] using o bd re(4) by (metis range_new_simps)
  with run show thesis by (rule that)
qed

section \<open>Searching\<close>

definition good_page_list :: "(pchunk, 't, 'c) rbtree_api \<Rightarrow> (pchunk, 't) static_array_rbtree \<Rightarrow> bool" where
  "good_page_list api list \<longleftrightarrow> (\<forall>c \<in># contents api list. chunks c \<noteq> {} \<and> page_range c)"

text \<open>A chunk outside the designated regions.\<close>

definition undesignated :: "page \<Rightarrow> pchunk \<Rightarrow> bool" where
  "undesignated low c \<longleftrightarrow> low < r_start c \<and> r_start c < DESIGNATED_PAGES_HIGH_START"

text \<open>A test that holds of all chunks below one of which it holds.\<close>

definition downward :: "(pchunk \<Rightarrow> bool) \<Rightarrow> bool" where
  "downward stop \<longleftrightarrow> (\<forall>x y. r_start x \<le> r_start y \<longrightarrow> stop y \<longrightarrow> stop x)"

lemma downward_stops:
  "downward (\<lambda>c. r_start c \<le> b)" "downward (\<lambda>c. False)" "downward (\<lambda>c. r_start c < b)"
  by (auto simp: downward_def)

locale page_tree = rbtree api r_start pos
  for api :: "(pchunk, 't, 'c) rbtree_api" and pos
begin

lemma page_get_mem: "cur_get api t c = Some x \<Longrightarrow> x \<in> set (rb_iter api t)"
  by (auto simp: get_pos dest: pos_bound)

lemma page_ref_remove_array:
  assumes "i < length arr" "arr ! i = Some c"
  obtains list' where "ref_remove api (Array arr) (ArrayRef i) = (Some c, list')"
    "contents api (Array arr) = add_mset c (contents api list')"
  using assms by (simp add: ref_remove_def array_contents_take)

lemma page_ref_remove_cursor:
  assumes "cur_get api t c = Some x"
  obtains list' where "ref_remove api (RBTree t) (RBTreeRef c) = (Some x, list')"
    "contents api (RBTree t) = add_mset x (contents api list')"
proof -
  have "fst (ref_remove api (RBTree t) (RBTreeRef c)) = Some x"
    using assms by (simp add: ref_remove_get ref_get_def)
  then show thesis using that contents_ref_remove by (metis prod.collapse)
qed

text \<open>The search from a cursor downwards returns; it passes over no chunk that fits before the
  chunk on which it stops.\<close>

lemma search_down_returns:
  assumes down: "downward stop" and "pos t c = Some i"
  shows "(\<exists>cur ch j. search_down api t stop fit c = Some (Some (cur, ch)) \<and> cur_get api t cur = Some ch \<and>
            fit ch \<and> \<not> stop ch \<and> j \<le> i \<and> ch = rb_iter api t ! j) \<or>
         search_down api t stop fit c = Some None \<and> (\<forall>j\<le>i. stop (rb_iter api t ! j) \<or> \<not> fit (rb_iter api t ! j))"
  using assms(2)
proof (induction i arbitrary: c)
  case 0
  then have "pos t (cur_prev api t c) = None" by (simp add: pos_prev)
  with 0 show ?case
    by (auto simp: get_pos search_down.simps [of _ _ _ _ c] search_down.simps [of _ _ _ _ "cur_prev api t c"])
next
  case (Suc i)
  let ?d = "rb_iter api t ! Suc i"
  have g: "cur_get api t c = Some ?d" using Suc.prems by (simp add: get_pos)
  have len: "Suc i < length (rb_iter api t)" using pos_bound [OF Suc.prems] .
  consider "stop ?d" | "\<not> stop ?d" "fit ?d" | "\<not> stop ?d" "\<not> fit ?d" by blast
  then show ?case
  proof cases
    case 1
    have "stop (rb_iter api t ! j)" if "j \<le> Suc i" for j
    proof -
      have "r_start (rb_iter api t ! j) \<le> r_start ?d"
        using sorted_nth_mono [OF sorted_iter [of t] that] len that by simp
      with down 1 show ?thesis unfolding downward_def by blast
    qed
    with 1 g show ?thesis by (auto simp: search_down.simps [of _ _ _ _ c])
  next
    case 2
    with g show ?thesis by (auto simp: search_down.simps [of _ _ _ _ c])
  next
    case 3
    with g have "search_down api t stop fit c = search_down api t stop fit (cur_prev api t c)"
      by (auto simp: search_down.simps [of _ _ _ _ c])
    moreover have "pos t (cur_prev api t c) = Some i" using Suc.prems by (simp add: pos_prev)
    ultimately show ?thesis using Suc.IH [of "cur_prev api t c"] 3
      by (metis le_Suc_eq)
  qed
qed

lemma search_down_from:
  assumes down: "downward stop"
  obtains (found) cur ch where "search_down api t stop fit (rb_upper_bound api t b) = Some (Some (cur, ch))"
      "cur_get api t cur = Some ch" "fit ch" "\<not> stop ch" "below b (r_start ch)"
  | (none) "search_down api t stop fit (rb_upper_bound api t b) = Some None"
      "\<And>ch. ch \<in> set (rb_iter api t) \<Longrightarrow> below b (r_start ch) \<Longrightarrow> \<not> stop ch \<Longrightarrow> \<not> fit ch"
proof (cases "last_below r_start b (rb_iter api t)")
  case None
  then have "search_down api t stop fit (rb_upper_bound api t b) = Some None"
    by (simp add: search_down.simps get_pos pos_upper_bound)
  then show thesis using none last_below_None [OF sorted_iter None] by blast
next
  case (Some i)
  note lb = last_below_Some [OF sorted_iter Some]
  have "pos t (rb_upper_bound api t b) = Some i" by (simp add: pos_upper_bound Some)
  from search_down_returns [OF down this, of fit] show thesis
  proof (elim disjE exE conjE)
    fix cur ch j assume "search_down api t stop fit (rb_upper_bound api t b) = Some (Some (cur, ch))"
      "cur_get api t cur = Some ch" "fit ch" "\<not> stop ch" "j \<le> i" "ch = rb_iter api t ! j"
    then show thesis using found lb(2) by blast
  next
    assume n: "search_down api t stop fit (rb_upper_bound api t b) = Some None"
      "\<forall>j\<le>i. stop (rb_iter api t ! j) \<or> \<not> fit (rb_iter api t ! j)"
    show thesis
    proof (rule none [OF n(1)])
      fix ch assume "ch \<in> set (rb_iter api t)" "below b (r_start ch)" "\<not> stop ch"
      then show "\<not> fit ch" using lb(3) n(2) by (metis in_set_conv_nth not_le)
    qed
  qed
qed

lemma search_tree_cases:
  obtains (found) cur ch where "search_tree api t low n = Some (Some (cur, ch))" "cur_get api t cur = Some ch"
      "n < size_in_chunks ch"
      "undesignated low ch \<or> (\<forall>c \<in> set (rb_iter api t). undesignated low c \<longrightarrow> \<not> n < size_in_chunks c)"
  | (none) "search_tree api t low n = Some None" "\<forall>c \<in> set (rb_iter api t). \<not> n < size_in_chunks c"
proof -
  let ?fit = "\<lambda>c. n < size_in_chunks c" and ?H = DESIGNATED_PAGES_HIGH_START
  show thesis
  proof (rule search_down_from [OF downward_stops(1) [of low], of t ?fit "Excluded ?H"], goal_cases)
    case (1 cur ch)
    then show thesis by (intro found [of cur ch]) (auto simp: search_tree_def Let_def undesignated_def)
  next
    case first: 2
    then have nu: "\<forall>c \<in> set (rb_iter api t). undesignated low c \<longrightarrow> \<not> ?fit c"
      by (auto simp: undesignated_def)
    show thesis
    proof (rule search_down_from [OF downward_stops(2), of t ?fit "Included low"], goal_cases)
      case (1 cur ch)
      with first(1) nu show thesis by (intro found [of cur ch]) (auto simp: search_tree_def Let_def)
    next
      case second: 2
      show thesis
      proof (rule search_down_from [OF downward_stops(3) [of ?H], of t ?fit Unbounded], goal_cases)
        case (1 cur ch)
        with first(1) second(1) nu show thesis
          by (intro found [of cur ch]) (auto simp: search_tree_def Let_def)
      next
        case third: 2
        have "\<not> ?fit c" if "c \<in> set (rb_iter api t)" for c
          using that nu second(2) [of c] third(2) [of c]
          by (cases "r_start c \<le> low"; cases "r_start c < ?H") (auto simp: undesignated_def not_less)
        with first(1) second(1) third(1) show thesis
          by (intro none) (auto simp: search_tree_def Let_def)
      qed
    qed
  qed
qed

end

text \<open>The chunks that a search for \<open>n\<close> pages accepts: a tree refuses an exact fit.\<close>

definition page_big_enough :: "(pchunk, 't) static_array_rbtree \<Rightarrow> usize \<Rightarrow> pchunk \<Rightarrow> bool" where
  "page_big_enough list n c =
     (case list of Array _ \<Rightarrow> n \<le> size_in_chunks c | RBTree _ \<Rightarrow> n < size_in_chunks c)"

lemma page_big_enough_le: "page_big_enough list n c \<Longrightarrow> n \<le> size_in_chunks c"
  by (auto simp: page_big_enough_def split: static_array_rbtree.splits)

context page_tree
begin

lemma adjust_fitting:
  assumes "good_page_list api list" "c \<in> set (sarb_iter api list)" "n \<noteq> 0" "n \<le> size_in_chunks c"
    "ref_remove api list r = (Some c, list')"
  shows "\<exists>ap act. adjust_chosen_chunk api (r_start c) n c list r = Some ((ap, act), list') \<and>
    page_carve c (r_start c) n ap act"
proof -
  have b: "page_range c" using assms(1,2) by (simp add: good_page_list_def)
  note f = page_fits_chunk [OF assms(3,4) b]
  from adjust_chosen_chunk_ok [OF assms(3) f(1) order_refl f(2) b assms(5)] show ?thesis by blast
qed

lemma page_find_any_chunk_cases:
  assumes n: "n \<noteq> 0" and g: "good_page_list api list"
  obtains (ok) c ap act list' where
      "page_find_any_chunk api (Some low) list n = Some (Ok (ap, act), list')"
      "contents api list = add_mset c (contents api list')" "page_carve c (r_start c) n ap act"
      "page_big_enough list n c"
      "undesignated low c \<or>
       (\<forall>d \<in> set (sarb_iter api list). undesignated low d \<and> r_end d < DESIGNATED_PAGES_HIGH_START \<longrightarrow>
          \<not> page_big_enough list n d)"
  | (err) "page_find_any_chunk api (Some low) list n = Some (Err (PageOutOfAddressSpace n), list)"
      "\<forall>c \<in> set (sarb_iter api list). \<not> page_big_enough list n c"
proof (cases list)
  case (RBTree t)
  show thesis
  proof (rule search_tree_cases [of t low n], goal_cases)
    case (1 cur ch)
    obtain list' where r: "ref_remove api (RBTree t) (RBTreeRef cur) = (Some ch, list')"
      "contents api (RBTree t) = add_mset ch (contents api list')"
      using page_ref_remove_cursor [OF 1(2)] by blast
    have "ch \<in> set (sarb_iter api list)" using page_get_mem [OF 1(2)] RBTree by simp
    then obtain ap act where "adjust_chosen_chunk api (r_start ch) n ch list (RBTreeRef cur) = Some ((ap, act), list')"
      "page_carve ch (r_start ch) n ap act"
      using adjust_fitting [OF g _ n less_imp_le [OF 1(3)]] r(1) RBTree by blast
    with 1 r RBTree show thesis
      by (intro ok [of ap act list' ch]) (auto simp: page_find_any_chunk_def page_big_enough_def)
  next
    case 2
    with RBTree show thesis by (intro err) (auto simp: page_find_any_chunk_def page_big_enough_def)
  qed
next
  case (Array arr)
  let ?P = "\<lambda>chunk. \<not> (size_in_chunks chunk < n \<or> r_start chunk \<le> low \<or> DESIGNATED_PAGES_HIGH_START \<le> r_end chunk)"
  let ?Q = "\<lambda>chunk. n \<le> size_in_chunks chunk"
  have take: thesis
    if s: "i < length arr \<and> arr ! i = Some c \<and> ?Q c"
      and run: "page_find_any_chunk api (Some low) list n =
        map_option (\<lambda>(a, l). (Ok a, l)) (adjust_chosen_chunk api (r_start c) n c list (ArrayRef i))"
      and u: "undesignated low c \<or> (\<forall>d \<in> set (array_values arr). \<not> ?P d)" for i c
  proof -
    obtain list' where r: "ref_remove api (Array arr) (ArrayRef i) = (Some c, list')"
      "contents api (Array arr) = add_mset c (contents api list')"
      using page_ref_remove_array s by blast
    have "c \<in> set (sarb_iter api list)" using s Array nth_mem by (fastforce simp: set_array_values)
    then obtain ap act where "adjust_chosen_chunk api (r_start c) n c list (ArrayRef i) = Some ((ap, act), list')"
      "page_carve c (r_start c) n ap act"
      using adjust_fitting [OF g _ n, of c "ArrayRef i" list'] s r(1) Array by blast
    with run r Array s u show thesis
      by (intro ok [of ap act list' c]) (auto simp: page_big_enough_def undesignated_def not_less)
  qed
  show thesis
  proof (cases "find_slot ?P arr")
    case (Some ic)
    obtain i c where ic: "ic = (i, c)" by (cases ic)
    note s = find_slot_Some [OF Some [unfolded ic]]
    have "chunks c \<noteq> {}" using s g Array nth_mem by (fastforce simp: set_array_values good_page_list_def)
    then have "undesignated low c" using s by (auto simp: undesignated_def)
    with s Some ic Array show thesis by (intro take [of i c]) (auto simp: page_find_any_chunk_def)
  next
    case no_P: None
    show thesis
    proof (cases "find_slot ?Q arr")
      case (Some ic)
      obtain i c where ic: "ic = (i, c)" by (cases ic)
      with find_slot_Some [OF Some [unfolded ic]] no_P find_slot_None [of ?P arr] Some Array show thesis
        by (intro take [of i c]) (auto simp: page_find_any_chunk_def)
    next
      case None
      with no_P find_slot_None [of ?Q arr] Array show thesis
        by (intro err) (auto simp: page_find_any_chunk_def page_big_enough_def)
    qed
  qed
qed

end

text \<open>A request covers no page of a chunk that is too small for it and that is directly followed by
  another chunk. Such a request makes the tree search merge chunks, which is treated below.\<close>

definition no_merge ::
  "(pchunk, 't, 'c) rbtree_api \<Rightarrow> (pchunk, 't) static_array_rbtree \<Rightarrow> page \<Rightarrow> usize \<Rightarrow> bool" where
  "no_merge api list f n =
     (case list of
        Array _ \<Rightarrow> True
      | RBTree t \<Rightarrow>
          list_all (\<lambda>c. list_all (\<lambda>d. range_contains c f \<longrightarrow> range_contains c (chunk_add f (n - 1)) \<or> r_start d \<noteq> r_end c + 1)
            (rb_iter api t)) (rb_iter api t))"

definition covers :: "pchunk \<Rightarrow> page \<Rightarrow> usize \<Rightarrow> bool" where
  "covers c f n \<longleftrightarrow> r_start c \<le> f \<and> chunk_add f (n - 1) \<le> r_end c"

context page_tree
begin

lemma adjust_covering:
  assumes "n \<noteq> 0" "request_fits f n" "covers c f n" "good_page_list api list"
    "c \<in> set (sarb_iter api list)" "ref_remove api list r = (Some c, list')"
  shows "\<exists>ap act. adjust_chosen_chunk api f n c list r = Some ((ap, act), list') \<and> page_carve c f n ap act"
proof -
  have "page_range c" using assms(4,5) by (simp add: good_page_list_def)
  from adjust_chosen_chunk_ok [OF assms(1,2) _ _ this assms(6)] assms(3) show ?thesis
    unfolding covers_def by blast
qed

lemma upper_bound_covering:
  assumes p: "pos t (rb_upper_bound api t (Included f)) = Some i"
    and g: "good_page_list api (RBTree t)" and dis: "\<forall>x. owners x (mset (rb_iter api t)) \<le> 1"
    and d: "d \<in> set (rb_iter api t)" "covers d f n" and n: "n \<noteq> 0" "request_fits f n"
  shows "d = rb_iter api t ! i"
proof -
  obtain j where j: "j < length (rb_iter api t)" "d = rb_iter api t ! j"
    using d(1) by (metis in_set_conv_nth)
  note lb = last_below_Some [OF sorted_iter p [unfolded pos_upper_bound]]
  let ?c = "rb_iter api t ! i"
  have f: "f \<in> chunks d" using d(2) request_end(2) [OF n] by (auto simp: covers_def)
  have "\<not> i < j" using lb(3) [of j] j f by auto
  moreover have False if lt: "j < i"
  proof -
    have "r_start d \<le> r_start ?c"
      using lt j lb(1) sorted_nth_mono [of "map r_start (rb_iter api t)" j i] sorted_iter by simp
    moreover have "r_start ?c \<le> f" using lb(2) [of i] by simp
    moreover have "r_start ?c \<in> chunks ?c" using g lb(1) nth_mem by (fastforce simp: good_page_list_def)
    ultimately have "r_start ?c \<in> chunks d \<inter> chunks ?c" using f by auto
    moreover obtain N where "mset (rb_iter api t) = add_mset ?c (add_mset d N)"
      using mset_two_nth [OF lt lb(1)] j(2) by auto
    ultimately show False using owners_disjoint [OF dis] by blast
  qed
  ultimately show ?thesis using j(2) by (metis linorder_neqE_nat)
qed

text \<open>Without a chunk directly behind \<open>c\<close> the merging loop stops at once.\<close>

lemma no_contiguous_chunk:
  assumes p: "pos t cur = Some i" and f: "cur = rb_upper_bound api t (Included f)"
    and no: "\<forall>d \<in> set (rb_iter api t). f \<le> r_end (rb_iter api t ! i) \<longrightarrow> r_start d \<noteq> r_end (rb_iter api t ! i) + 1"
  shows "merge_contiguous api t (cur_next api t cur) (r_end (rb_iter api t ! i)) =
    Some (t, cur_next api t cur, r_end (rb_iter api t ! i))"
proof (cases "Suc i < length (rb_iter api t)")
  case True
  let ?c = "rb_iter api t ! i" and ?d = "rb_iter api t ! Suc i"
  have g: "cur_get api t (cur_next api t cur) = Some ?d"
    using True p by (simp add: get_pos pos_next)
  have fd: "f < r_start ?d"
    using last_below_Some(3) [OF sorted_iter p [unfolded f pos_upper_bound], of "Suc i"] True by simp
  then have nz: "r_start ?d \<noteq> 0" by (metis word_neq_0_if_less)
  have "chunk_sub (r_start ?d) 1 \<noteq> r_end ?c"
  proof
    assume "chunk_sub (r_start ?d) 1 = r_end ?c"
    then have e: "r_end ?c = r_start ?d - 1" using nz by (simp add: chunk_sub_1)
    then have "f \<le> r_end ?c" using fd nz by (simp add: word_le_pred_iff)
    then show False using no nth_mem [OF True] e by auto
  qed
  with g show ?thesis by (simp add: merge_contiguous.simps)
next
  case False
  then have "pos t (cur_next api t cur) = None" using p by (simp add: pos_next)
  then show ?thesis by (simp add: merge_contiguous.simps get_pos)
qed

end

context page_tree
begin

lemma page_find_specific_chunk_cases:
  assumes n: "n \<noteq> 0" "request_fits f n" and g: "good_page_list api list"
    and nm: "no_merge api list f n" and dis: "\<forall>x. owners x (contents api list) \<le> 1"
  obtains (ok) c ap act list' where
      "page_find_specific_chunk api list f n = Some (Ok (ap, act), list')"
      "contents api list = add_mset c (contents api list')" "page_carve c f n ap act" "covers c f n"
  | (err) "page_find_specific_chunk api list f n = Some (Err (PageAddressNotFree f n), list)"
      "\<forall>c \<in> set (sarb_iter api list). \<not> covers c f n"
proof (cases list)
  case (Array arr)
  show thesis
  proof (cases "find_slot (\<lambda>c. covers c f n) arr")
    case None
    with Array find_slot_None [of "\<lambda>c. covers c f n" arr] show thesis
      by (intro err) (auto simp: page_find_specific_chunk_def Let_def covers_def)
  next
    case (Some ic)
    obtain i c where ic: "ic = (i, c)" by (cases ic)
    note s = find_slot_Some [OF Some [unfolded ic]]
    obtain list' where r: "ref_remove api list (ArrayRef i) = (Some c, list')"
      "contents api list = add_mset c (contents api list')"
      using page_ref_remove_array s Array by blast
    have "c \<in> set (sarb_iter api list)" using s Array nth_mem by (fastforce simp: set_array_values)
    from adjust_covering [OF n _ g this r(1)] s obtain ap act where
      "adjust_chosen_chunk api f n c list (ArrayRef i) = Some ((ap, act), list')" "page_carve c f n ap act"
      by blast
    with Some ic r(2) s Array show thesis
      by (intro ok [of ap act list' c]) (auto simp: page_find_specific_chunk_def Let_def covers_def)
  qed
next
  case (RBTree t)
  define cur where "cur = rb_upper_bound api t (Included f)"
  show thesis
  proof (cases "pos t cur")
    case None
    then have "\<not> covers c f n" if "c \<in> set (rb_iter api t)" for c
      using last_below_None [OF sorted_iter _ that, of "Included f"] by (auto simp: cur_def pos_upper_bound covers_def)
    with None RBTree show thesis
      by (intro err) (auto simp: page_find_specific_chunk_def get_pos simp flip: cur_def)
  next
    case (Some i)
    define c where "c = rb_iter api t ! i"
    have c: "cur_get api t cur = Some c" "c \<in> set (rb_iter api t)" "r_start c \<le> f"
      using Some pos_bound last_below_Some(2) [OF sorted_iter Some [unfolded cur_def pos_upper_bound], of i]
      by (auto simp: get_pos c_def)
    show thesis
    proof (cases "covers c f n")
      case True
      obtain list' where r: "ref_remove api list (RBTreeRef cur) = (Some c, list')"
        "contents api list = add_mset c (contents api list')"
        using page_ref_remove_cursor [OF c(1)] RBTree by blast
      from adjust_covering [OF n True g _ r(1)] c(2) RBTree obtain ap act where
        "adjust_chosen_chunk api f n c list (RBTreeRef cur) = Some ((ap, act), list')" "page_carve c f n ap act"
        by auto
      with True c r(2) RBTree show thesis
        by (intro ok [of ap act list' c])
          (auto simp: page_find_specific_chunk_def Let_def covers_def simp flip: cur_def)
    next
      case False
      then have "\<forall>d \<in> set (rb_iter api t). f \<le> r_end c \<longrightarrow> r_start d \<noteq> r_end c + 1"
        using nm c RBTree by (auto simp: no_merge_def list_all_iff covers_def range_contains_def)
      from no_contiguous_chunk [OF Some cur_def this [unfolded c_def]] c False RBTree
      have "page_find_specific_chunk api list f n = Some (Err (PageAddressNotFree f n), list)"
        by (simp add: page_find_specific_chunk_def Let_def covers_def c_def flip: cur_def)
      moreover have "\<not> covers d f n" if "d \<in> set (rb_iter api t)" for d
        using upper_bound_covering [OF Some [unfolded cur_def] _ _ that _ n] g dis False RBTree
        by (auto simp: c_def)
      ultimately show thesis using RBTree by (intro err) auto
    qed
  qed
qed

end

section \<open>The allocation functions\<close>

definition on_heap :: "('a, 't) static_array_rbtree \<Rightarrow> bool" where
  "on_heap list = (case list of Array _ \<Rightarrow> False | RBTree _ \<Rightarrow> True)"

lemma on_heap_simps [simp]: "on_heap (RBTree t)" "\<not> on_heap (Array arr)"
  by (simp_all add: on_heap_def)

lemma on_heap_ref_remove: "ref_remove api list r = (v, list') \<Longrightarrow> on_heap list' = on_heap list"
  by (auto simp: ref_remove_def split: static_array_rbtree.splits value_ref_mut.splits if_splits prod.splits)

lemma on_heap_insert: "on_heap (snd (sarb_insert api list v)) = on_heap list"
  by (auto simp: sarb_insert_def split: static_array_rbtree.splits option.splits prod.splits)

lemma on_heap_adjust: "adjust_chosen_chunk api f n c list r = Some (a, list') \<Longrightarrow> on_heap list' = on_heap list"
  by (auto simp: adjust_chosen_chunk_def Let_def bind_eq_Some_conv dest: on_heap_ref_remove split: prod.splits)

lemma on_heap_find_any: "page_find_any_chunk api low list n = Some (r, list') \<Longrightarrow> on_heap list' = on_heap list"
  by (auto simp: page_find_any_chunk_def Let_def bind_eq_Some_conv dest!: on_heap_adjust
      split: option.splits static_array_rbtree.splits)

lemma on_heap_find_specific:
  "page_find_specific_chunk api list f n = Some (r, list') \<Longrightarrow> on_heap list' = on_heap list"
  by (auto simp: page_find_specific_chunk_def Let_def bind_eq_Some_conv dest!: on_heap_adjust
      split: option.splits static_array_rbtree.splits if_splits prod.splits sum.splits)

text \<open>A request the allocator serves as documented: it ends at or below the largest page, and no
  merging of chunks takes place.\<close>

definition page_request_ok ::
  "(pchunk, 't, 'c) rbtree_api \<Rightarrow> 't page_allocator \<Rightarrow> usize option \<Rightarrow> usize \<Rightarrow> bool" where
  "page_request_ok api st v n =
     (case v of
        None \<Rightarrow> True
      | Some vaddr \<Rightarrow>
          request_fits (containing_address vaddr) n \<and>
          no_merge api (free_page_list st) (containing_address vaddr) n)"

abbreviation free_pages :: "(pchunk, 't, 'c) rbtree_api \<Rightarrow> 't page_allocator \<Rightarrow> chunk_range multiset" where
  "free_pages api st \<equiv> contents api (free_page_list st)"

text \<open>The outcome of a request: an error changes nothing; a success takes exactly the allocated
  and the deferred pages from the free list.\<close>

definition page_outcome ::
  "(pchunk, 't, 'c) rbtree_api \<Rightarrow> 't page_allocator \<Rightarrow> usize option \<Rightarrow> usize \<Rightarrow>
   (allocated_pages \<times> page_deferred_action, string) result \<Rightarrow> 't page_allocator \<Rightarrow> bool" where
  "page_outcome api st v n r st' =
     (case r of
        Inl e \<Rightarrow> st' = st
      | Inr (ap, act) \<Rightarrow>
          n \<noteq> 0 \<and> card (chunks ap) = unat n \<and> page_range ap \<and>
          (\<forall>vaddr. v = Some vaddr \<longrightarrow> r_start ap = containing_address vaddr) \<and>
          (\<forall>r \<in># page_action_ranges act. page_range r) \<and>
          (\<forall>x. owners x (free_pages api st) =
             owners x (add_mset ap (page_action_ranges act)) + owners x (free_pages api st')) \<and>
          (free_pages api st' \<subseteq># free_pages api st) \<and>
          on_heap (free_page_list st') = on_heap (free_page_list st))"

lemma page_outcome_carve:
  assumes "contents api list = add_mset c (contents api list')" "page_carve c f n ap act" "n \<noteq> 0"
    "list = free_page_list st" "on_heap list' = on_heap list" "\<And>vaddr. v = Some vaddr \<Longrightarrow> f = containing_address vaddr"
  shows "page_outcome api st v n (Ok (ap, act)) (st\<lparr>free_page_list := list'\<rparr>)"
proof -
  have "owners x (contents api list) = owners x (add_mset ap (page_action_ranges act)) + owners x (contents api list')" for x
    using assms(1,2) unfolding page_carve_def by (metis add_mset_add_single owners_simps(2) union_commute)
  with assms show ?thesis by (auto simp: page_outcome_def page_carve_def simp del: owners_simps)
qed

end
