(* ===== verification/PageSystem.thy ===== *)
theory PageSystem
  imports PageOwnership
begin

text \<open>
  The page allocator in use: the allocator with the \<open>AllocatedPages\<close> and the deferred actions that
  callers hold, the steps callers take, and the conservation of pages over all sequences of steps.
\<close>

section \<open>Allocation\<close>

definition page_alloc_inv :: "(pchunk, 't, 'c) rbtree_api \<Rightarrow> 't page_allocator \<Rightarrow> bool" where
  "page_alloc_inv api st \<longleftrightarrow>
     good_page_list api (free_page_list st) \<and> (\<forall>x. owners x (free_pages api st) \<le> 1)"

context page_tree
begin

text \<open>The allocation function returns on every request, and its outcome is as specified.\<close>

lemma allocate_pages_deferred_outcome:
  assumes inv: "page_alloc_inv api st" and req: "page_request_ok api st v n"
  shows "\<exists>r st'. allocate_pages_deferred api st v n = Some (r, st') \<and> page_outcome api st v n r st'"
proof (cases "n = 0")
  case True
  then show ?thesis by (simp add: allocate_pages_deferred_def page_outcome_def)
next
  case n: False
  have g: "good_page_list api (free_page_list st)" and d: "\<forall>x. owners x (free_pages api st) \<le> 1"
    using inv by (simp_all add: page_alloc_inv_def)
  show ?thesis
  proof (cases v)
    case None
    show ?thesis
    proof (cases "designated_pages_low_end st")
      case no: None
      then show ?thesis using n None
        by (simp add: allocate_pages_deferred_def page_find_any_chunk_def page_outcome_def)
    next
      case (Some low)
      from page_find_any_chunk_cases [OF n g, of low] show ?thesis
      proof cases
        case (1 c ap act list')
        from page_outcome_carve [OF 1(2,3) n refl on_heap_find_any [OF 1(1)], of v] None Some n 1(1)
        show ?thesis by (auto simp: allocate_pages_deferred_def)
      next
        case 2
        with None Some n show ?thesis by (simp add: allocate_pages_deferred_def page_outcome_def)
      qed
    qed
  next
    case (Some vaddr)
    with req have fit: "request_fits (containing_address vaddr) n"
      and nm: "no_merge api (free_page_list st) (containing_address vaddr) n"
      by (simp_all add: page_request_ok_def)
    from page_find_specific_chunk_cases [OF n fit g nm d] show ?thesis
    proof cases
      case (1 c ap act list')
      from page_outcome_carve [OF 1(2,3) n refl on_heap_find_specific [OF 1(1)], of v] Some n 1(1)
      show ?thesis by (auto simp: allocate_pages_deferred_def)
    next
      case 2
      with Some n show ?thesis by (simp add: allocate_pages_deferred_def page_outcome_def)
    qed
  qed
qed

end

section \<open>Merging and splitting\<close>

definition held_pages_ok :: "chunk_range \<Rightarrow> bool" where
  "held_pages_ok r \<longleftrightarrow> page_range r \<and> (chunks r = {} \<longrightarrow> r = range_empty)"

lemma held_pages_ok_cases:
  assumes "held_pages_ok r"
  obtains (empty) "r = range_empty" | (some) "r_start r \<le> r_end r" "r_end r \<le> MAX_PAGE"
  using assms by (auto simp: held_pages_ok_def page_range_def)

lemma join_pages:
  assumes "r_start a \<le> r_end a" "r_start b \<le> r_end b" "r_start b = r_end a + 1" "r_end a \<noteq> USIZE_MAX"
  shows "owners x {#range_new (r_start a) (r_end b)#} = owners x {#a#} + owners x {#b#}"
    "r_start a \<le> r_end b"
proof -
  have b: "chunks b = {r_end a<..r_end b}" and lt: "r_end a < r_end b"
    using assms(2-4) by (simp_all add: word_Icc_succ word_succ_le_iff)
  show "owners x {#range_new (r_start a) (r_end b)#} = owners x {#a#} + owners x {#b#}"
    unfolding owners_simps b using assms(1) lt by auto
  show "r_start a \<le> r_end b" using assms(1) lt by simp
qed

lemma chunk_add_0_page: "chunk_add 0 1 = 1"
  using chunk_add_page [of 0] by (simp add: MAX_PAGE_eq)

lemma chunk_add_MAX_PAGE: "chunk_add MAX_PAGE 1 = MAX_PAGE"
  by code_simp

lemma allocated_pages_merge_ok:
  assumes "held_pages_ok a" "held_pages_ok b" "chunks a \<inter> chunks b = {}" "allocated_pages_merge a b = Ok c"
  shows "held_pages_ok c \<and> owners x {#c#} = owners x {#a#} + owners x {#b#}"
proof -
  have c: "c = range_new (r_start a) (r_end b)" and s: "r_start b = chunk_add (r_end a) 1"
    using assms(4) by (auto simp: allocated_pages_merge_def split: if_splits)
  from assms(1) show ?thesis
  proof (cases rule: held_pages_ok_cases)
    case empty
    then have "c = b" using c s by (cases b) (simp add: range_empty_def range_new_def chunk_add_0_page)
    with empty assms(2) show ?thesis by simp
  next
    case a: some
    from assms(2) show ?thesis
    proof (cases rule: held_pages_ok_cases)
      case empty
      then have "r_end a = 0"
        using s chunk_add_page [OF a(2)]
        by (cases "r_end a = MAX_PAGE") (auto simp: range_empty_def chunk_add_MAX_PAGE, simp add: MAX_PAGE_eq)
      then show ?thesis using c a empty assms(1) by (simp add: range_empty_def held_pages_ok_def page_range_def)
    next
      case b: some
      have "r_end a \<noteq> MAX_PAGE"
      proof
        assume m: "r_end a = MAX_PAGE"
        then have "r_start b = MAX_PAGE" using s by (simp add: chunk_add_MAX_PAGE)
        then show False using assms(3) a b m by auto
      qed
      then have "r_start b = r_end a + 1" using s chunk_add_page [OF a(2)] by simp
      from join_pages [OF a(1) b(1) this page_not_max [OF a(2)]] b(2) c show ?thesis
        by (auto simp: held_pages_ok_def page_range_def simp del: owners_simps)
    qed
  qed
qed

lemma allocated_pages_split_ok:
  assumes "held_pages_ok a" "at_page \<le> MAX_PAGE" "allocated_pages_split a at_page = Ok (f, s)"
  shows "held_pages_ok f \<and> held_pages_ok s \<and> owners x {#a#} = owners x {#f#} + owners x {#s#}"
proof -
  have e: "held_pages_ok range_empty" by (simp add: held_pages_ok_def page_range_def range_empty_def)
  from assms(1) show ?thesis
  proof (cases rule: held_pages_ok_cases)
    case empty
    then have "1 < at_page" "chunk_sub at_page 1 \<le> 0"
      using assms(3) chunk_sub_1 [of 1]
      by (auto simp: allocated_pages_split_def Let_def range_empty_def chunk_add_0_page split: if_splits)
    then show ?thesis using word_neq_0_if_less [of 1 at_page] by (simp add: chunk_sub_1)
  next
    case some
    then have h: "held_pages_ok (range_new (r_start a) (r_end a))" by (auto simp: held_pages_ok_def page_range_def)
    show ?thesis
    proof (cases "at_page = r_start a \<or> at_page = chunk_add (r_end a) 1 \<and> r_start a \<le> chunk_sub at_page 1")
      case True
      with h e some assms(3) show ?thesis
        by (auto simp: allocated_pages_split_def Let_def simp del: atLeastAtMost_iff split: if_splits)
    next
      case False
      with assms(3) have *: "f = range_new (r_start a) (chunk_sub at_page 1)" "s = range_new at_page (r_end a)"
        "r_start a < at_page" "chunk_sub at_page 1 \<le> r_end a"
        by (auto simp: allocated_pages_split_def Let_def split: if_splits)
      then have nz: "at_page \<noteq> 0" and p: "chunk_sub at_page 1 = at_page - 1"
        using word_neq_0_if_less chunk_sub_1 by blast+
      have le: "r_start a \<le> at_page - 1" using *(3) nz by (simp add: word_le_pred_iff)
      have "at_page - 1 \<noteq> r_end a"
      proof
        assume q: "at_page - 1 = r_end a"
        then have eq: "at_page = r_end a + 1" by (simp add: diff_eq_eq)
        have "at_page - 1 < at_page" using nz by (simp add: word_pred_less_iff)
        then have "r_end a < at_page" unfolding q .
        then have "r_end a \<noteq> MAX_PAGE" using assms(2) by auto
        then have "at_page = chunk_add (r_end a) 1" using chunk_add_page [OF some(2)] eq by simp
        then show False using False le p by simp
      qed
      then have "at_page - 1 < r_end a" using *(4) p by simp
      then have ae: "at_page \<le> r_end a" using nz by (simp add: word_pred_less_iff)
      have b: "at_page - 1 \<le> MAX_PAGE" using *(4) some(2) p by simp
      have "owners x {#range_new (r_start f) (r_end s)#} = owners x {#f#} + owners x {#s#}"
        using join_pages(1) [of f s] * le ae page_not_max [OF b] by (simp add: p)
      moreover have "held_pages_ok f" "held_pages_ok s"
        using * le ae b some(2) by (auto simp: p held_pages_ok_def page_range_def)
      ultimately show ?thesis using * by simp
    qed
  qed
qed

section \<open>Releasing pages\<close>

context page_tree
begin

lemma page_insert:
  assumes "sarb_insert api list c = (r, list')" "good_page_list api list" "chunks c \<noteq> {}" "page_range c"
  shows "good_page_list api list' \<and> on_heap list' = on_heap list \<and>
    (case r of
       Inr _ \<Rightarrow> contents api list' = add_mset c (contents api list)
     | Inl _ \<Rightarrow> list' = list \<and> \<not> on_heap list)"
proof (cases r)
  case (Inl e)
  then have "list' = list" using assms(1) insert_Err by blast
  moreover have "\<not> on_heap list"
    using assms(1) Inl insert_RBTree_Ok by (cases list) (fastforce simp: sarb_insert_def split: prod.splits)+
  ultimately show ?thesis using assms(2) Inl by simp
next
  case (Inr cur)
  with assms(1) have "contents api list' = add_mset c (contents api list)" using contents_insert by blast
  then show ?thesis using assms on_heap_insert [of api list c] Inr
    by (simp add: good_page_list_def del: set_mset_mset)
qed

text \<open>\<open>released\<close>: the free list gains at most the pages of \<open>M\<close>, and on the heap exactly these.\<close>

definition released :: "'t page_allocator \<Rightarrow> chunk_range multiset \<Rightarrow> 't page_allocator \<Rightarrow> bool" where
  "released st M st' \<longleftrightarrow>
     good_page_list api (free_page_list st') \<and> on_heap (free_page_list st') = on_heap (free_page_list st) \<and>
     (\<forall>x. owners x (free_pages api st') \<le> owners x (free_pages api st) + owners x M) \<and>
     (on_heap (free_page_list st) \<longrightarrow>
        (\<forall>x. owners x (free_pages api st') = owners x (free_pages api st) + owners x M))"

lemma released_trans:
  assumes a: "released st A st1" and b: "released st1 B st2"
  shows "released st (A + B) st2"
proof -
  have "owners x (free_pages api st2) \<le> owners x (free_pages api st) + owners x (A + B)" for x
  proof -
    have "owners x (free_pages api st2) \<le> owners x (free_pages api st1) + owners x B"
      "owners x (free_pages api st1) \<le> owners x (free_pages api st) + owners x A"
      using a b unfolding released_def by blast+
    then show ?thesis by simp
  qed
  then show ?thesis using a b unfolding released_def by simp
qed

lemma page_range_sized: "page_range c \<Longrightarrow> size_in_chunks c = 0 \<longleftrightarrow> chunks c = {}"
  using size_in_chunks_eq_0 [of c] page_not_max by (auto simp: page_range_def)

lemma drop_allocated_pages_released:
  assumes "good_page_list api (free_page_list st)" "page_range c"
  shows "released st {#c#} (drop_allocated_pages api st c)"
proof (cases "chunks c = {}")
  case True
  then have "owners x {#c#} = 0" for x by (simp del: atLeastAtMost_iff)
  then show ?thesis using assms page_range_sized True
    by (simp add: released_def drop_allocated_pages_def del: owners_simps atLeastAtMost_iff)
next
  case False
  obtain r l where i: "sarb_insert api (free_page_list st) c = (r, l)" by fastforce
  from page_insert [OF i assms(1) False assms(2)] show ?thesis
    using i False page_range_sized [OF assms(2)]
    by (cases r) (auto simp: released_def drop_allocated_pages_def)
qed

lemma drop_page_chunk_released:
  assumes "good_page_list api (free_page_list st)" "page_range c" "drop_page_chunk api st c = Some st'"
  shows "released st {#c#} st'"
proof -
  have "st' = drop_allocated_pages api st c"
    using assms(3) by (auto simp: drop_page_chunk_def drop_allocated_pages_def word_greater_zero_iff
        split: if_splits prod.splits sum.splits)
  with drop_allocated_pages_released [OF assms(1,2)] show ?thesis by simp
qed

end

section \<open>The system\<close>

record 't page_system =
  ps_allocator :: "'t page_allocator"
  ps_held :: "allocated_pages multiset"
  ps_pending :: "page_deferred_action multiset"

definition page_owned :: "(pchunk, 't, 'c) rbtree_api \<Rightarrow> 't page_system \<Rightarrow> chunk_range multiset" where
  "page_owned api s =
     free_pages api (ps_allocator s) + ps_held s + (\<Sum>act \<in># ps_pending s. page_action_ranges act)"

abbreviation ps_on_heap :: "'t page_system \<Rightarrow> bool" where
  "ps_on_heap s \<equiv> on_heap (free_page_list (ps_allocator s))"

text \<open>What callers can do. A page argument is a \<open>Page\<close>, hence at most the largest one.\<close>

inductive ps_step :: "(pchunk, 't, 'c) rbtree_api \<Rightarrow> 't page_system \<Rightarrow> 't page_system \<Rightarrow> bool"
  for api :: "(pchunk, 't, 'c) rbtree_api" where
  ps_allocate:
    "allocate_pages_deferred api st v n = Some (Ok (ap, act), st') \<Longrightarrow> page_request_ok api st v n \<Longrightarrow>
     ps_step api \<lparr>ps_allocator = st, ps_held = h, ps_pending = d\<rparr>
       \<lparr>ps_allocator = st', ps_held = add_mset ap h, ps_pending = add_mset act d\<rparr>"
| ps_allocate_err:
    "allocate_pages_deferred api st v n = Some (Err e, st') \<Longrightarrow> page_request_ok api st v n \<Longrightarrow>
     ps_step api \<lparr>ps_allocator = st, ps_held = h, ps_pending = d\<rparr>
       \<lparr>ps_allocator = st', ps_held = h, ps_pending = d\<rparr>"
| ps_drop:
    "ps_step api \<lparr>ps_allocator = st, ps_held = add_mset r h, ps_pending = d\<rparr>
       \<lparr>ps_allocator = drop_allocated_pages api st r, ps_held = h, ps_pending = d\<rparr>"
| ps_drop_pending:
    "drop_page_deferred api st act = Some st' \<Longrightarrow>
     ps_step api \<lparr>ps_allocator = st, ps_held = h, ps_pending = add_mset act d\<rparr>
       \<lparr>ps_allocator = st', ps_held = h, ps_pending = d\<rparr>"
| ps_merge:
    "allocated_pages_merge a b = Ok c \<Longrightarrow>
     ps_step api \<lparr>ps_allocator = st, ps_held = add_mset a (add_mset b h), ps_pending = d\<rparr>
       \<lparr>ps_allocator = st, ps_held = add_mset c h, ps_pending = d\<rparr>"
| ps_split:
    "allocated_pages_split a at_page = Ok (f, s) \<Longrightarrow> at_page \<le> MAX_PAGE \<Longrightarrow>
     ps_step api \<lparr>ps_allocator = st, ps_held = add_mset a h, ps_pending = d\<rparr>
       \<lparr>ps_allocator = st, ps_held = add_mset f (add_mset s h), ps_pending = d\<rparr>"
| ps_convert:
    "ps_step api \<lparr>ps_allocator = st, ps_held = h, ps_pending = d\<rparr>
       \<lparr>ps_allocator = page_convert_to_heap_allocated api st, ps_held = h, ps_pending = d\<rparr>"

definition ps_typed :: "(pchunk, 't, 'c) rbtree_api \<Rightarrow> 't page_system \<Rightarrow> bool" where
  "ps_typed api s \<longleftrightarrow>
     good_page_list api (free_page_list (ps_allocator s)) \<and> (\<forall>r. r \<in># ps_held s \<longrightarrow> held_pages_ok r) \<and>
     (\<forall>act r. act \<in># ps_pending s \<longrightarrow> r \<in># page_action_ranges act \<longrightarrow> page_range r)"

definition ps_inv :: "(pchunk, 't, 'c) rbtree_api \<Rightarrow> 't page_system \<Rightarrow> bool" where
  "ps_inv api s \<longleftrightarrow> ps_typed api s \<and> (\<forall>x. owners x (page_owned api s) \<le> 1)"

text \<open>No step makes pages out of nothing, and with the free list on the heap no step loses one.\<close>

definition ps_conserves :: "(pchunk, 't, 'c) rbtree_api \<Rightarrow> 't page_system \<Rightarrow> 't page_system \<Rightarrow> bool" where
  "ps_conserves api s s' \<longleftrightarrow>
     (\<forall>x. owners x (page_owned api s') \<le> owners x (page_owned api s)) \<and>
     (ps_on_heap s \<longrightarrow> ps_on_heap s' \<and> (\<forall>x. owners x (page_owned api s') = owners x (page_owned api s)))"

lemma ps_inv_alloc: "ps_inv api s \<Longrightarrow> page_alloc_inv api (ps_allocator s)"
  unfolding ps_inv_def ps_typed_def page_alloc_inv_def page_owned_def
  by (metis add_leD1 owners_simps(2))

lemma page_outcome_held:
  assumes "page_outcome api st v n (Ok (ap, act)) st'"
  shows "held_pages_ok ap" "r \<in># page_action_ranges act \<Longrightarrow> page_range r"
    "good_page_list api (free_page_list st) \<Longrightarrow> good_page_list api (free_page_list st')"
proof -
  have "card (chunks ap) = unat n" "n \<noteq> 0" using assms by (simp_all add: page_outcome_def)
  then have "chunks ap \<noteq> {}" by (metis card.empty unat_eq_zero)
  then show "held_pages_ok ap" "r \<in># page_action_ranges act \<Longrightarrow> page_range r"
    using assms by (simp_all add: page_outcome_def held_pages_ok_def)
  show "good_page_list api (free_page_list st')" if "good_page_list api (free_page_list st)"
    using that assms unfolding page_outcome_def good_page_list_def by (auto dest: mset_subset_eqD)
qed

context page_tree
begin

lemma ps_released:
  assumes "released st M st'" "ps_inv api s" "ps_allocator s = st" "ps_allocator s' = st'"
    "page_owned api s = free_pages api st + M + R" "page_owned api s' = free_pages api st' + R"
    "\<forall>r. r \<in># ps_held s' \<longrightarrow> r \<in># ps_held s" "\<forall>act. act \<in># ps_pending s' \<longrightarrow> act \<in># ps_pending s"
  shows "ps_typed api s' \<and> ps_conserves api s s'"
proof -
  have "ps_typed api s'"
    using assms(1-4,7,8) unfolding released_def ps_inv_def ps_typed_def by blast
  moreover have "ps_conserves api s s'"
    using assms(1,3,4) unfolding ps_conserves_def assms(5,6) released_def owners_simps(2) by (simp del: owners_simps)
  ultimately show ?thesis ..
qed

lemma ps_step_keeps:
  assumes "ps_step api s s'" "ps_inv api s"
  shows "ps_typed api s' \<and> ps_conserves api s s'"
  using assms(1)
proof (cases rule: ps_step.cases)
  case (ps_allocate st v n ap act st' h d)
  have "page_outcome api st v n (Ok (ap, act)) st'"
    using allocate_pages_deferred_outcome [of st v n] ps_inv_alloc [OF assms(2)] ps_allocate by fastforce
  note o = this page_outcome_held [OF this]
  have "owners x (page_owned api s') = owners x (page_owned api s)" for x
    using o(1) by (simp add: page_outcome_def page_owned_def ps_allocate)
  with assms(2) o show ?thesis
    by (auto simp: ps_inv_def ps_typed_def ps_conserves_def ps_allocate page_outcome_def)
next
  case (ps_allocate_err st v n e st' h d)
  have "page_outcome api st v n (Err e) st'"
    using allocate_pages_deferred_outcome [of st v n] ps_inv_alloc [OF assms(2)] ps_allocate_err by fastforce
  with assms(2) show ?thesis by (simp add: ps_inv_def ps_conserves_def page_outcome_def ps_allocate_err)
next
  case (ps_drop st r h d)
  have "released st {#r#} (drop_allocated_pages api st r)"
    using assms(2) by (intro drop_allocated_pages_released) (auto simp: ps_inv_def ps_typed_def ps_drop held_pages_ok_def)
  from ps_released [OF this assms(2), of s' "h + (\<Sum>act \<in># d. page_action_ranges act)"] show ?thesis
    by (simp add: ps_drop page_owned_def)
next
  case (ps_drop_pending st act st' h d)
  then obtain st1 where d: "drop_page_chunk api st (pfree1 act) = Some st1" "drop_page_chunk api st1 (pfree2 act) = Some st'"
    by (auto simp: drop_page_deferred_def bind_eq_Some_conv)
  have b: "page_range (pfree1 act)" "page_range (pfree2 act)" "good_page_list api (free_page_list st)"
    using assms(2) by (auto simp: ps_inv_def ps_typed_def ps_drop_pending page_action_ranges_def)
  note r = drop_page_chunk_released [OF b(3,1) d(1)]
  then have "released st1 {#pfree2 act#} st'" using drop_page_chunk_released [OF _ b(2) d(2)] by (simp add: released_def)
  from released_trans [OF r this] have "released st (page_action_ranges act) st'"
    by (simp add: page_action_ranges_def add_mset_commute)
  from ps_released [OF this assms(2), of s' "h + (\<Sum>act \<in># d. page_action_ranges act)"] show ?thesis
    by (simp add: ps_drop_pending page_owned_def)
next
  case (ps_merge a b c st h d)
  have h: "held_pages_ok a" "held_pages_ok b" using assms(2) by (auto simp: ps_inv_def ps_typed_def ps_merge)
  have "page_owned api s = add_mset a (add_mset b (free_pages api st + h + (\<Sum>act \<in># d. page_action_ranges act)))"
    by (simp add: page_owned_def ps_merge)
  then have "chunks a \<inter> chunks b = {}" using assms(2) owners_disjoint unfolding ps_inv_def by blast
  note m = allocated_pages_merge_ok [OF h this ps_merge(3)]
  then have "owners x (page_owned api s') = owners x (page_owned api s)" for x
    by (simp add: page_owned_def ps_merge)
  with m assms(2) show ?thesis by (auto simp: ps_inv_def ps_typed_def ps_conserves_def ps_merge)
next
  case (ps_split a at_page f sa st h d)
  have h: "held_pages_ok a" using assms(2) by (auto simp: ps_inv_def ps_typed_def ps_split)
  note m = allocated_pages_split_ok [OF h ps_split(4,3)]
  then have "owners x (page_owned api s') = owners x (page_owned api s)" for x
    by (simp add: page_owned_def ps_split)
  with m assms(2) show ?thesis by (auto simp: ps_inv_def ps_typed_def ps_conserves_def ps_split)
next
  case (ps_convert st h d)
  have "free_pages api (page_convert_to_heap_allocated api st) = free_pages api st"
    by (simp add: page_convert_to_heap_allocated_def contents_convert)
  moreover have "on_heap (free_page_list (page_convert_to_heap_allocated api st))"
    by (simp add: page_convert_to_heap_allocated_def sarb_convert_to_heap_allocated_def split: static_array_rbtree.split)
  ultimately show ?thesis using assms(2)
    by (simp add: ps_inv_def ps_typed_def ps_conserves_def page_owned_def good_page_list_def ps_convert del: set_mset_mset)
qed

lemma ps_steps:
  assumes "(ps_step api)\<^sup>*\<^sup>* s s'" "ps_inv api s"
  shows "ps_inv api s' \<and> ps_conserves api s s'"
  using assms
proof (induction rule: rtranclp_induct)
  case base
  then show ?case by (simp add: ps_conserves_def)
next
  case (step t u)
  then have t: "ps_inv api t" "ps_conserves api s t" by simp_all
  from ps_step_keeps [OF step(2) t(1)] have u: "ps_typed api u" "ps_conserves api t u" by simp_all
  then have "ps_inv api u" using t(1) unfolding ps_inv_def ps_conserves_def by (meson order_trans)
  moreover have "ps_conserves api s u" using t(2) u(2) unfolding ps_conserves_def by (metis order_trans)
  ultimately show ?case ..
qed

end

interpretation list_pages: page_tree "list_rbtree r_start" list_pos
  by (rule page_tree.intro) (rule list_rbtree.rbtree_axioms)

end
