(* ===== verification/PageProperties.thy ===== *)
theory PageProperties
  imports PageSystem
begin

text \<open>
  The properties of the page allocator: the initial free list, one owner per page over all
  histories, exactness of allocation with the free list on the heap, and the requests for which
  the search through the tree gives out pages that are not free.
\<close>

section \<open>The initial free list\<close>

text \<open>The pages of entry 510 of the top page table, which hold the recursive mapping.\<close>

definition recursive_pages :: "page set" where
  "recursive_pages = {0xFFFFFF0000000..0xFFFFFF7FFFFFF}"

lemma initial_free_chunks_eq:
  "initial_free_chunks low =
     [Some (range_new 0 low), Some (range_new (chunk_add low 1) 0xFFFFFDFFFFFFF),
      Some (range_new 0xFFFFFE0000000 0xFFFFFEFFFFFFF),
      Some (range_new 0xFFFFFF8000000 0xFFFFFFFFFFFFF)] @ replicate 28 None"
proof -
  have "chunk_sub DESIGNATED_PAGES_HIGH_START 1 = 0xFFFFFDFFFFFFF"
    "containing_address (canonicalize_virtual_address (KERNEL_TEXT_START - ADDRESSABILITY_PER_P4_ENTRY - 1))
       = 0xFFFFFEFFFFFFF"
    "containing_address (canonicalize_virtual_address KERNEL_TEXT_START) = 0xFFFFFF8000000"
    by code_simp+
  moreover have "containing_address (canonicalize_virtual_address MAX_VIRTUAL_ADDRESS) = 0xFFFFFFFFFFFFF"
    using MAX_PAGE_eq by (simp add: MAX_PAGE_def)
  moreover have "containing_address addr_zero = 0" using MIN_PAGE_eq by (simp add: MIN_PAGE_def)
  ultimately show ?thesis by (simp add: initial_free_chunks_def HIGH_START_eq)
qed

lemma initial_owners:
  assumes "low < 0xFFFFFDFFFFFFF"
  shows "owners x (mset (array_values (initial_free_chunks low))) =
    of_bool (x \<le> MAX_PAGE \<and> x \<notin> recursive_pages)"
proof -
  have "chunk_add low 1 = low + 1"
    by (rule chunk_add_1) (rule less_trans [OF assms], simp add: MAX_PAGE_NUMBER_eq)
  moreover have "unat (low + 1) = unat low + 1"
    using assms by (simp add: word_less_nat_alt unat_word_ariths)
  ultimately show ?thesis
    using assms by (auto simp: initial_free_chunks_eq recursive_pages_def MAX_PAGE_eq word_le_nat_alt word_less_nat_alt)
qed
text \<open>What \<open>init\<close> leaves behind, for a kernel that ends below the upper designated region.\<close>

lemma page_init_state:
  assumes "designated_pages_low_end st = None" "page_init st end_vaddr = Some (Ok (), st')"
    "containing_address end_vaddr < 0xFFFFFDFFFFFFF"
  shows "free_page_list st' = Array (initial_free_chunks (containing_address end_vaddr))"
    "good_page_list api (free_page_list st')"
    "owners x (free_pages api st') = of_bool (x \<le> MAX_PAGE \<and> x \<notin> recursive_pages)"
proof -
  let ?low = "containing_address end_vaddr"
  show f: "free_page_list st' = Array (initial_free_chunks ?low)"
    using assms(1,2) by (auto simp: page_init_def sarb_new_def Let_def bind_eq_Some_conv)
  then show "owners x (free_pages api st') = of_bool (x \<le> MAX_PAGE \<and> x \<notin> recursive_pages)"
    using initial_owners [OF assms(3)] by simp
  have "chunk_add ?low 1 = ?low + 1"
    by (rule chunk_add_1) (rule less_trans [OF assms(3)], simp add: MAX_PAGE_NUMBER_eq)
  moreover have "unat (?low + 1) = unat ?low + 1"
    using assms(3) by (simp add: word_less_nat_alt unat_word_ariths)
  ultimately show "good_page_list api (free_page_list st')"
    using assms(3) f
    by (auto simp: good_page_list_def initial_free_chunks_eq page_range_def MAX_PAGE_eq word_le_nat_alt word_less_nat_alt)
qed

section \<open>Allocation with the free list on the heap\<close>

context page_tree
begin

lemma drop_page_chunk_heap:
  assumes "on_heap (free_page_list st)"
  shows "drop_page_chunk api st c = Some (drop_allocated_pages api st c)"
proof -
  obtain t where t: "free_page_list st = RBTree t" using assms by (cases "free_page_list st") auto
  obtain k t' where "sarb_insert api (RBTree t) c = (Ok k, RBTree t')" using insert_RBTree_Ok by blast
  then show ?thesis by (auto simp: drop_page_chunk_def drop_allocated_pages_def t word_greater_zero_iff)
qed

text \<open>An allocation on the heap, with its deferred action carried out at once, moves exactly the
  allocated pages out of the free list.\<close>

lemma page_drop_action_heap:
  assumes o: "page_outcome api st v n (Ok (ap, act)) st'" and g: "good_page_list api (free_page_list st)"
    and h: "on_heap (free_page_list st)"
  shows "\<exists>st''. page_drop_action api (Some (Ok (ap, act), st')) = Some (Ok ap, st'') \<and>
    (\<forall>x. owners x (free_pages api st) = of_bool (x \<in> chunks ap) + owners x (free_pages api st''))"
proof -
  have h': "on_heap (free_page_list st')" using o h by (simp add: page_outcome_def)
  have g': "good_page_list api (free_page_list st')" using page_outcome_held(3) [OF o g] .
  have b: "page_range (pfree1 act)" "page_range (pfree2 act)"
    using page_outcome_held(2) [OF o] by (simp_all add: page_action_ranges_def)
  define st1 where "st1 = drop_allocated_pages api st' (pfree1 act)"
  have r1: "released st' {#pfree1 act#} st1" unfolding st1_def by (rule drop_allocated_pages_released [OF g' b(1)])
  then have h1: "on_heap (free_page_list st1)" and g1: "good_page_list api (free_page_list st1)"
    using h' by (simp_all add: released_def)
  define st2 where "st2 = drop_allocated_pages api st1 (pfree2 act)"
  have "released st1 {#pfree2 act#} st2" unfolding st2_def by (rule drop_allocated_pages_released [OF g1 b(2)])
  from released_trans [OF r1 this] have "released st' (page_action_ranges act) st2"
    by (simp add: page_action_ranges_def add_mset_commute)
  then have "owners x (free_pages api st2) = owners x (free_pages api st') + owners x (page_action_ranges act)" for x
    using h' by (simp add: released_def)
  moreover have "owners x (free_pages api st) =
      owners x (add_mset ap (page_action_ranges act)) + owners x (free_pages api st')" for x
    using o by (simp add: page_outcome_def)
  ultimately have "owners x (free_pages api st) = of_bool (x \<in> chunks ap) + owners x (free_pages api st2)" for x
    by simp
  moreover have "page_drop_action api (Some (Ok (ap, act), st')) = Some (Ok ap, st2)"
    by (simp add: page_drop_action_def drop_page_deferred_def drop_page_chunk_heap [OF h']
        drop_page_chunk_heap [OF h1] st1_def [symmetric] st2_def)
  ultimately show ?thesis by blast
qed

end

section \<open>Properties\<close>


text \<open>(C16) Allocation at an address, with the free list on the heap. For a request that neither runs past
  the largest page nor needs merging, the function returns: with exactly the requested pages, which
  leave the free list and nothing else does, when one free chunk covers them; otherwise with an
  error and an unchanged allocator.\<close>

theorem allocate_pages_at_exact:
  assumes "page_tree api pos" "page_alloc_inv api st" "on_heap (free_page_list st)" "n \<noteq> 0"
    "request_fits (containing_address vaddr) n" "no_merge api (free_page_list st) (containing_address vaddr) n"
  shows "(\<exists>ap st'. allocate_pages_at api st vaddr n = Some (Ok ap, st') \<and>
       (\<exists>c \<in># free_pages api st. covers c (containing_address vaddr) n) \<and>
       r_start ap = containing_address vaddr \<and> card (chunks ap) = unat n \<and>
       (\<forall>x. owners x (free_pages api st) = of_bool (x \<in> chunks ap) + owners x (free_pages api st'))) \<or>
     (\<exists>e. allocate_pages_at api st vaddr n = Some (Err e, st) \<and>
       (\<forall>c \<in># free_pages api st. \<not> covers c (containing_address vaddr) n))"
proof -
  have g: "good_page_list api (free_page_list st)" "\<forall>x. owners x (free_pages api st) \<le> 1"
    using assms(2) by (simp_all add: page_alloc_inv_def)
  from page_tree.page_find_specific_chunk_cases [OF assms(1,4,5) g(1) assms(6) g(2)] show ?thesis
  proof cases
    case (1 c ap act list')
    have o: "page_outcome api st (Some vaddr) n (Ok (ap, act)) (st\<lparr>free_page_list := list'\<rparr>)"
      by (rule page_outcome_carve [OF 1(2,3) assms(4) refl on_heap_find_specific [OF 1(1)]]) simp
    have run: "allocate_pages_deferred api st (Some vaddr) n = Some (Ok (ap, act), st\<lparr>free_page_list := list'\<rparr>)"
      using 1(1) assms(4) by (simp add: allocate_pages_deferred_def)
    from page_tree.page_drop_action_heap [OF assms(1) o g(1) assms(3)] o 1(2,4) show ?thesis
      by (intro disjI1) (auto simp: allocate_pages_at_def run page_outcome_def)
  next
    case 2
    with assms(4) show ?thesis
      by (intro disjI2) (auto simp: allocate_pages_at_def allocate_pages_deferred_def page_drop_action_def)
  qed
qed



text \<open>A request that runs past the largest page succeeds with fewer pages than requested: page
  arithmetic saturates, so that the end of the request becomes the largest page.\<close>

lemma saturated_request_short:
  assumes "2 ^ 52 < unat f + unat n" "f \<le> MAX_PAGE" "n \<noteq> 0"
  shows "\<exists>act list'. page_find_specific_chunk api (Array [Some (range_new f MAX_PAGE)]) f n =
      Some (Ok (range_new f MAX_PAGE, act), list') \<and> card (chunks (range_new f MAX_PAGE)) < unat n"
proof -
  have "unat n - 1 = unat (n - 1)" using assms(3) by (simp add: unat_pred)
  then have "2 ^ 52 \<le> unat f + unat (n - 1)" using assms(1,3) by (simp add: unat_gt_0)
  then have "MAX_PAGE \<le> saturating_add f (n - 1)"
    by (simp add: word_le_nat_alt MAX_PAGE_eq unat_saturating_add)
  then have e: "chunk_add f (n - 1) = MAX_PAGE"
    by (simp add: chunk_add_def MAX_PAGE_NUMBER_MAX_PAGE min_absorb1)
  have "f \<noteq> 0 \<Longrightarrow> \<not> f \<le> f - 1" by (simp add: word_le_pred_iff)
  then have "\<exists>act list'. page_find_specific_chunk api (Array [Some (range_new f MAX_PAGE)]) f n =
      Some (Ok (range_new f MAX_PAGE, act), list')"
    by (simp add: page_find_specific_chunk_def Let_def e adjust_chosen_chunk_def ref_remove_def
        MIN_PAGE_eq chunk_sub_1)
  moreover have "card (chunks (range_new f MAX_PAGE)) < unat n"
    using assms(1,2) by (simp add: card_word_Icc MAX_PAGE_eq word_le_nat_alt)
  ultimately show ?thesis by blast
qed

section \<open>Concrete runs\<close>

lemma not_isl_iff: "\<not> isl r \<longleftrightarrow> (\<exists>b. r = Inr b)"
  by (cases r) auto

definition example_pages_init :: "pchunk list page_allocator" where
  "example_pages_init = snd (the (page_init \<lparr>designated_pages_low_end = None, free_page_list = sarb_empty\<rparr> 0x200000))"

definition example_pages_heap :: "pchunk list page_allocator" where
  "example_pages_heap = page_convert_to_heap_allocated (list_rbtree r_start) example_pages_init"

lemma example_pages_init_run:
  "page_init \<lparr>designated_pages_low_end = None, free_page_list = sarb_empty\<rparr> 0x200000 =
     Some (Ok (), example_pages_init)"
proof -
  have "(0x200000 :: usize) < canonicalize_virtual_address (DESIGNATED_PAGES_HIGH_START * PAGE_SIZE)"
    by code_simp
  then show ?thesis by (simp add: example_pages_init_def page_init_def Let_def)
qed

lemma example_low: "containing_address 0x200000 = 0x200"
  by code_simp

lemma example_pages_heap_inv:
  "page_alloc_inv (list_rbtree r_start) example_pages_heap" "on_heap (free_page_list example_pages_heap)"
  "designated_pages_low_end example_pages_heap = Some 0x200"
proof -
  have "designated_pages_low_end \<lparr>designated_pages_low_end = None, free_page_list = sarb_empty\<rparr> = None" by simp
  note i = page_init_state [OF this example_pages_init_run]
  have c: "free_pages (list_rbtree r_start) example_pages_heap = free_pages (list_rbtree r_start) example_pages_init"
    by (simp add: example_pages_heap_def page_convert_to_heap_allocated_def list_rbtree.contents_convert)
  show "page_alloc_inv (list_rbtree r_start) example_pages_heap"
    using i(2) [of "list_rbtree r_start"] i(3) [of _ "list_rbtree r_start"]
    by (simp add: page_alloc_inv_def good_page_list_def c example_low del: set_mset_mset)
  show "on_heap (free_page_list example_pages_heap)" "designated_pages_low_end example_pages_heap = Some 0x200"
    by code_simp+
qed


theorem allocate_pages_at_exact_witness:
  "allocate_pages_at (list_rbtree r_start) example_pages_heap 0x400000 4 \<noteq> None \<and>
   (\<exists>ap st'. allocate_pages_at (list_rbtree r_start) example_pages_heap 0x400000 4 = Some (Ok ap, st') \<and>
     r_start ap = 0x400 \<and> card (chunks ap) = 4)"
proof -
  have a: "containing_address 0x400000 = 0x400" by code_simp
  have f: "request_fits (containing_address 0x400000) 4" by (simp add: request_fits_def a)
  have m: "no_merge (list_rbtree r_start) (free_page_list example_pages_heap) (containing_address 0x400000) 4"
    by code_simp
  have "(4 :: usize) \<noteq> 0" by simp
  note p = allocate_pages_at_exact [OF list_pages.page_tree_axioms example_pages_heap_inv(1,2) this f m]
  have "map_option (\<lambda>(r, st). isl r) (allocate_pages_at (list_rbtree r_start) example_pages_heap 0x400000 4) = Some False"
    by code_simp
  with p show ?thesis unfolding a by auto
qed


end
