(* ===== verification/PteFlags.thy ===== *)
theory PteFlags
  imports MemoryStructs
begin

text \<open>
  The flags of page table entries: \<^verbatim>\<open>src/kernel/pte_flags/src/\<close> (\<^verbatim>\<open>lib.rs\<close>,
  \<^verbatim>\<open>pte_flags_x86_64.rs\<close>, \<^verbatim>\<open>pte_flags_aarch64.rs\<close>).

  A set of flags is its 64-bit value. The operations that the \<open>bitflags!\<close> macro generates come from
  a third-party crate; they are the record \<open>bitflags_api\<close> with the laws of locale \<open>bitflags\<close>,
  which are the documented meanings of those methods. The generic \<open>PteFlags\<close> takes the bits of the
  target architecture, so its operations have the architecture as an argument.
\<close>

section \<open>The operations of bitflags\<close>

text \<open>\<open>from_bits_truncate\<close> and \<open>!\<close> depend on all flags of the type, their first argument here.\<close>

record bitflags_api =
  bf_from_bits_truncate :: "u64 \<Rightarrow> u64 \<Rightarrow> u64"
  bf_not :: "u64 \<Rightarrow> u64 \<Rightarrow> u64"
  bf_contains :: "u64 \<Rightarrow> u64 \<Rightarrow> bool"
  bf_insert :: "u64 \<Rightarrow> u64 \<Rightarrow> u64"
  bf_remove :: "u64 \<Rightarrow> u64 \<Rightarrow> u64"
  bf_toggle :: "u64 \<Rightarrow> u64 \<Rightarrow> u64"
  bf_set :: "u64 \<Rightarrow> u64 \<Rightarrow> bool \<Rightarrow> u64"
  bf_union :: "u64 \<Rightarrow> u64 \<Rightarrow> u64"
  bf_intersection :: "u64 \<Rightarrow> u64 \<Rightarrow> u64"

locale bitflags =
  fixes bf :: bitflags_api
  assumes from_bits_truncate: "bf_from_bits_truncate bf all_flags b = b AND all_flags"
    and not_flags: "bf_not bf all_flags f = NOT f AND all_flags"
    and contains: "bf_contains bf f g \<longleftrightarrow> f AND g = g"
    and insert: "bf_insert bf f g = f OR g"
    and remove: "bf_remove bf f g = f AND NOT g"
    and toggle: "bf_toggle bf f g = f XOR g"
    and set_flags: "bf_set bf f g v = (if v then f OR g else f AND NOT g)"
    and union: "bf_union bf f g = f OR g"
    and intersection: "bf_intersection bf f g = f AND g"
begin

lemmas bf_laws = from_bits_truncate not_flags contains insert remove toggle set_flags union intersection

end

definition bitwise_flags :: bitflags_api where
  "bitwise_flags =
     \<lparr>bf_from_bits_truncate = (\<lambda>a b. b AND a), bf_not = (\<lambda>a f. NOT f AND a),
      bf_contains = (\<lambda>f g. f AND g = g), bf_insert = (\<lambda>f g. f OR g), bf_remove = (\<lambda>f g. f AND NOT g),
      bf_toggle = (\<lambda>f g. f XOR g), bf_set = (\<lambda>f g v. if v then f OR g else f AND NOT g),
      bf_union = (\<lambda>f g. f OR g), bf_intersection = (\<lambda>f g. f AND g)\<rparr>"

interpretation bitwise: bitflags bitwise_flags
  by unfold_locales (simp_all add: bitwise_flags_def)

text \<open>The bit \<open>1 << n\<close>. Below, a flag that the source defines as an alias of another flag is given
  the bits of that flag.\<close>

abbreviation shl :: "u64 \<Rightarrow> nat \<Rightarrow> u64" where "shl a n \<equiv> push_bit n a"

definition union_all :: "u64 list \<Rightarrow> u64" where "union_all fs = foldr (OR) fs 0"

section \<open>x86_64\<close>

datatype x86_flag =
    X86_VALID | X86_WRITABLE | X86_USER_ACCESSIBLE | X86_WRITE_THROUGH | X86_PAT_BIT0 | X86_CACHE_DISABLE
  | X86_DEVICE_MEMORY | X86_PAT_BIT1 | X86_ACCESSED | X86_DIRTY | X86_HUGE_PAGE | X86_PAT_BIT2_FOR_P1
  | X86_GLOBAL | X86_EXCLUSIVE | X86_NOT_EXECUTABLE

definition PTE_FRAME_MASK_X86_64 :: u64 where "PTE_FRAME_MASK_X86_64 = 0x000FFFFFFFFFF000"

fun x86_bits :: "x86_flag \<Rightarrow> u64" where
  "x86_bits X86_VALID = shl 1 0"
| "x86_bits X86_WRITABLE = shl 1 1"
| "x86_bits X86_USER_ACCESSIBLE = shl 1 2"
| "x86_bits X86_WRITE_THROUGH = shl 1 3"
| "x86_bits X86_PAT_BIT0 = shl 1 3"
| "x86_bits X86_CACHE_DISABLE = shl 1 4"
| "x86_bits X86_DEVICE_MEMORY = shl 1 4"
| "x86_bits X86_PAT_BIT1 = shl 1 4"
| "x86_bits X86_ACCESSED = shl 1 5"
| "x86_bits X86_DIRTY = shl 1 6"
| "x86_bits X86_HUGE_PAGE = shl 1 7"
| "x86_bits X86_PAT_BIT2_FOR_P1 = shl 1 7"
| "x86_bits X86_GLOBAL = shl 1 8"
| "x86_bits X86_EXCLUSIVE = shl 1 55"
| "x86_bits X86_NOT_EXECUTABLE = shl 1 63"

definition x86_all :: u64 where
  "x86_all = union_all (map x86_bits
     [X86_VALID, X86_WRITABLE, X86_USER_ACCESSIBLE, X86_WRITE_THROUGH, X86_PAT_BIT0, X86_CACHE_DISABLE,
      X86_DEVICE_MEMORY, X86_PAT_BIT1, X86_ACCESSED, X86_DIRTY, X86_HUGE_PAGE, X86_PAT_BIT2_FOR_P1,
      X86_GLOBAL, X86_EXCLUSIVE, X86_NOT_EXECUTABLE])"

definition x86_new :: u64 where "x86_new = x86_bits X86_NOT_EXECUTABLE"

definition x86_valid :: "bitflags_api \<Rightarrow> u64 \<Rightarrow> bool \<Rightarrow> u64" where
  "x86_valid bf self enable = bf_set bf self (x86_bits X86_VALID) enable"

definition x86_writable :: "bitflags_api \<Rightarrow> u64 \<Rightarrow> bool \<Rightarrow> u64" where
  "x86_writable bf self enable = bf_set bf self (x86_bits X86_WRITABLE) enable"

definition x86_executable :: "bitflags_api \<Rightarrow> u64 \<Rightarrow> bool \<Rightarrow> u64" where
  "x86_executable bf self enable = bf_set bf self (x86_bits X86_NOT_EXECUTABLE) (\<not> enable)"

definition x86_device_memory :: "bitflags_api \<Rightarrow> u64 \<Rightarrow> bool \<Rightarrow> u64" where
  "x86_device_memory bf self enable = bf_set bf self (x86_bits X86_DEVICE_MEMORY) enable"

definition x86_exclusive :: "bitflags_api \<Rightarrow> u64 \<Rightarrow> bool \<Rightarrow> u64" where
  "x86_exclusive bf self enable = bf_set bf self (x86_bits X86_EXCLUSIVE) enable"

definition x86_accessed :: "bitflags_api \<Rightarrow> u64 \<Rightarrow> bool \<Rightarrow> u64" where
  "x86_accessed bf self enable = bf_set bf self (x86_bits X86_ACCESSED) enable"

definition x86_dirty :: "bitflags_api \<Rightarrow> u64 \<Rightarrow> bool \<Rightarrow> u64" where
  "x86_dirty bf self enable = bf_set bf self (x86_bits X86_DIRTY) enable"

definition x86_is_valid :: "bitflags_api \<Rightarrow> u64 \<Rightarrow> bool" where
  "x86_is_valid bf self \<longleftrightarrow> bf_contains bf self (x86_bits X86_VALID)"

definition x86_is_writable :: "bitflags_api \<Rightarrow> u64 \<Rightarrow> bool" where
  "x86_is_writable bf self \<longleftrightarrow> bf_contains bf self (x86_bits X86_WRITABLE)"

definition x86_is_executable :: "bitflags_api \<Rightarrow> u64 \<Rightarrow> bool" where
  "x86_is_executable bf self \<longleftrightarrow> \<not> bf_contains bf self (x86_bits X86_NOT_EXECUTABLE)"

definition x86_is_device_memory :: "bitflags_api \<Rightarrow> u64 \<Rightarrow> bool" where
  "x86_is_device_memory bf self \<longleftrightarrow> bf_contains bf self (x86_bits X86_DEVICE_MEMORY)"

definition x86_is_dirty :: "bitflags_api \<Rightarrow> u64 \<Rightarrow> bool" where
  "x86_is_dirty bf self \<longleftrightarrow> bf_contains bf self (x86_bits X86_DIRTY)"

definition x86_is_accessed :: "bitflags_api \<Rightarrow> u64 \<Rightarrow> bool" where
  "x86_is_accessed bf self \<longleftrightarrow> bf_contains bf self (x86_bits X86_ACCESSED)"

definition x86_is_exclusive :: "bitflags_api \<Rightarrow> u64 \<Rightarrow> bool" where
  "x86_is_exclusive bf self \<longleftrightarrow> bf_contains bf self (x86_bits X86_EXCLUSIVE)"

definition x86_is_huge :: "bitflags_api \<Rightarrow> u64 \<Rightarrow> bool" where
  "x86_is_huge bf self \<longleftrightarrow> bf_contains bf self (x86_bits X86_HUGE_PAGE)"

definition BIT_0 :: u8 where "BIT_0 = push_bit 0 1"

definition BIT_1 :: u8 where "BIT_1 = push_bit 1 1"

definition BIT_2 :: u8 where "BIT_2 = push_bit 2 1"

definition x86_pat_index :: "bitflags_api \<Rightarrow> u64 \<Rightarrow> u8 \<Rightarrow> u64" where
  "x86_pat_index bf self pat_slot =
     (let self = bf_set bf self (x86_bits X86_PAT_BIT0) (pat_slot AND BIT_0 = BIT_0);
          self = bf_set bf self (x86_bits X86_PAT_BIT1) (pat_slot AND BIT_1 = BIT_1);
          self = bf_set bf self (x86_bits X86_PAT_BIT2_FOR_P1) (pat_slot AND BIT_2 = BIT_2)
      in self)"

definition x86_get_pat_index :: "bitflags_api \<Rightarrow> u64 \<Rightarrow> u8" where
  "x86_get_pat_index bf self =
     (let pat_index = 0;
          pat_index = (if bf_contains bf self (x86_bits X86_PAT_BIT0) then pat_index OR BIT_0 else pat_index);
          pat_index = (if bf_contains bf self (x86_bits X86_PAT_BIT1) then pat_index OR BIT_1 else pat_index);
          pat_index = (if bf_contains bf self (x86_bits X86_PAT_BIT2_FOR_P1) then pat_index OR BIT_2 else pat_index)
      in pat_index)"

definition x86_adjust_for_higher_level_pte :: "bitflags_api \<Rightarrow> u64 \<Rightarrow> u64" where
  "x86_adjust_for_higher_level_pte bf self =
     x86_valid bf (x86_pat_index bf (x86_exclusive bf (x86_executable bf self True) False) 0) True"

section \<open>aarch64\<close>

datatype a64_flag =
    A64_VALID | A64_PAGE_DESCRIPTOR | A64_MAIR_INDEX_0 | A64_NORMAL_MEMORY | A64_MAIR_INDEX_1
  | A64_DEVICE_MEMORY | A64_MAIR_INDEX_2 | A64_MAIR_INDEX_3 | A64_MAIR_INDEX_4 | A64_MAIR_INDEX_5
  | A64_MAIR_INDEX_6 | A64_MAIR_INDEX_7 | A64_NON_SECURE_ACCESS | A64_USER_ACCESSIBLE | A64_READ_ONLY
  | A64_NON_SHAREABLE | A64_OUTER_SHAREABLE | A64_INNER_SHAREABLE | A64_ACCESSED | A64_NOT_GLOBAL
  | A64_GUARDED_PAGE | A64_DIRTY | A64_CONTIGUOUS | A64_PRIV_EXEC_NEVER | A64_USER_EXEC_NEVER
  | A64_NOT_EXECUTABLE | A64_EXCLUSIVE

definition PTE_FRAME_MASK_AARCH64 :: u64 where "PTE_FRAME_MASK_AARCH64 = 0x0000FFFFFFFFF000"

fun a64_bits :: "a64_flag \<Rightarrow> u64" where
  "a64_bits A64_VALID = shl 1 0"
| "a64_bits A64_PAGE_DESCRIPTOR = shl 1 1"
| "a64_bits A64_MAIR_INDEX_0 = shl 0 2"
| "a64_bits A64_NORMAL_MEMORY = shl 0 2"
| "a64_bits A64_MAIR_INDEX_1 = shl 1 2"
| "a64_bits A64_DEVICE_MEMORY = shl 1 2"
| "a64_bits A64_MAIR_INDEX_2 = shl 2 2"
| "a64_bits A64_MAIR_INDEX_3 = shl 3 2"
| "a64_bits A64_MAIR_INDEX_4 = shl 4 2"
| "a64_bits A64_MAIR_INDEX_5 = shl 5 2"
| "a64_bits A64_MAIR_INDEX_6 = shl 6 2"
| "a64_bits A64_MAIR_INDEX_7 = shl 7 2"
| "a64_bits A64_NON_SECURE_ACCESS = shl 1 5"
| "a64_bits A64_USER_ACCESSIBLE = shl 1 6"
| "a64_bits A64_READ_ONLY = shl 1 7"
| "a64_bits A64_NON_SHAREABLE = shl 0 8"
| "a64_bits A64_OUTER_SHAREABLE = shl 2 8"
| "a64_bits A64_INNER_SHAREABLE = shl 3 8"
| "a64_bits A64_ACCESSED = shl 1 10"
| "a64_bits A64_NOT_GLOBAL = shl 1 11"
| "a64_bits A64_GUARDED_PAGE = shl 1 50"
| "a64_bits A64_DIRTY = shl 1 51"
| "a64_bits A64_CONTIGUOUS = shl 1 52"
| "a64_bits A64_PRIV_EXEC_NEVER = shl 1 53"
| "a64_bits A64_USER_EXEC_NEVER = shl 1 54"
| "a64_bits A64_NOT_EXECUTABLE = shl 1 53 OR shl 1 54"
| "a64_bits A64_EXCLUSIVE = shl 1 55"

definition a64_all :: u64 where
  "a64_all = union_all (map a64_bits
     [A64_VALID, A64_PAGE_DESCRIPTOR, A64_MAIR_INDEX_0, A64_NORMAL_MEMORY, A64_MAIR_INDEX_1,
      A64_DEVICE_MEMORY, A64_MAIR_INDEX_2, A64_MAIR_INDEX_3, A64_MAIR_INDEX_4, A64_MAIR_INDEX_5,
      A64_MAIR_INDEX_6, A64_MAIR_INDEX_7, A64_NON_SECURE_ACCESS, A64_USER_ACCESSIBLE, A64_READ_ONLY,
      A64_NON_SHAREABLE, A64_OUTER_SHAREABLE, A64_INNER_SHAREABLE, A64_ACCESSED, A64_NOT_GLOBAL,
      A64_GUARDED_PAGE, A64_DIRTY, A64_CONTIGUOUS, A64_PRIV_EXEC_NEVER, A64_USER_EXEC_NEVER,
      A64_NOT_EXECUTABLE, A64_EXCLUSIVE])"

definition SHAREABLE_BITS_MASK :: u64 where "SHAREABLE_BITS_MASK = a64_bits A64_INNER_SHAREABLE"

definition MAIR_BITS_MASK :: u64 where "MAIR_BITS_MASK = a64_bits A64_MAIR_INDEX_7"

definition a64_new :: "bitflags_api \<Rightarrow> u64" where
  "a64_new bf = bf_from_bits_truncate bf a64_all
     (a64_bits A64_NORMAL_MEMORY OR a64_bits A64_OUTER_SHAREABLE OR a64_bits A64_READ_ONLY OR
      a64_bits A64_PAGE_DESCRIPTOR OR a64_bits A64_ACCESSED OR a64_bits A64_NOT_GLOBAL OR
      a64_bits A64_NOT_EXECUTABLE)"

definition a64_valid :: "bitflags_api \<Rightarrow> u64 \<Rightarrow> bool \<Rightarrow> u64" where
  "a64_valid bf self enable = bf_set bf self (a64_bits A64_VALID) enable"

definition a64_writable :: "bitflags_api \<Rightarrow> u64 \<Rightarrow> bool \<Rightarrow> u64" where
  "a64_writable bf self enable = bf_set bf self (a64_bits A64_READ_ONLY) (\<not> enable)"

definition a64_executable :: "bitflags_api \<Rightarrow> u64 \<Rightarrow> bool \<Rightarrow> u64" where
  "a64_executable bf self enable = bf_set bf self (a64_bits A64_NOT_EXECUTABLE) (\<not> enable)"

definition a64_device_memory :: "bitflags_api \<Rightarrow> u64 \<Rightarrow> bool \<Rightarrow> u64" where
  "a64_device_memory bf self enable =
     (let self = bf_remove bf self (a64_bits A64_MAIR_INDEX_7) in
      if enable then bf_insert bf self (a64_bits A64_DEVICE_MEMORY)
      else bf_insert bf self (a64_bits A64_NORMAL_MEMORY))"

definition a64_exclusive :: "bitflags_api \<Rightarrow> u64 \<Rightarrow> bool \<Rightarrow> u64" where
  "a64_exclusive bf self enable = bf_set bf self (a64_bits A64_EXCLUSIVE) enable"

definition a64_accessed :: "bitflags_api \<Rightarrow> u64 \<Rightarrow> bool \<Rightarrow> u64" where
  "a64_accessed bf self enable = bf_set bf self (a64_bits A64_ACCESSED) enable"

definition a64_dirty :: "bitflags_api \<Rightarrow> u64 \<Rightarrow> bool \<Rightarrow> u64" where
  "a64_dirty bf self enable = bf_set bf self (a64_bits A64_DIRTY) enable"

definition a64_page_descriptor :: "bitflags_api \<Rightarrow> u64 \<Rightarrow> bool \<Rightarrow> u64" where
  "a64_page_descriptor bf self enable = bf_set bf self (a64_bits A64_PAGE_DESCRIPTOR) enable"

definition a64_is_valid :: "bitflags_api \<Rightarrow> u64 \<Rightarrow> bool" where
  "a64_is_valid bf self \<longleftrightarrow> bf_contains bf self (a64_bits A64_VALID)"

definition a64_is_writable :: "bitflags_api \<Rightarrow> u64 \<Rightarrow> bool" where
  "a64_is_writable bf self \<longleftrightarrow> \<not> bf_contains bf self (a64_bits A64_READ_ONLY)"

definition a64_is_executable :: "bitflags_api \<Rightarrow> u64 \<Rightarrow> bool" where
  "a64_is_executable bf self \<longleftrightarrow> \<not> bf_contains bf self (a64_bits A64_NOT_EXECUTABLE)"

definition a64_is_device_memory :: "bitflags_api \<Rightarrow> u64 \<Rightarrow> bool" where
  "a64_is_device_memory bf self \<longleftrightarrow> bf_contains bf self (a64_bits A64_DEVICE_MEMORY)"

definition a64_is_dirty :: "bitflags_api \<Rightarrow> u64 \<Rightarrow> bool" where
  "a64_is_dirty bf self \<longleftrightarrow> bf_contains bf self (a64_bits A64_DIRTY)"

definition a64_is_accessed :: "bitflags_api \<Rightarrow> u64 \<Rightarrow> bool" where
  "a64_is_accessed bf self \<longleftrightarrow> bf_contains bf self (a64_bits A64_ACCESSED)"

definition a64_is_exclusive :: "bitflags_api \<Rightarrow> u64 \<Rightarrow> bool" where
  "a64_is_exclusive bf self \<longleftrightarrow> bf_contains bf self (a64_bits A64_EXCLUSIVE)"

definition a64_is_page_descriptor :: "bitflags_api \<Rightarrow> u64 \<Rightarrow> bool" where
  "a64_is_page_descriptor bf self \<longleftrightarrow> bf_contains bf self (a64_bits A64_PAGE_DESCRIPTOR)"

definition MASKED_BITS_FOR_CONVERSION :: "bitflags_api \<Rightarrow> u64" where
  "MASKED_BITS_FOR_CONVERSION bf =
     bf_from_bits_truncate bf a64_all (SHAREABLE_BITS_MASK OR MAIR_BITS_MASK)"

definition a64_adjust_for_higher_level_pte :: "bitflags_api \<Rightarrow> u64 \<Rightarrow> u64" where
  "a64_adjust_for_higher_level_pte bf self =
     a64_valid bf
       (a64_page_descriptor bf
         (a64_accessed bf (a64_exclusive bf (a64_executable bf self True) False) True) True) True"

section \<open>The generic flags\<close>

datatype arch = X86_64 | Aarch64

datatype pte_flag =
    PF_VALID | PF_WRITABLE | PF_USER_ACCESSIBLE | PF_DEVICE_MEMORY | PF_ACCESSED | PF_DIRTY | PF_GLOBAL
  | PF_NOT_EXECUTABLE | PF_EXCLUSIVE

definition DEVICE_MEMORY_BITS :: "arch \<Rightarrow> u64" where
  "DEVICE_MEMORY_BITS a = (case a of X86_64 \<Rightarrow> x86_bits X86_DEVICE_MEMORY | Aarch64 \<Rightarrow> a64_bits A64_DEVICE_MEMORY)"

definition WRITABLE_BIT :: "arch \<Rightarrow> u64" where
  "WRITABLE_BIT a = (case a of X86_64 \<Rightarrow> x86_bits X86_WRITABLE | Aarch64 \<Rightarrow> a64_bits A64_READ_ONLY)"

definition GLOBAL_BIT :: "arch \<Rightarrow> u64" where
  "GLOBAL_BIT a = (case a of X86_64 \<Rightarrow> x86_bits X86_GLOBAL | Aarch64 \<Rightarrow> a64_bits A64_NOT_GLOBAL)"

fun pte_bits :: "arch \<Rightarrow> pte_flag \<Rightarrow> u64" where
  "pte_bits a PF_VALID = (case a of X86_64 \<Rightarrow> x86_bits X86_VALID | Aarch64 \<Rightarrow> a64_bits A64_VALID)"
| "pte_bits a PF_WRITABLE = WRITABLE_BIT a"
| "pte_bits a PF_USER_ACCESSIBLE =
     (case a of X86_64 \<Rightarrow> x86_bits X86_USER_ACCESSIBLE | Aarch64 \<Rightarrow> a64_bits A64_USER_ACCESSIBLE)"
| "pte_bits a PF_DEVICE_MEMORY = DEVICE_MEMORY_BITS a"
| "pte_bits a PF_ACCESSED = (case a of X86_64 \<Rightarrow> x86_bits X86_ACCESSED | Aarch64 \<Rightarrow> a64_bits A64_ACCESSED)"
| "pte_bits a PF_DIRTY = (case a of X86_64 \<Rightarrow> x86_bits X86_DIRTY | Aarch64 \<Rightarrow> a64_bits A64_DIRTY)"
| "pte_bits a PF_GLOBAL = GLOBAL_BIT a"
| "pte_bits a PF_NOT_EXECUTABLE =
     (case a of X86_64 \<Rightarrow> x86_bits X86_NOT_EXECUTABLE | Aarch64 \<Rightarrow> a64_bits A64_NOT_EXECUTABLE)"
| "pte_bits a PF_EXCLUSIVE =
     (case a of X86_64 \<Rightarrow> x86_bits X86_EXCLUSIVE | Aarch64 \<Rightarrow> a64_bits A64_EXCLUSIVE)"

definition pte_all :: "arch \<Rightarrow> u64" where
  "pte_all a = union_all (map (pte_bits a)
     [PF_VALID, PF_WRITABLE, PF_USER_ACCESSIBLE, PF_DEVICE_MEMORY, PF_ACCESSED, PF_DIRTY, PF_GLOBAL,
      PF_NOT_EXECUTABLE, PF_EXCLUSIVE])"

definition pte_new :: "bitflags_api \<Rightarrow> arch \<Rightarrow> u64" where
  "pte_new bf a = bf_from_bits_truncate bf (pte_all a) (pte_bits a PF_ACCESSED OR pte_bits a PF_NOT_EXECUTABLE)"

definition pte_valid :: "bitflags_api \<Rightarrow> arch \<Rightarrow> u64 \<Rightarrow> bool \<Rightarrow> u64" where
  "pte_valid bf a self enable = bf_set bf self (pte_bits a PF_VALID) enable"

definition pte_writable :: "bitflags_api \<Rightarrow> arch \<Rightarrow> u64 \<Rightarrow> bool \<Rightarrow> u64" where
  "pte_writable bf a self enable = bf_set bf self (pte_bits a PF_WRITABLE) enable"

definition pte_executable :: "bitflags_api \<Rightarrow> arch \<Rightarrow> u64 \<Rightarrow> bool \<Rightarrow> u64" where
  "pte_executable bf a self enable = bf_set bf self (pte_bits a PF_NOT_EXECUTABLE) (\<not> enable)"

definition pte_device_memory :: "bitflags_api \<Rightarrow> arch \<Rightarrow> u64 \<Rightarrow> bool \<Rightarrow> u64" where
  "pte_device_memory bf a self enable = bf_set bf self (pte_bits a PF_DEVICE_MEMORY) enable"

definition pte_exclusive :: "bitflags_api \<Rightarrow> arch \<Rightarrow> u64 \<Rightarrow> bool \<Rightarrow> u64" where
  "pte_exclusive bf a self enable = bf_set bf self (pte_bits a PF_EXCLUSIVE) enable"

definition pte_accessed :: "bitflags_api \<Rightarrow> arch \<Rightarrow> u64 \<Rightarrow> bool \<Rightarrow> u64" where
  "pte_accessed bf a self enable = bf_set bf self (pte_bits a PF_ACCESSED) enable"

definition pte_dirty :: "bitflags_api \<Rightarrow> arch \<Rightarrow> u64 \<Rightarrow> bool \<Rightarrow> u64" where
  "pte_dirty bf a self enable = bf_set bf self (pte_bits a PF_DIRTY) enable"

definition pte_is_valid :: "bitflags_api \<Rightarrow> arch \<Rightarrow> u64 \<Rightarrow> bool" where
  "pte_is_valid bf a self \<longleftrightarrow> bf_contains bf self (pte_bits a PF_VALID)"

definition pte_is_writable :: "bitflags_api \<Rightarrow> arch \<Rightarrow> u64 \<Rightarrow> bool" where
  "pte_is_writable bf a self \<longleftrightarrow> bf_contains bf self (pte_bits a PF_WRITABLE)"

definition pte_is_executable :: "bitflags_api \<Rightarrow> arch \<Rightarrow> u64 \<Rightarrow> bool" where
  "pte_is_executable bf a self \<longleftrightarrow> \<not> bf_contains bf self (pte_bits a PF_NOT_EXECUTABLE)"

definition pte_is_device_memory :: "bitflags_api \<Rightarrow> arch \<Rightarrow> u64 \<Rightarrow> bool" where
  "pte_is_device_memory bf a self \<longleftrightarrow> bf_contains bf self (pte_bits a PF_DEVICE_MEMORY)"

definition pte_is_dirty :: "bitflags_api \<Rightarrow> arch \<Rightarrow> u64 \<Rightarrow> bool" where
  "pte_is_dirty bf a self \<longleftrightarrow> bf_contains bf self (pte_bits a PF_DIRTY)"

definition pte_is_accessed :: "bitflags_api \<Rightarrow> arch \<Rightarrow> u64 \<Rightarrow> bool" where
  "pte_is_accessed bf a self \<longleftrightarrow> bf_contains bf self (pte_bits a PF_ACCESSED)"

definition pte_is_exclusive :: "bitflags_api \<Rightarrow> arch \<Rightarrow> u64 \<Rightarrow> bool" where
  "pte_is_exclusive bf a self \<longleftrightarrow> bf_contains bf self (pte_bits a PF_EXCLUSIVE)"

section \<open>Conversions\<close>

definition x86_from_general :: "bitflags_api \<Rightarrow> u64 \<Rightarrow> u64" where
  "x86_from_general bf general = bf_from_bits_truncate bf x86_all general"

definition x86_to_general :: "bitflags_api \<Rightarrow> u64 \<Rightarrow> u64" where
  "x86_to_general bf specific = bf_from_bits_truncate bf (pte_all X86_64) specific"

definition a64_from_general :: "bitflags_api \<Rightarrow> u64 \<Rightarrow> u64" where
  "a64_from_general bf general =
     (let specific = bf_from_bits_truncate bf a64_all general;
          specific = bf_toggle bf specific (bf_union bf (WRITABLE_BIT Aarch64) (GLOBAL_BIT Aarch64));
          specific = bf_intersection bf specific (bf_not bf a64_all (MASKED_BITS_FOR_CONVERSION bf));
          specific = bf_union bf specific (a64_bits A64_OUTER_SHAREABLE);
          specific = bf_union bf specific (bf_union bf (a64_bits A64_PAGE_DESCRIPTOR) (a64_bits A64_ACCESSED))
      in if bf_contains bf general (pte_bits Aarch64 PF_DEVICE_MEMORY)
         then bf_union bf specific (a64_bits A64_DEVICE_MEMORY)
         else bf_union bf specific (a64_bits A64_NORMAL_MEMORY))"

definition a64_to_general :: "bitflags_api \<Rightarrow> u64 \<Rightarrow> u64" where
  "a64_to_general bf specific =
     (let specific = bf_toggle bf specific (bf_union bf (WRITABLE_BIT Aarch64) (GLOBAL_BIT Aarch64));
          specific = bf_intersection bf specific (bf_not bf a64_all (a64_bits A64_PAGE_DESCRIPTOR));
          general = bf_from_bits_truncate bf (pte_all Aarch64) specific
      in if bf_intersection bf specific MAIR_BITS_MASK = a64_bits A64_DEVICE_MEMORY
         then bf_union bf general (pte_bits Aarch64 PF_DEVICE_MEMORY)
         else general)"

end
