(* ===== verification/PteConversions.thy ===== *)
theory PteConversions
  imports PteFlags
begin

text \<open>
  The flags as sets of bit positions, and the conversions between the generic flags and those of the
  two architectures: they agree on the meaning of every generic flag.
\<close>

section \<open>Bit positions\<close>

fun x86_pos :: "x86_flag \<Rightarrow> nat" where
  "x86_pos X86_VALID = 0" | "x86_pos X86_WRITABLE = 1" | "x86_pos X86_USER_ACCESSIBLE = 2"
| "x86_pos X86_WRITE_THROUGH = 3" | "x86_pos X86_PAT_BIT0 = 3" | "x86_pos X86_CACHE_DISABLE = 4"
| "x86_pos X86_DEVICE_MEMORY = 4" | "x86_pos X86_PAT_BIT1 = 4" | "x86_pos X86_ACCESSED = 5"
| "x86_pos X86_DIRTY = 6" | "x86_pos X86_HUGE_PAGE = 7" | "x86_pos X86_PAT_BIT2_FOR_P1 = 7"
| "x86_pos X86_GLOBAL = 8" | "x86_pos X86_EXCLUSIVE = 55" | "x86_pos X86_NOT_EXECUTABLE = 63"

fun a64_pos :: "a64_flag \<Rightarrow> nat set" where
  "a64_pos A64_VALID = {0}" | "a64_pos A64_PAGE_DESCRIPTOR = {1}" | "a64_pos A64_MAIR_INDEX_0 = {}"
| "a64_pos A64_NORMAL_MEMORY = {}" | "a64_pos A64_MAIR_INDEX_1 = {2}" | "a64_pos A64_DEVICE_MEMORY = {2}"
| "a64_pos A64_MAIR_INDEX_2 = {3}" | "a64_pos A64_MAIR_INDEX_3 = {2, 3}" | "a64_pos A64_MAIR_INDEX_4 = {4}"
| "a64_pos A64_MAIR_INDEX_5 = {2, 4}" | "a64_pos A64_MAIR_INDEX_6 = {3, 4}" | "a64_pos A64_MAIR_INDEX_7 = {2, 3, 4}"
| "a64_pos A64_NON_SECURE_ACCESS = {5}" | "a64_pos A64_USER_ACCESSIBLE = {6}" | "a64_pos A64_READ_ONLY = {7}"
| "a64_pos A64_NON_SHAREABLE = {}" | "a64_pos A64_OUTER_SHAREABLE = {9}" | "a64_pos A64_INNER_SHAREABLE = {8, 9}"
| "a64_pos A64_ACCESSED = {10}" | "a64_pos A64_NOT_GLOBAL = {11}" | "a64_pos A64_GUARDED_PAGE = {50}"
| "a64_pos A64_DIRTY = {51}" | "a64_pos A64_CONTIGUOUS = {52}" | "a64_pos A64_PRIV_EXEC_NEVER = {53}"
| "a64_pos A64_USER_EXEC_NEVER = {54}" | "a64_pos A64_NOT_EXECUTABLE = {53, 54}" | "a64_pos A64_EXCLUSIVE = {55}"

lemma bit_shl_1: "n < 64 \<Longrightarrow> bit (push_bit n (1 :: u64)) k \<longleftrightarrow> k = n"
  by (auto simp: bit_simps)

lemma bit_x86_bits: "bit (x86_bits f) k \<longleftrightarrow> k = x86_pos f"
  by (cases f) (simp_all only: x86_bits.simps x86_pos.simps, (rule bit_shl_1, simp)+)

lemma bit_numeral_unfold:
  "bit (0 :: u64) k \<longleftrightarrow> False" "bit (1 :: u64) k \<longleftrightarrow> k = 0"
  "bit (2 :: u64) k \<longleftrightarrow> k = 1" "bit (3 :: u64) k \<longleftrightarrow> k = 0 \<or> k = 1"
  "bit (4 :: u64) k \<longleftrightarrow> k = 2" "bit (5 :: u64) k \<longleftrightarrow> k = 0 \<or> k = 2"
  "bit (6 :: u64) k \<longleftrightarrow> k = 1 \<or> k = 2" "bit (7 :: u64) k \<longleftrightarrow> k = 0 \<or> k = 1 \<or> k = 2"
  by (auto simp: bit_numeral_rec bit_1_iff split: nat.splits)

lemma bit_a64_bits: "bit (a64_bits f) k \<longleftrightarrow> k \<in> a64_pos f"
  by (cases f)
    (simp_all only: a64_bits.simps a64_pos.simps bit_push_bit_iff bit_or_iff bit_numeral_unfold, auto)
lemma flags_subset_iff: "f AND g = g \<longleftrightarrow> (\<forall>k. bit g k \<longrightarrow> bit f k)" for f g :: u64
proof
  assume "f AND g = g"
  then show "\<forall>k. bit g k \<longrightarrow> bit f k" by (metis bit_and_iff)
next
  assume "\<forall>k. bit g k \<longrightarrow> bit f k"
  then show "f AND g = g" by (intro bit_eqI) (auto simp: bit_and_iff)
qed

lemma contains_iff:
  "f AND x86_bits u = x86_bits u \<longleftrightarrow> bit f (x86_pos u)"
  "f AND a64_bits v = a64_bits v \<longleftrightarrow> (\<forall>k \<in> a64_pos v. bit f k)"
  by (auto simp: flags_subset_iff bit_x86_bits bit_a64_bits)

fun pte_pos :: "arch \<Rightarrow> pte_flag \<Rightarrow> nat set" where
  "pte_pos a PF_VALID = {0}"
| "pte_pos a PF_WRITABLE = (case a of X86_64 \<Rightarrow> {1} | Aarch64 \<Rightarrow> {7})"
| "pte_pos a PF_USER_ACCESSIBLE = (case a of X86_64 \<Rightarrow> {2} | Aarch64 \<Rightarrow> {6})"
| "pte_pos a PF_DEVICE_MEMORY = (case a of X86_64 \<Rightarrow> {4} | Aarch64 \<Rightarrow> {2})"
| "pte_pos a PF_ACCESSED = (case a of X86_64 \<Rightarrow> {5} | Aarch64 \<Rightarrow> {10})"
| "pte_pos a PF_DIRTY = (case a of X86_64 \<Rightarrow> {6} | Aarch64 \<Rightarrow> {51})"
| "pte_pos a PF_GLOBAL = (case a of X86_64 \<Rightarrow> {8} | Aarch64 \<Rightarrow> {11})"
| "pte_pos a PF_NOT_EXECUTABLE = (case a of X86_64 \<Rightarrow> {63} | Aarch64 \<Rightarrow> {53, 54})"
| "pte_pos a PF_EXCLUSIVE = {55}"

lemma bit_pte_bits: "bit (pte_bits a f) k \<longleftrightarrow> k \<in> pte_pos a f"
  by (cases f; cases a)
    (simp_all add: bit_x86_bits bit_a64_bits WRITABLE_BIT_def DEVICE_MEMORY_BITS_def GLOBAL_BIT_def
      del: x86_bits.simps a64_bits.simps)

lemma contains_pte_iff: "f AND pte_bits a u = pte_bits a u \<longleftrightarrow> (\<forall>k \<in> pte_pos a u. bit f k)"
  by (auto simp: flags_subset_iff bit_pte_bits simp del: pte_bits.simps)

lemma bit_union_all: "bit (union_all fs) k \<longleftrightarrow> (\<exists>f \<in> set fs. bit f k)"
  by (induction fs) (auto simp: union_all_def bit_simps)

lemma bit_all_flags:
  "bit x86_all k \<longleftrightarrow> k \<in> {0, 1, 2, 3, 4, 5, 6, 7, 8, 55, 63}"
  "bit a64_all k \<longleftrightarrow> k \<in> {0, 1, 2, 3, 4, 5, 6, 7, 8, 9, 10, 11, 50, 51, 52, 53, 54, 55}"
  "bit (pte_all X86_64) k \<longleftrightarrow> k \<in> {0, 1, 2, 4, 5, 6, 8, 55, 63}"
  "bit (pte_all Aarch64) k \<longleftrightarrow> k \<in> {0, 2, 6, 7, 10, 11, 51, 53, 54, 55}"
  by (auto simp: x86_all_def a64_all_def pte_all_def bit_union_all bit_x86_bits bit_a64_bits bit_pte_bits
      simp del: x86_bits.simps a64_bits.simps pte_bits.simps)

lemmas flag_bits = bit_x86_bits bit_a64_bits bit_pte_bits bit_all_flags contains_iff contains_pte_iff bit_simps

declare x86_bits.simps [simp del] a64_bits.simps [simp del] pte_bits.simps [simp del]

section \<open>x86_64\<close>

text \<open>(C24) On x86_64 the conversion of the generic flags is lossless and keeps the meaning of each:
  converting and converting back is the identity on generic flags, and every question about a
  generic flag has the same answer before and after the conversion.\<close>

theorem x86_conversion:
  assumes "bitflags bf" "g AND pte_all X86_64 = g"
  shows "x86_to_general bf (x86_from_general bf g) = g \<and>
    x86_is_valid bf (x86_from_general bf g) = pte_is_valid bf X86_64 g \<and>
    x86_is_writable bf (x86_from_general bf g) = pte_is_writable bf X86_64 g \<and>
    x86_is_executable bf (x86_from_general bf g) = pte_is_executable bf X86_64 g \<and>
    x86_is_device_memory bf (x86_from_general bf g) = pte_is_device_memory bf X86_64 g \<and>
    x86_is_dirty bf (x86_from_general bf g) = pte_is_dirty bf X86_64 g \<and>
    x86_is_accessed bf (x86_from_general bf g) = pte_is_accessed bf X86_64 g \<and>
    x86_is_exclusive bf (x86_from_general bf g) = pte_is_exclusive bf X86_64 g"
proof -
  note bf = bitflags.bf_laws [OF assms(1)]
  have "x86_to_general bf (x86_from_general bf g) = (g AND x86_all) AND pte_all X86_64"
    by (simp add: x86_to_general_def x86_from_general_def bf)
  also have "\<dots> = g AND pte_all X86_64" by (rule bit_eqI) (auto simp: flag_bits)
  finally show ?thesis using assms(2)
    by (simp add: bf x86_from_general_def x86_is_valid_def pte_is_valid_def x86_is_writable_def
        pte_is_writable_def x86_is_executable_def pte_is_executable_def x86_is_device_memory_def
        pte_is_device_memory_def x86_is_dirty_def pte_is_dirty_def x86_is_accessed_def pte_is_accessed_def
        x86_is_exclusive_def pte_is_exclusive_def flag_bits)
qed

theorem x86_conversion_witness:
  "x86_to_general bitwise_flags (x86_from_general bitwise_flags 0x8000000000000023) = 0x8000000000000023 \<and>
   x86_is_writable bitwise_flags 0x8000000000000023"
proof -
  have "(0x8000000000000023 :: u64) AND pte_all X86_64 = 0x8000000000000023" by code_simp
  from x86_conversion [OF bitwise.bitflags_axioms this]
  have "x86_to_general bitwise_flags (x86_from_general bitwise_flags 0x8000000000000023) = 0x8000000000000023" ..
  moreover have "x86_is_writable bitwise_flags 0x8000000000000023" by code_simp
  ultimately show ?thesis ..
qed

section \<open>aarch64\<close>

lemma bit_WRITABLE_GLOBAL:
  "bit (WRITABLE_BIT Aarch64) k \<longleftrightarrow> k = 7" "bit (GLOBAL_BIT Aarch64) k \<longleftrightarrow> k = 11"
  by (simp_all add: WRITABLE_BIT_def GLOBAL_BIT_def bit_a64_bits)

lemma bit_masks: "bit MAIR_BITS_MASK k \<longleftrightarrow> k \<in> {2, 3, 4}" "bit SHAREABLE_BITS_MASK k \<longleftrightarrow> k \<in> {8, 9}"
  by (simp_all add: MAIR_BITS_MASK_def SHAREABLE_BITS_MASK_def bit_a64_bits)

context bitflags
begin

lemma bit_a64_from_general:
  "bit (a64_from_general bf g) k \<longleftrightarrow>
     k \<in> {1, 9, 10} \<or> k \<in> {7, 11} \<and> \<not> bit g k \<or> k \<in> {0, 2, 5, 6, 50, 51, 52, 53, 54, 55} \<and> bit g k"
proof -
  let ?s = "((g AND a64_all) XOR (WRITABLE_BIT Aarch64 OR GLOBAL_BIT Aarch64)) AND
      (NOT ((SHAREABLE_BITS_MASK OR MAIR_BITS_MASK) AND a64_all) AND a64_all) OR
    a64_bits A64_OUTER_SHAREABLE OR (a64_bits A64_PAGE_DESCRIPTOR OR a64_bits A64_ACCESSED)"
  note bits = bit_or_iff bit_and_iff bit_xor_iff bit_not_iff bit_all_flags(2) bit_masks bit_a64_bits
    bit_WRITABLE_GLOBAL
  have "bit (a64_from_general bf g) k \<longleftrightarrow> bit ?s k \<or> k = 2 \<and> bit g 2"
    unfolding a64_from_general_def MASKED_BITS_FOR_CONVERSION_def Let_def bf_laws
    by (simp add: contains_pte_iff bit_or_iff bit_a64_bits)
  also have "\<dots> \<longleftrightarrow>
     k \<in> {1, 9, 10} \<or> k \<in> {7, 11} \<and> \<not> bit g k \<or> k \<in> {0, 2, 5, 6, 50, 51, 52, 53, 54, 55} \<and> bit g k"
  proof (cases "k \<in> {0, 1, 2, 3, 4, 5, 6, 7, 8, 9, 10, 11, 50, 51, 52, 53, 54, 55}")
    case True
    then show ?thesis by (elim insertE emptyE) (simp_all add: bits)
  qed (simp add: bits)
  finally show ?thesis .
qed

lemma bit_a64_to_general:
  "bit (a64_to_general bf f) k \<longleftrightarrow>
     k \<in> {0, 2, 6, 7, 10, 11, 51, 53, 54, 55} \<and> (if k \<in> {7, 11} then \<not> bit f k else bit f k)"
proof -
  let ?s = "(f XOR (WRITABLE_BIT Aarch64 OR GLOBAL_BIT Aarch64)) AND (NOT (a64_bits A64_PAGE_DESCRIPTOR) AND a64_all)"
  have s: "bit (?s AND pte_all Aarch64) k \<longleftrightarrow>
     k \<in> {0, 2, 6, 7, 10, 11, 51, 53, 54, 55} \<and> (if k \<in> {7, 11} then \<not> bit f k else bit f k)" for k
    by (auto simp: flag_bits bit_WRITABLE_GLOBAL)
  have "bit f 2" if m: "?s AND MAIR_BITS_MASK = a64_bits A64_DEVICE_MEMORY"
  proof -
    from m have "bit (?s AND MAIR_BITS_MASK) 2 \<longleftrightarrow> bit (a64_bits A64_DEVICE_MEMORY) 2" by simp
    then show ?thesis by (auto simp: flag_bits bit_WRITABLE_GLOBAL)
  qed
  then have "a64_to_general bf f = ?s AND pte_all Aarch64"
    unfolding a64_to_general_def Let_def bf_laws
    by (auto intro!: bit_eqI simp: flag_bits bit_WRITABLE_GLOBAL)
  with s show ?thesis by simp
qed

end



text \<open>The conversion back from aarch64 reports device memory for every set of flags in which bit 2
  is set, in particular for MAIR indices 3, 5 and 7, which the comment in the code says are
  told apart: the bit is already part of the truncated flags before the index is compared.\<close>

lemma a64_device_memory_not_strict:
  assumes "bitflags bf" "i \<in> {A64_MAIR_INDEX_3, A64_MAIR_INDEX_5, A64_MAIR_INDEX_7}"
  shows "pte_is_device_memory bf Aarch64 (a64_to_general bf (a64_bits i))"
  using assms(2) bitflags.bit_a64_to_general [OF assms(1)]
  by (auto simp: pte_is_device_memory_def bitflags.bf_laws [OF assms(1)] flag_bits)

section \<open>The PAT index and higher-level entries on x86_64\<close>

lemma bit_u8_numerals: "bit BIT_0 k \<longleftrightarrow> k = 0" "bit BIT_1 k \<longleftrightarrow> k = 1" "bit BIT_2 k \<longleftrightarrow> k = 2"
  by (auto simp: BIT_0_def BIT_1_def BIT_2_def bit_numeral_rec bit_1_iff split: nat.splits)

lemma bit_u64_bound: "bit f k \<Longrightarrow> k < 64" for f :: u64
  by (drule bit_imp_le_length) simp

lemma u8_subset_iff: "f AND g = g \<longleftrightarrow> (\<forall>k. bit g k \<longrightarrow> bit f k)" for f g :: u8
proof
  assume "f AND g = g"
  then show "\<forall>k. bit g k \<longrightarrow> bit f k" by (metis bit_and_iff)
next
  assume "\<forall>k. bit g k \<longrightarrow> bit f k"
  then show "f AND g = g" by (intro bit_eqI) (auto simp: bit_and_iff)
qed

context bitflags
begin

lemma bit_x86_pat_index:
  "bit (x86_pat_index bf f s) k \<longleftrightarrow>
     (if k = 3 then bit s 0 else if k = 4 then bit s 1 else if k = 7 then bit s 2 else bit f k)"
  unfolding x86_pat_index_def Let_def bf_laws
  by (auto simp: flag_bits u8_subset_iff bit_u8_numerals dest: bit_u64_bound)

lemma bit_x86_get_pat_index:
  "bit (x86_get_pat_index bf g) k \<longleftrightarrow> k = 0 \<and> bit g 3 \<or> k = 1 \<and> bit g 4 \<or> k = 2 \<and> bit g 7"
  unfolding x86_get_pat_index_def Let_def bf_laws contains_iff x86_pos.simps
  by (cases "bit g 3"; cases "bit g 4"; cases "bit g 7") (simp_all add: bit_or_iff bit_u8_numerals)

end

text \<open>On x86_64 the slot of the page attribute table round-trips through the flags, modulo its upper
  five bits, which are ignored; and an entry adjusted for a higher-level table is valid, executable,
  not exclusive, has slot 0, and keeps every other flag.\<close>

lemma x86_pat_and_higher_level:
  assumes "bitflags bf"
  shows "x86_get_pat_index bf (x86_pat_index bf f slot) = slot AND 7 \<and>
    (let h = x86_adjust_for_higher_level_pte bf f in
       x86_is_valid bf h \<and> x86_is_executable bf h \<and> \<not> x86_is_exclusive bf h \<and> x86_get_pat_index bf h = 0 \<and>
       (\<forall>k. k \<notin> {0, 3, 4, 7, 55, 63} \<longrightarrow> bit h k = bit f k))"
proof -
  note bf = bitflags.bf_laws [OF assms] and pat = bitflags.bit_x86_pat_index [OF assms]
    and get = bitflags.bit_x86_get_pat_index [OF assms]
  have b7: "bit (7 :: u8) k \<longleftrightarrow> k = 0 \<or> k = 1 \<or> k = 2" for k
    by (auto simp: bit_numeral_rec bit_1_iff split: nat.splits)
  have "x86_get_pat_index bf (x86_pat_index bf f slot) = slot AND 7"
    by (rule bit_eqI, simp only: get pat bit_and_iff b7) auto
  moreover have h: "bit (x86_adjust_for_higher_level_pte bf f) k \<longleftrightarrow>
      k = 0 \<or> k \<notin> {3, 4, 7, 55, 63} \<and> bit f k" for k
    by (simp add: x86_adjust_for_higher_level_pte_def x86_valid_def x86_exclusive_def x86_executable_def
        bf pat bit_or_iff bit_and_iff bit_not_iff bit_x86_bits) (auto dest: bit_u64_bound)
  moreover have "x86_get_pat_index bf (x86_adjust_for_higher_level_pte bf f) = 0"
    by (rule bit_eqI) (simp add: get h)
  ultimately show ?thesis
    by (simp add: Let_def x86_is_valid_def x86_is_executable_def x86_is_exclusive_def bf flag_bits)
qed

end
