(* ===== verification/PageTableEntry.thy ===== *)
theory PageTableEntry
  imports PteConversions
begin

text \<open>
  Page table entries: \<^verbatim>\<open>src/kernel/page_table_entry/src/lib.rs\<close>. An entry is its 64-bit value; an
  operation that changes the entry returns the new value. \<open>PteFlagsArch\<close> and \<open>PTE_FRAME_MASK\<close> are
  the items of the target architecture, selected here by an argument.
\<close>

section \<open>The items of the target architecture\<close>

definition arch_all :: "arch \<Rightarrow> u64" where
  "arch_all a = (case a of X86_64 \<Rightarrow> x86_all | Aarch64 \<Rightarrow> a64_all)"

definition PTE_FRAME_MASK :: "arch \<Rightarrow> u64" where
  "PTE_FRAME_MASK a = (case a of X86_64 \<Rightarrow> PTE_FRAME_MASK_X86_64 | Aarch64 \<Rightarrow> PTE_FRAME_MASK_AARCH64)"

definition arch_is_valid :: "bitflags_api \<Rightarrow> arch \<Rightarrow> u64 \<Rightarrow> bool" where
  "arch_is_valid bf a f = (case a of X86_64 \<Rightarrow> x86_is_valid bf f | Aarch64 \<Rightarrow> a64_is_valid bf f)"

definition arch_is_exclusive :: "bitflags_api \<Rightarrow> arch \<Rightarrow> u64 \<Rightarrow> bool" where
  "arch_is_exclusive bf a f = (case a of X86_64 \<Rightarrow> x86_is_exclusive bf f | Aarch64 \<Rightarrow> a64_is_exclusive bf f)"

definition arch_is_writable :: "bitflags_api \<Rightarrow> arch \<Rightarrow> u64 \<Rightarrow> bool" where
  "arch_is_writable bf a f = (case a of X86_64 \<Rightarrow> x86_is_writable bf f | Aarch64 \<Rightarrow> a64_is_writable bf f)"

definition arch_valid :: "bitflags_api \<Rightarrow> arch \<Rightarrow> u64 \<Rightarrow> bool \<Rightarrow> u64" where
  "arch_valid bf a f enable = (case a of X86_64 \<Rightarrow> x86_valid bf f enable | Aarch64 \<Rightarrow> a64_valid bf f enable)"

definition arch_exclusive :: "bitflags_api \<Rightarrow> arch \<Rightarrow> u64 \<Rightarrow> bool \<Rightarrow> u64" where
  "arch_exclusive bf a f enable =
     (case a of X86_64 \<Rightarrow> x86_exclusive bf f enable | Aarch64 \<Rightarrow> a64_exclusive bf f enable)"

definition arch_writable :: "bitflags_api \<Rightarrow> arch \<Rightarrow> u64 \<Rightarrow> bool \<Rightarrow> u64" where
  "arch_writable bf a f enable =
     (case a of X86_64 \<Rightarrow> x86_writable bf f enable | Aarch64 \<Rightarrow> a64_writable bf f enable)"

definition arch_adjust_for_higher_level_pte :: "bitflags_api \<Rightarrow> arch \<Rightarrow> u64 \<Rightarrow> u64" where
  "arch_adjust_for_higher_level_pte bf a f =
     (case a of X86_64 \<Rightarrow> x86_adjust_for_higher_level_pte bf f | Aarch64 \<Rightarrow> a64_adjust_for_higher_level_pte bf f)"

definition phys_new_canonical :: "arch \<Rightarrow> usize \<Rightarrow> usize" where
  "phys_new_canonical a addr =
     (case a of X86_64 \<Rightarrow> canonicalize_physical_address addr | Aarch64 \<Rightarrow> canonicalize_physical_address_aarch64 addr)"

definition frame_start_address :: "arch \<Rightarrow> frame \<Rightarrow> usize" where
  "frame_start_address a n = phys_new_canonical a (n * PAGE_SIZE)"

section \<open>PageTableEntry\<close>

datatype unmap_result = Exclusive chunk_range | NonExclusive chunk_range

definition entry_is_unused :: "u64 \<Rightarrow> bool" where "entry_is_unused e \<longleftrightarrow> e = 0"

definition entry_zero :: u64 where "entry_zero = 0"

definition entry_flags :: "bitflags_api \<Rightarrow> arch \<Rightarrow> u64 \<Rightarrow> u64" where
  "entry_flags bf a e = bf_from_bits_truncate bf (arch_all a) (e AND NOT (PTE_FRAME_MASK a))"

definition entry_frame_value :: "arch \<Rightarrow> u64 \<Rightarrow> frame" where
  "entry_frame_value a e = containing_address (phys_new_canonical a (e AND PTE_FRAME_MASK a))"

definition entry_pointed_frame :: "bitflags_api \<Rightarrow> arch \<Rightarrow> u64 \<Rightarrow> frame option" where
  "entry_pointed_frame bf a e =
     (if arch_is_valid bf a (entry_flags bf a e) then Some (entry_frame_value a e) else None)"

definition entry_set_unmapped :: "bitflags_api \<Rightarrow> arch \<Rightarrow> u64 \<Rightarrow> unmap_result \<times> u64" where
  "entry_set_unmapped bf a e =
     (let frame = entry_frame_value a e; flags = entry_flags bf a e;
          frame_range = range_new frame frame
      in (if arch_is_exclusive bf a flags then Exclusive frame_range else NonExclusive frame_range, entry_zero))"

definition entry_set_entry :: "arch \<Rightarrow> frame \<Rightarrow> u64 \<Rightarrow> u64" where
  "entry_set_entry a frame flags = frame_start_address a frame OR flags"

definition entry_set_flags :: "arch \<Rightarrow> u64 \<Rightarrow> u64 \<Rightarrow> u64" where
  "entry_set_flags a e new_flags =
     (let only_flag_bits = new_flags AND NOT (PTE_FRAME_MASK a) in (e AND PTE_FRAME_MASK a) OR only_flag_bits)"

section \<open>Entries and their parts\<close>

definition phys_bits :: "arch \<Rightarrow> nat" where
  "phys_bits a = (case a of X86_64 \<Rightarrow> 52 | Aarch64 \<Rightarrow> 48)"

lemma bit_low_mask: "bit (mask n :: u64) k \<longleftrightarrow> k < n \<and> k < 64"
  by (auto simp: bit_mask_iff)

lemma frame_mask_eq: "PTE_FRAME_MASK a = mask (phys_bits a) AND NOT (mask 12)"
  by (cases a) (simp_all add: PTE_FRAME_MASK_def PTE_FRAME_MASK_X86_64_def PTE_FRAME_MASK_AARCH64_def
      phys_bits_def mask_eq_exp_minus_1)

lemma bit_frame_mask: "bit (PTE_FRAME_MASK a) k \<longleftrightarrow> 12 \<le> k \<and> k < phys_bits a"
proof -
  have "phys_bits a \<le> 64" by (cases a) (simp_all add: phys_bits_def)
  then show ?thesis by (auto simp: frame_mask_eq bit_and_iff bit_not_iff bit_low_mask)
qed

lemma phys_new_canonical_eq: "phys_new_canonical a addr = addr AND mask (phys_bits a)"
  by (cases a) (simp_all add: phys_new_canonical_def canonicalize_physical_address_def
      canonicalize_physical_address_aarch64_def phys_bits_def mask_eq_exp_minus_1)

text \<open>A frame number that fits into an entry.\<close>

definition frame_fits :: "arch \<Rightarrow> frame \<Rightarrow> bool" where
  "frame_fits a n \<longleftrightarrow> unat n < 2 ^ (phys_bits a - 12)"

lemma bit_frame_fits: "frame_fits a n \<Longrightarrow> bit n k \<Longrightarrow> k < phys_bits a - 12"
proof (rule ccontr)
  assume f: "frame_fits a n" and b: "bit n k" and "\<not> k < phys_bits a - 12"
  then have le: "(2 :: nat) ^ (phys_bits a - 12) \<le> 2 ^ k" by (simp add: power_increasing)
  have "bit (unat n) k" using b by (simp add: bit_unsigned_iff)
  then have "odd (unat n div 2 ^ k)" by (simp add: bit_iff_odd)
  then have "2 ^ k \<le> unat n" by (metis div_less even_zero not_le)
  with le f show False unfolding frame_fits_def by linarith
qed

lemma frame_start_address_eq: "frame_fits a n \<Longrightarrow> frame_start_address a n = push_bit 12 n"
proof (rule bit_eqI)
  fix k assume "frame_fits a n"
  have "n * PAGE_SIZE = push_bit 12 n" by (simp add: PAGE_SIZE_eq push_bit_eq_mult)
  then show "bit (frame_start_address a n) k = bit (push_bit 12 n) k"
    using bit_frame_fits [OF \<open>frame_fits a n\<close>, of "k - 12"]
    by (auto simp: frame_start_address_def phys_new_canonical_eq bit_and_iff bit_low_mask bit_push_bit_iff)
qed

lemma bit_all_not_frame: "bit (arch_all a) k \<Longrightarrow> \<not> bit (PTE_FRAME_MASK a) k"
  by (cases a) (auto simp: arch_all_def bit_all_flags bit_frame_mask phys_bits_def)

lemma bit_set_entry:
  assumes "frame_fits a n" "f AND arch_all a = f"
  shows "bit (entry_set_entry a n f) k \<longleftrightarrow> (if bit (PTE_FRAME_MASK a) k then bit n (k - 12) else bit f k)"
proof -
  have f: "bit f k \<Longrightarrow> bit (arch_all a) k" using assms(2) by (metis bit_and_iff)
  have p: "phys_bits a \<le> 64" by (cases a) (simp_all add: phys_bits_def)
  show ?thesis
    using bit_frame_fits [OF assms(1), of "k - 12"] bit_all_not_frame f p
    by (auto simp: entry_set_entry_def frame_start_address_eq [OF assms(1)] bit_or_iff bit_push_bit_iff bit_frame_mask)
qed

lemma entry_frame_value_bit: "bit (entry_frame_value a e) k \<longleftrightarrow> bit e (k + 12) \<and> k + 12 < phys_bits a"
proof -
  have "entry_frame_value a e = drop_bit 12 ((e AND PTE_FRAME_MASK a) AND mask (phys_bits a))"
    by (simp add: entry_frame_value_def containing_address_def phys_new_canonical_eq PAGE_SIZE_eq drop_bit_eq_div)
  then show ?thesis by (auto simp: bit_drop_bit_eq bit_and_iff bit_frame_mask bit_low_mask ac_simps dest: bit_u64_bound)
qed

context bitflags
begin

lemma bit_entry_flags: "bit (entry_flags bf a e) k \<longleftrightarrow> bit e k \<and> bit (arch_all a) k"
  using bit_all_not_frame by (auto simp: entry_flags_def bf_laws bit_and_iff bit_not_iff dest: bit_u64_bound)

lemma arch_is_valid_iff: "arch_is_valid bf a f \<longleftrightarrow> bit f 0"
  by (cases a) (simp_all add: arch_is_valid_def x86_is_valid_def a64_is_valid_def bf_laws flag_bits)

lemma arch_is_exclusive_iff: "arch_is_exclusive bf a f \<longleftrightarrow> bit f 55"
  by (cases a) (simp_all add: arch_is_exclusive_def x86_is_exclusive_def a64_is_exclusive_def bf_laws flag_bits)

text \<open>What an entry gives back of what was put into it.\<close>

lemma set_entry_parts:
  assumes "frame_fits a n" "f AND arch_all a = f"
  shows "entry_frame_value a (entry_set_entry a n f) = n" "entry_flags bf a (entry_set_entry a n f) = f"
proof -
  show "entry_frame_value a (entry_set_entry a n f) = n"
    using bit_frame_fits [OF assms(1)]
    by (intro bit_eqI) (auto simp: entry_frame_value_bit bit_set_entry [OF assms] bit_frame_mask less_diff_conv)
  show "entry_flags bf a (entry_set_entry a n f) = f"
  proof (rule bit_eqI)
    fix k
    have "bit f k \<Longrightarrow> bit (arch_all a) k" using assms(2) by (metis bit_and_iff)
    then show "bit (entry_flags bf a (entry_set_entry a n f)) k = bit f k"
      using bit_all_not_frame by (auto simp: bit_entry_flags bit_set_entry [OF assms])
  qed
qed

end
text \<open>(C23) Page table entries give back what was put into them. For a frame and flags of the target
  architecture: the entry set to them points to that frame exactly when the flags are valid, and has
  those flags; changing the flags of an entry keeps its frame; and unmapping the entry empties it and
  hands its frame over as exclusive exactly when it was mapped exclusively.\<close>

theorem entry_roundtrip:
  assumes "bitflags bf" "frame_fits a n" "f AND arch_all a = f" "g AND arch_all a = g"
  shows "entry_pointed_frame bf a (entry_set_entry a n f) = (if arch_is_valid bf a f then Some n else None) \<and>
    entry_flags bf a (entry_set_entry a n f) = f \<and>
    entry_set_flags a (entry_set_entry a n f) g = entry_set_entry a n g \<and>
    entry_set_unmapped bf a (entry_set_entry a n f) =
      (if arch_is_exclusive bf a f then Exclusive (range_new n n) else NonExclusive (range_new n n), 0)"
proof -
  note p = bitflags.set_entry_parts [OF assms(1-3)]
  have g: "bit g k \<Longrightarrow> bit (arch_all a) k" for k using assms(4) by (metis bit_and_iff)
  have "entry_set_flags a (entry_set_entry a n f) g = entry_set_entry a n g"
    using bit_all_not_frame g
    by (intro bit_eqI) (auto simp: entry_set_flags_def bit_or_iff bit_and_iff bit_not_iff
        bit_set_entry [OF assms(2,3)] bit_set_entry [OF assms(2,4)])
  then show ?thesis using p by (simp add: entry_pointed_frame_def entry_set_unmapped_def entry_zero_def)
qed

theorem entry_roundtrip_witness:
  "entry_pointed_frame bitwise_flags X86_64 (entry_set_entry X86_64 0x1234 3) = Some 0x1234"
proof -
  have n: "frame_fits X86_64 0x1234" by (simp add: frame_fits_def phys_bits_def)
  have f: "(3 :: u64) AND arch_all X86_64 = 3" "arch_is_valid bitwise_flags X86_64 3" by code_simp+
  from entry_roundtrip [OF bitwise.bitflags_axioms n f(1) f(1)] f(2) show ?thesis by simp
qed

end
