(* ===== verification/Paging.thy ===== *)
theory Paging
  imports PageTableEntry FrameAllocator PageAllocator
begin

text \<open>
  Page tables and mapped memory: \<^verbatim>\<open>src/kernel/memory/src/paging/table.rs\<close> and
  \<^verbatim>\<open>src/kernel/memory/src/paging/mapper.rs\<close>.

  A page table is named by the frame that holds it; \<open>mem_tables\<close> gives the entries of every frame
  that serves as a table. The source reaches the next table through the recursive entry of the
  active P4 table; \<open>next_table_address\<close> is that computation, and theory \<open>PagingProperties\<close> shows that
  the hardware resolves the address to the frame that \<open>next_table\<close> names. The two allocators are part
  of the state, because the functions allocate frames for tables and give up pages and frames when
  they fail. Flushing the TLB and the shootdown broadcast change nothing in this state.
\<close>

section \<open>State\<close>

record ('t, 'c, 'u, 'd) platform =
  pl_bf :: bitflags_api
  pl_arch :: arch
  pl_frame_api :: "(fchunk, 't, 'c) rbtree_api"
  pl_page_api :: "(pchunk, 'u, 'd) rbtree_api"

type_synonym page_tables = "frame \<Rightarrow> usize \<Rightarrow> u64"

record ('t, 'u) memory =
  mem_tables :: page_tables
  mem_frames :: "'t frame_allocator"
  mem_pages :: "'u page_allocator"
  into_allocated_frames_func :: "(chunk_range \<Rightarrow> allocated_frames) option"

definition range_list :: "chunk_range \<Rightarrow> usize list" where
  "range_list r = map word_of_nat [unat (r_start r)..<Suc (unat (r_end r))]"

definition drop_pages :: "('t, 'c, 'u, 'd) platform \<Rightarrow> ('t, 'u) memory \<Rightarrow> allocated_pages \<Rightarrow> ('t, 'u) memory" where
  "drop_pages P s ap = s\<lparr>mem_pages := drop_allocated_pages (pl_page_api P) (mem_pages s) ap\<rparr>"

definition drop_frames ::
  "('t, 'c, 'u, 'd) platform \<Rightarrow> ('t, 'u) memory \<Rightarrow> allocated_frames \<Rightarrow> ('t, 'u) memory panics" where
  "drop_frames P s af =
     map_option (\<lambda>fa. s\<lparr>mem_frames := fa\<rparr>) (drop_allocated_frames (pl_frame_api P) (mem_frames s) af)"

section \<open>Tables\<close>

definition RECURSIVE_P4_ADDRESS :: usize where
  "RECURSIVE_P4_ADDRESS = canonicalize_virtual_address
     (push_bit (PAGE_SHIFT + P1_INDEX_SHIFT) RECURSIVE_P4_INDEX OR
      push_bit (PAGE_SHIFT + P2_INDEX_SHIFT) RECURSIVE_P4_INDEX OR
      push_bit (PAGE_SHIFT + P3_INDEX_SHIFT) RECURSIVE_P4_INDEX OR
      push_bit (PAGE_SHIFT + P4_INDEX_SHIFT) RECURSIVE_P4_INDEX)"

definition is_huge :: "bitflags_api \<Rightarrow> arch \<Rightarrow> u64 \<Rightarrow> bool" where
  "is_huge bf a flags = (case a of Aarch64 \<Rightarrow> False | X86_64 \<Rightarrow> x86_is_huge bf flags)"

definition set_pte :: "page_tables \<Rightarrow> frame \<Rightarrow> usize \<Rightarrow> u64 \<Rightarrow> page_tables" where
  "set_pte T t i e = T(t := (T t)(i := e))"

definition table_zero :: "page_tables \<Rightarrow> frame \<Rightarrow> page_tables" where
  "table_zero T t = T(t := (\<lambda>i. entry_zero))"

text \<open>The address of the next table, from the address of this table.\<close>

definition next_table_address :: "bitflags_api \<Rightarrow> arch \<Rightarrow> (usize \<Rightarrow> u64) \<Rightarrow> usize \<Rightarrow> usize \<Rightarrow> usize option" where
  "next_table_address bf a tbl table_address index =
     (let pte_flags = entry_flags bf a (tbl index) in
      if arch_is_valid bf a pte_flags \<and> \<not> is_huge bf a pte_flags then
        (let next_table_vaddr = push_bit 9 table_address OR push_bit PAGE_SHIFT index in
         Some (case a of X86_64 \<Rightarrow> canonicalize_virtual_address next_table_vaddr
                       | Aarch64 \<Rightarrow> canonicalize_virtual_address_aarch64 next_table_vaddr))
      else None)"

definition next_table :: "bitflags_api \<Rightarrow> arch \<Rightarrow> page_tables \<Rightarrow> frame \<Rightarrow> usize \<Rightarrow> frame option" where
  "next_table bf a T t i =
     (let pte_flags = entry_flags bf a (T t i) in
      if arch_is_valid bf a pte_flags \<and> \<not> is_huge bf a pte_flags then Some (entry_frame_value a (T t i))
      else None)"

definition next_table_create ::
  "('t, 'c, 'u, 'd) platform \<Rightarrow> ('t, 'u) memory \<Rightarrow> frame \<Rightarrow> usize \<Rightarrow> u64 \<Rightarrow> (frame \<times> ('t, 'u) memory) panics" where
  "next_table_create P s t i flags =
     (let bf = pl_bf P; a = pl_arch P in do {
        s \<leftarrow>
          (if next_table bf a (mem_tables s) t i = None then do {
             assert_that (\<not> is_huge bf a (entry_flags bf a (mem_tables s t i)));
             (res, fa) \<leftarrow> allocate_frames (pl_frame_api P) (mem_frames s) 1;
             af \<leftarrow> res;
             frame \<leftarrow> as_allocated_frame af;
             let T = set_pte (mem_tables s) t i
                       (entry_set_entry a frame (arch_writable bf a (arch_valid bf a flags True) True));
             nt \<leftarrow> next_table bf a T t i;
             Some (s\<lparr>mem_tables := table_zero T nt, mem_frames := fa\<rparr>)
           } else Some s);
        nt \<leftarrow> next_table bf a (mem_tables s) t i;
        Some (nt, s)
      })"

section \<open>Mapper\<close>

text \<open>\<open>mapper_p4\<close> is the frame that the pointer \<open>p4\<close> of a mapper reaches.\<close>

record mapper =
  mapper_p4 :: frame
  target_p4 :: frame

definition with_p4_frame :: "frame \<Rightarrow> frame \<Rightarrow> mapper" where
  "with_p4_frame current p4 = \<lparr>mapper_p4 = current, target_p4 = p4\<rparr>"

definition from_current :: "frame \<Rightarrow> mapper" where
  "from_current current = with_p4_frame current current"

text \<open>The walk down to the lowest table of a page, as all functions below do it.\<close>

definition p1_table :: "bitflags_api \<Rightarrow> arch \<Rightarrow> page_tables \<Rightarrow> frame \<Rightarrow> page \<Rightarrow> frame option" where
  "p1_table bf a T root page =
     do {
       p3 \<leftarrow> next_table bf a T root (p4_index page);
       p2 \<leftarrow> next_table bf a T p3 (p3_index page);
       next_table bf a T p2 (p2_index page)
     }"

definition huge_page :: "bitflags_api \<Rightarrow> page_tables \<Rightarrow> frame option \<Rightarrow> page \<Rightarrow> frame option panics" where
  "huge_page bf T p3_opt page =
     (case p3_opt of
        None \<Rightarrow> Some None
      | Some p3 \<Rightarrow>
          (let p3_entry = T p3 (p3_index page);
               try_2mib =
                 (case next_table bf X86_64 T p3 (p3_index page) of
                    None \<Rightarrow> Some None
                  | Some p2 \<Rightarrow>
                      (let p2_entry = T p2 (p2_index page) in
                       case entry_pointed_frame bf X86_64 p2_entry of
                         Some start_frame \<Rightarrow>
                           if x86_is_huge bf (entry_flags bf X86_64 p2_entry) then do {
                             assert_that (start_frame mod ENTRIES_PER_PAGE_TABLE = 0);
                             Some (Some (containing_address (phys_new_canonical X86_64
                               (PAGE_SIZE * (start_frame + p1_index page)))))
                           } else Some None
                       | None \<Rightarrow> Some None))
           in case entry_pointed_frame bf X86_64 p3_entry of
                Some start_frame \<Rightarrow>
                  if x86_is_huge bf (entry_flags bf X86_64 p3_entry) then do {
                    assert_that (start_frame mod (ENTRIES_PER_PAGE_TABLE * ENTRIES_PER_PAGE_TABLE) = 0);
                    Some (Some (containing_address (phys_new_canonical X86_64
                      (PAGE_SIZE * (start_frame + p2_index page * ENTRIES_PER_PAGE_TABLE + p1_index page)))))
                  } else try_2mib
              | None \<Rightarrow> try_2mib))"

text \<open>On aarch64 the fallback is a \<open>todo!\<close>, which panics.\<close>

definition translate_page :: "bitflags_api \<Rightarrow> arch \<Rightarrow> page_tables \<Rightarrow> frame \<Rightarrow> page \<Rightarrow> frame option panics" where
  "translate_page bf a T root page =
     (case Option.bind (p1_table bf a T root page) (\<lambda>p1. entry_pointed_frame bf a (T p1 (p1_index page))) of
        Some frame \<Rightarrow> Some (Some frame)
      | None \<Rightarrow>
          (case a of
             X86_64 \<Rightarrow> huge_page bf T (next_table bf a T root (p4_index page)) page
           | Aarch64 \<Rightarrow> None))"

definition phys_addr_add :: "arch \<Rightarrow> usize \<Rightarrow> usize \<Rightarrow> usize" where
  "phys_addr_add a p rhs = phys_new_canonical a (saturating_add p rhs)"

definition translate :: "bitflags_api \<Rightarrow> arch \<Rightarrow> page_tables \<Rightarrow> frame \<Rightarrow> usize \<Rightarrow> usize option panics" where
  "translate bf a T root virtual_address =
     map_option (map_option (\<lambda>frame. phys_addr_add a (frame_start_address a frame) (page_offset virtual_address)))
       (translate_page bf a T root (containing_address virtual_address))"

section \<open>Mapping\<close>

record mapped_pages =
  mp_page_table_p4 :: frame
  mp_pages :: allocated_pages
  mp_flags :: u64

fun map_loop ::
  "('t, 'c, 'u, 'd) platform \<Rightarrow> ('t, 'u) memory \<Rightarrow> frame \<Rightarrow> u64 \<Rightarrow> u64 \<Rightarrow> (page \<times> frame) list \<Rightarrow>
   ((unit, string) result \<times> ('t, 'u) memory) panics" where
  "map_loop P s root higher_level_flags actual_flags [] = Some (Ok (), s)"
| "map_loop P s root higher_level_flags actual_flags ((page, frame) # rest) =
     do {
       (p3, s) \<leftarrow> next_table_create P s root (p4_index page) higher_level_flags;
       (p2, s) \<leftarrow> next_table_create P s p3 (p3_index page) higher_level_flags;
       (p1, s) \<leftarrow> next_table_create P s p2 (p2_index page) higher_level_flags;
       if \<not> entry_is_unused (mem_tables s p1 (p1_index page)) then
         Some (Err ''map_allocated_pages_to(): page was already in use'', s)
       else
         map_loop P
           (s\<lparr>mem_tables := set_pte (mem_tables s) p1 (p1_index page) (entry_set_entry (pl_arch P) frame actual_flags)\<rparr>)
           root higher_level_flags actual_flags rest
     }"

text \<open>On an error the owned frames and the pages go out of scope; borrowed frames stay with the
  caller.\<close>

definition internal_map_to ::
  "('t, 'c, 'u, 'd) platform \<Rightarrow> ('t, 'u) memory \<Rightarrow> mapper \<Rightarrow> allocated_pages \<Rightarrow> bool \<Rightarrow> allocated_frames \<Rightarrow> u64 \<Rightarrow>
   ((mapped_pages \<times> allocated_frames, string) result \<times> ('t, 'u) memory) panics" where
  "internal_map_to P s m pages owned frames flags =
     (let bf = pl_bf P; a = pl_arch P;
          higher_level_flags = arch_adjust_for_higher_level_pte bf a flags;
          actual_flags = arch_exclusive bf a (arch_valid bf a flags True) owned;
          fail = (\<lambda>s e. do {
            s \<leftarrow> (if owned then drop_frames P s frames else Some s);
            Some (Err e, drop_pages P s pages)
          })
      in if size_in_chunks pages \<noteq> size_in_chunks frames then
           fail s ''map_allocated_pages_to(): page count must equal frame count''
         else do {
           (r, s) \<leftarrow> map_loop P s (mapper_p4 m) higher_level_flags actual_flags
                      (zip (range_list pages) (range_list frames));
           case r of
             Inl e \<Rightarrow> fail s e
           | Inr _ \<Rightarrow>
               Some (Ok (\<lparr>mp_page_table_p4 = target_p4 m, mp_pages = pages, mp_flags = actual_flags\<rparr>, frames), s)
         })"

definition map_allocated_pages_to ::
  "('t, 'c, 'u, 'd) platform \<Rightarrow> ('t, 'u) memory \<Rightarrow> mapper \<Rightarrow> allocated_pages \<Rightarrow> allocated_frames \<Rightarrow> u64 \<Rightarrow>
   ((mapped_pages, string) result \<times> ('t, 'u) memory) panics" where
  "map_allocated_pages_to P s m pages frames flags =
     map_option (\<lambda>(r, s). (map_sum id fst r, s)) (internal_map_to P s m pages True frames flags)"

definition map_to_non_exclusive ::
  "('t, 'c, 'u, 'd) platform \<Rightarrow> ('t, 'u) memory \<Rightarrow> mapper \<Rightarrow> allocated_pages \<Rightarrow> allocated_frames \<Rightarrow> u64 \<Rightarrow>
   ((mapped_pages, string) result \<times> ('t, 'u) memory) panics" where
  "map_to_non_exclusive P s m pages frames flags =
     map_option (\<lambda>(r, s). (map_sum id fst r, s)) (internal_map_to P s m pages False frames flags)"

fun map_alloc_loop ::
  "('t, 'c, 'u, 'd) platform \<Rightarrow> ('t, 'u) memory \<Rightarrow> frame \<Rightarrow> u64 \<Rightarrow> u64 \<Rightarrow> page list \<Rightarrow>
   ((unit, string) result \<times> ('t, 'u) memory) panics" where
  "map_alloc_loop P s root higher_level_flags actual_flags [] = Some (Ok (), s)"
| "map_alloc_loop P s root higher_level_flags actual_flags (page # rest) =
     do {
       (res, fa) \<leftarrow> allocate_frames (pl_frame_api P) (mem_frames s) 1;
       let s = s\<lparr>mem_frames := fa\<rparr>;
       case res of
         None \<Rightarrow> Some (Err ''map_allocated_pages(): couldn't allocate new frame, out of memory'', s)
       | Some af \<Rightarrow> do {
           (p3, s) \<leftarrow> next_table_create P s root (p4_index page) higher_level_flags;
           (p2, s) \<leftarrow> next_table_create P s p3 (p3_index page) higher_level_flags;
           (p1, s) \<leftarrow> next_table_create P s p2 (p2_index page) higher_level_flags;
           if \<not> entry_is_unused (mem_tables s p1 (p1_index page)) then do {
             s \<leftarrow> drop_frames P s af;
             Some (Err ''map_allocated_pages(): page was already in use'', s)
           } else do {
             frame \<leftarrow> as_allocated_frame af;
             map_alloc_loop P
               (s\<lparr>mem_tables := set_pte (mem_tables s) p1 (p1_index page) (entry_set_entry (pl_arch P) frame actual_flags)\<rparr>)
               root higher_level_flags actual_flags rest
           }
         }
     }"

definition map_allocated_pages ::
  "('t, 'c, 'u, 'd) platform \<Rightarrow> ('t, 'u) memory \<Rightarrow> mapper \<Rightarrow> allocated_pages \<Rightarrow> u64 \<Rightarrow>
   ((mapped_pages, string) result \<times> ('t, 'u) memory) panics" where
  "map_allocated_pages P s m pages flags =
     (let bf = pl_bf P; a = pl_arch P;
          higher_level_flags = arch_adjust_for_higher_level_pte bf a flags;
          actual_flags = arch_exclusive bf a (arch_valid bf a flags True) True
      in do {
        (r, s) \<leftarrow> map_alloc_loop P s (mapper_p4 m) higher_level_flags actual_flags (range_list pages);
        case r of
          Inl e \<Rightarrow> Some (Err e, drop_pages P s pages)
        | Inr _ \<Rightarrow> Some (Ok \<lparr>mp_page_table_p4 = target_p4 m, mp_pages = pages, mp_flags = actual_flags\<rparr>, s)
      })"

end
