(* ===== verification/MappedPages.thy ===== *)
theory MappedPages
  imports Paging
begin

text \<open>
  The second half of \<^verbatim>\<open>src/kernel/memory/src/paging/mapper.rs\<close>: the type \<open>MappedPages\<close>, which owns a
  range of mapped pages. \<open>deep_copy\<close> copies memory contents, which are not part of the model, and is
  left out, as are the borrowed wrappers, which only forward to the functions modelled here.
\<close>

section \<open>Merging, splitting, remapping\<close>

definition arch_new :: "bitflags_api \<Rightarrow> arch \<Rightarrow> u64" where
  "arch_new bf a = (case a of X86_64 \<Rightarrow> x86_new | Aarch64 \<Rightarrow> a64_new bf)"

definition mapped_pages_empty :: "bitflags_api \<Rightarrow> arch \<Rightarrow> mapped_pages" where
  "mapped_pages_empty bf a =
     \<lparr>mp_page_table_p4 = containing_address addr_zero, mp_pages = allocated_pages_empty, mp_flags = arch_new bf a\<rparr>"

text \<open>\<open>Err\<close> gives the argument back; on \<open>Ok\<close> the new value of \<open>self\<close> is returned.\<close>

definition mapped_pages_merge ::
  "mapped_pages \<Rightarrow> mapped_pages \<Rightarrow> (mapped_pages, string \<times> mapped_pages) result" where
  "mapped_pages_merge self mp =
     (if mp_page_table_p4 mp \<noteq> mp_page_table_p4 self then
        Err (''failed to merge MappedPages that were mapped into different page tables'', mp)
      else if mp_flags mp \<noteq> mp_flags self then
        Err (''failed to merge MappedPages that were mapped with different flags'', mp)
      else
        (case allocated_pages_merge (mp_pages self) (mp_pages mp) of
           Inl orig \<Rightarrow>
             Err (''failed to merge MappedPages that weren't virtually contiguous'', mp\<lparr>mp_pages := orig\<rparr>)
         | Inr pages \<Rightarrow> Ok (self\<lparr>mp_pages := pages\<rparr>)))"

definition mapped_pages_split ::
  "mapped_pages \<Rightarrow> page \<Rightarrow> (mapped_pages \<times> mapped_pages, mapped_pages) result" where
  "mapped_pages_split self at_page =
     (case allocated_pages_split (mp_pages self) at_page of
        Inr (first_ap, second_ap) \<Rightarrow> Ok (self\<lparr>mp_pages := first_ap\<rparr>, self\<lparr>mp_pages := second_ap\<rparr>)
      | Inl orig_ap \<Rightarrow> Err (self\<lparr>mp_pages := orig_ap\<rparr>))"

fun remap_loop ::
  "bitflags_api \<Rightarrow> arch \<Rightarrow> page_tables \<Rightarrow> frame \<Rightarrow> u64 \<Rightarrow> page list \<Rightarrow> (unit, string) result \<times> page_tables" where
  "remap_loop bf a T root new_flags [] = (Ok (), T)"
| "remap_loop bf a T root new_flags (page # rest) =
     (case p1_table bf a T root page of
        None \<Rightarrow> (Err ''mapping code does not support huge pages'', T)
      | Some p1 \<Rightarrow>
          remap_loop bf a
            (set_pte T p1 (p1_index page) (entry_set_flags a (T p1 (p1_index page)) new_flags))
            root new_flags rest)"

definition remap ::
  "bitflags_api \<Rightarrow> arch \<Rightarrow> page_tables \<Rightarrow> mapper \<Rightarrow> mapped_pages \<Rightarrow> u64 \<Rightarrow>
   ((unit, string) result \<times> mapped_pages \<times> page_tables)" where
  "remap bf a T m self flags =
     (if size_in_chunks (mp_pages self) = 0 then (Ok (), self, T)
      else
        (let new_flags = arch_valid bf a (arch_exclusive bf a flags (arch_is_exclusive bf a (mp_flags self))) True in
         if new_flags = mp_flags self then (Ok (), self, T)
         else
           (case remap_loop bf a T (mapper_p4 m) new_flags (range_list (mp_pages self)) of
              (Inl e, T') \<Rightarrow> (Err e, self, T')
            | (Inr _, T') \<Rightarrow> (Ok (), self\<lparr>mp_flags := new_flags\<rparr>, T'))))"

section \<open>Unmapping\<close>

definition drop_frames_opt ::
  "('t, 'c, 'u, 'd) platform \<Rightarrow> ('t, 'u) memory \<Rightarrow> allocated_frames option \<Rightarrow> ('t, 'u) memory panics" where
  "drop_frames_opt P s r = (case r of None \<Rightarrow> Some s | Some af \<Rightarrow> drop_frames P s af)"

text \<open>The loop of \<open>unmap\<close> with its two local ranges; an early return drops both, the later one first.\<close>

fun unmap_loop ::
  "('t, 'c, 'u, 'd) platform \<Rightarrow> ('t, 'u) memory \<Rightarrow> frame \<Rightarrow> allocated_frames option \<Rightarrow> allocated_frames option \<Rightarrow>
   page list \<Rightarrow> ((allocated_frames option, string) result \<times> ('t, 'u) memory) panics" where
  "unmap_loop P s root first_range current_range [] =
     (case first_range of
        None \<Rightarrow> Some (Ok current_range, s)
      | Some r \<Rightarrow> do { s \<leftarrow> drop_frames_opt P s current_range; Some (Ok (Some r), s) })"
| "unmap_loop P s root first_range current_range (page # rest) =
     (let bf = pl_bf P; a = pl_arch P;
          fail = (\<lambda>s e. do {
            s \<leftarrow> drop_frames_opt P s current_range;
            s \<leftarrow> drop_frames_opt P s first_range;
            Some (Err e, s)
          })
      in case p1_table bf a (mem_tables s) root page of
           None \<Rightarrow> fail s ''mapping code does not support huge pages''
         | Some p1 \<Rightarrow>
             (let pte = mem_tables s p1 (p1_index page) in
              if entry_is_unused pte then fail s ''unmap(): page not mapped''
              else
                (case entry_set_unmapped bf a pte of (unmapped_frames, pte') \<Rightarrow>
                  (let s = s\<lparr>mem_tables := set_pte (mem_tables s) p1 (p1_index page) pte'\<rparr> in
                   case unmapped_frames of
                     NonExclusive r \<Rightarrow> unmap_loop P s root first_range current_range rest
                   | Exclusive r \<Rightarrow>
                       (case into_allocated_frames_func s of
                          None \<Rightarrow>
                            fail s ''BUG: Mapper::unmap(): the `INTO_ALLOCATED_FRAMES_FUNC` callback was not initialized''
                        | Some into_func \<Rightarrow>
                            (let newly = into_func r in
                             case current_range of
                               None \<Rightarrow> unmap_loop P s root first_range (Some newly) rest
                             | Some curr_frames \<Rightarrow>
                                 (case allocated_frames_merge curr_frames newly of
                                    Inr merged \<Rightarrow> unmap_loop P s root first_range (Some merged) rest
                                  | Inl newly \<Rightarrow>
                                      (case first_range of
                                         None \<Rightarrow> unmap_loop P s root (Some curr_frames) (Some newly) rest
                                       | Some _ \<Rightarrow> do {
                                           s \<leftarrow> drop_frames P s curr_frames;
                                           unmap_loop P s root first_range (Some newly) rest
                                         }))))))))"

definition unmap ::
  "('t, 'c, 'u, 'd) platform \<Rightarrow> ('t, 'u) memory \<Rightarrow> mapper \<Rightarrow> mapped_pages \<Rightarrow>
   ((allocated_frames option, string) result \<times> ('t, 'u) memory) panics" where
  "unmap P s m self =
     (if size_in_chunks (mp_pages self) = 0 then Some (Ok None, s)
      else if target_p4 m \<noteq> mp_page_table_p4 self then
        Some (Err ''BUG: MappedPages::unmap(): current P4 must equal original P4, cannot unmap MappedPages from a different page table than they were originally mapped to!'', s)
      else unmap_loop P s (mapper_p4 m) None None (range_list (mp_pages self)))"

definition unmap_into_parts ::
  "('t, 'c, 'u, 'd) platform \<Rightarrow> ('t, 'u) memory \<Rightarrow> mapper \<Rightarrow> mapped_pages \<Rightarrow>
   ((allocated_pages \<times> allocated_frames option, mapped_pages) result \<times> ('t, 'u) memory) panics" where
  "unmap_into_parts P s m self =
     do {
       (r, s) \<leftarrow> unmap P s m self;
       case r of
         Inr first_frames \<Rightarrow> Some (Ok (mp_pages self, first_frames), s)
       | Inl e \<Rightarrow> Some (Err self, s)
     }"

definition drop_mapped_pages ::
  "('t, 'c, 'u, 'd) platform \<Rightarrow> ('t, 'u) memory \<Rightarrow> frame \<Rightarrow> mapped_pages \<Rightarrow> ('t, 'u) memory panics" where
  "drop_mapped_pages P s current_p4 self =
     do {
       (r, s) \<leftarrow> unmap P s (from_current current_p4) self;
       s \<leftarrow> (case r of Inl e \<Rightarrow> Some s | Inr frames \<Rightarrow> drop_frames_opt P s frames);
       Some (drop_pages P s (mp_pages self))
     }"

section \<open>Typed views\<close>

text \<open>A view is the address at which it starts. \<open>size\<close> and \<open>align\<close> are those of the type \<open>T\<close>. An
  unaligned offset is only logged.\<close>

definition page_start_address :: "arch \<Rightarrow> page \<Rightarrow> usize" where
  "page_start_address a n =
     (case a of X86_64 \<Rightarrow> canonicalize_virtual_address (n * PAGE_SIZE)
              | Aarch64 \<Rightarrow> canonicalize_virtual_address_aarch64 (n * PAGE_SIZE))"

definition checked_mul :: "usize \<Rightarrow> usize \<Rightarrow> usize option" where
  "checked_mul a b = (if uint a * uint b < 2 ^ 64 then Some (a * b) else None)"

definition ISIZE_MAX :: usize where "ISIZE_MAX = 0x7FFFFFFFFFFFFFFF"

definition as_type :: "arch \<Rightarrow> mapped_pages \<Rightarrow> usize \<Rightarrow> usize \<Rightarrow> usize \<Rightarrow> (usize, string) result" where
  "as_type a mp size_T align_T byte_offset =
     (case checked_add (page_start_address a (r_start (mp_pages mp))) byte_offset of
        None \<Rightarrow> Err ''MappedPages::as_type(): overflow: start_address + byte_offset''
      | Some start_vaddr \<Rightarrow>
          (case checked_add byte_offset size_T of
             None \<Rightarrow> Err ''MappedPages::as_type(): overflow: byte_offset + size_of::<T>())''
           | Some end_bound \<Rightarrow>
               if size_in_bytes (mp_pages mp) < end_bound then
                 Err ''MappedPages::as_type(): requested type and byte_offset would not fit within the MappedPages bounds''
               else Ok start_vaddr))"

definition as_type_mut ::
  "bitflags_api \<Rightarrow> arch \<Rightarrow> mapped_pages \<Rightarrow> usize \<Rightarrow> usize \<Rightarrow> usize \<Rightarrow> (usize, string) result" where
  "as_type_mut bf a mp size_T align_T byte_offset =
     (if \<not> arch_is_writable bf a (mp_flags mp) then Err ''MappedPages::as_type_mut(): MappedPages were not writable''
      else
        (case checked_add (page_start_address a (r_start (mp_pages mp))) byte_offset of
           None \<Rightarrow> Err ''MappedPages::as_type_mut(): overflow: start_address + byte_offset''
         | Some start_vaddr \<Rightarrow>
             (case checked_add byte_offset size_T of
                None \<Rightarrow> Err ''MappedPages::as_type_mut(): overflow: byte_offset + size_of::<T>())''
              | Some end_bound \<Rightarrow>
                  if size_in_bytes (mp_pages mp) < end_bound then
                    Err ''MappedPages::as_type_mut(): requested type and byte_offset would not fit within the MappedPages bounds''
                  else Ok start_vaddr)))"

definition as_slice ::
  "arch \<Rightarrow> mapped_pages \<Rightarrow> usize \<Rightarrow> usize \<Rightarrow> usize \<Rightarrow> usize \<Rightarrow> (usize, string) result" where
  "as_slice a mp size_T align_T byte_offset len =
     (case checked_mul len size_T of
        None \<Rightarrow> Err ''MappedPages::as_slice(): overflow: length * size_of::<T>()''
      | Some bytes \<Rightarrow>
          if ISIZE_MAX < bytes then
            Err ''MappedPages::as_slice(): length * size_of::<T>() must be no larger than isize::MAX''
          else
            (case checked_add (page_start_address a (r_start (mp_pages mp))) byte_offset of
               None \<Rightarrow> Err ''MappedPages::as_slice(): overflow: start_address + byte_offset''
             | Some start_vaddr \<Rightarrow>
                 (case checked_add byte_offset bytes of
                    None \<Rightarrow> Err ''MappedPages::as_slice_mut(): overflow: byte_offset + (length * size_of::<T>())''
                  | Some end_bound \<Rightarrow>
                      if size_in_bytes (mp_pages mp) < end_bound then
                        Err ''MappedPages::as_slice(): requested slice length and byte_offset would not fit within the MappedPages bounds''
                      else Ok start_vaddr)))"

definition as_slice_mut ::
  "bitflags_api \<Rightarrow> arch \<Rightarrow> mapped_pages \<Rightarrow> usize \<Rightarrow> usize \<Rightarrow> usize \<Rightarrow> usize \<Rightarrow> (usize, string) result" where
  "as_slice_mut bf a mp size_T align_T byte_offset len =
     (case checked_mul len size_T of
        None \<Rightarrow> Err ''MappedPages::as_slice_mut(): overflow: length * size_of::<T>()''
      | Some bytes \<Rightarrow>
          if ISIZE_MAX < bytes then
            Err ''MappedPages::as_slice_mut(): length * size_of::<T>() must be no larger than isize::MAX''
          else if \<not> arch_is_writable bf a (mp_flags mp) then
            Err ''MappedPages::as_slice_mut(): MappedPages were not writable''
          else
            (case checked_add (page_start_address a (r_start (mp_pages mp))) byte_offset of
               None \<Rightarrow> Err ''MappedPages::as_slice_mut(): overflow: start_address + byte_offset''
             | Some start_vaddr \<Rightarrow>
                 (case checked_add byte_offset bytes of
                    None \<Rightarrow> Err ''MappedPages::as_slice_mut(): overflow: byte_offset + (length * size_of::<T>())''
                  | Some end_bound \<Rightarrow>
                      if size_in_bytes (mp_pages mp) < end_bound then
                        Err ''MappedPages::as_slice_mut(): requested slice length and byte_offset would not fit within the MappedPages bounds''
                      else Ok start_vaddr)))"

end
