(* ===== verification/PagingInv.thy ===== *)
theory PagingInv
  imports MappedPages FrameSystem
begin

text \<open>
  Page tables as trees. A path is a list of table indices; \<open>table_at\<close> follows it from the root. In a
  well-formed set of tables different paths lead to different frames, apart from the paths through
  the recursive entries 508 and 510 of the top table. Then changing one entry changes the
  translation of one page and of no other: the functions of \<open>Paging\<close> refine point-wise updates of
  the map \<open>pte_of\<close> from pages to entries.
\<close>

section \<open>Paths\<close>

fun table_at :: "bitflags_api \<Rightarrow> arch \<Rightarrow> page_tables \<Rightarrow> frame \<Rightarrow> usize list \<Rightarrow> frame option" where
  "table_at bf a T t [] = Some t"
| "table_at bf a T t (i # js) = Option.bind (next_table bf a T t i) (\<lambda>t'. table_at bf a T t' js)"

lemma table_at_append:
  "table_at bf a T t (is @ js) = Option.bind (table_at bf a T t is) (\<lambda>t'. table_at bf a T t' js)"
  by (induction "is" arbitrary: t) (auto split: Option.bind_split)

lemma table_at_snoc:
  "table_at bf a T t (is @ [i]) = Option.bind (table_at bf a T t is) (\<lambda>t'. next_table bf a T t' i)"
  by (simp add: table_at_append)

lemma p1_table_path: "p1_table bf a T root p = table_at bf a T root [p4_index p, p3_index p, p2_index p]"
  by (simp add: p1_table_def)

text \<open>A path reads one entry in each table on the way.\<close>

lemma table_at_cong:
  assumes "\<And>ks k ms t. js = ks @ k # ms \<Longrightarrow> table_at bf a T root ks = Some t \<Longrightarrow>
    next_table bf a T' t k = next_table bf a T t k"
  shows "table_at bf a T' root js = table_at bf a T root js"
  using assms
proof (induction js arbitrary: root)
  case (Cons j js)
  have j: "next_table bf a T' root j = next_table bf a T root j" using Cons.prems [of "[]" j js root] by simp
  show ?case
  proof (cases "next_table bf a T root j")
    case (Some t)
    have "table_at bf a T' t js = table_at bf a T t js"
      by (rule Cons.IH) (use Cons.prems [of "j # _"] Some in auto)
    then show ?thesis by (simp add: j Some)
  qed (simp add: j)
qed simp

definition tree_path :: "usize list \<Rightarrow> bool" where
  "tree_path is \<longleftrightarrow> length is \<le> 3 \<and> (is = [] \<or> hd is \<notin> {508, 510})"

lemma tree_path_prefix: "tree_path (ks @ ms) \<Longrightarrow> tree_path ks"
  by (cases ks) (auto simp: tree_path_def)

definition tables_wf :: "bitflags_api \<Rightarrow> arch \<Rightarrow> page_tables \<Rightarrow> frame \<Rightarrow> bool" where
  "tables_wf bf a T root \<longleftrightarrow>
     (\<forall>is js t. tree_path is \<longrightarrow> tree_path js \<longrightarrow> table_at bf a T root is = Some t \<longrightarrow>
        table_at bf a T root js = Some t \<longrightarrow> is = js)"

definition table_frames :: "bitflags_api \<Rightarrow> arch \<Rightarrow> page_tables \<Rightarrow> frame \<Rightarrow> frame set" where
  "table_frames bf a T root = {t. \<exists>is. tree_path is \<and> table_at bf a T root is = Some t}"

section \<open>The entry of a page\<close>

definition pte_of :: "bitflags_api \<Rightarrow> arch \<Rightarrow> page_tables \<Rightarrow> frame \<Rightarrow> page \<Rightarrow> u64" where
  "pte_of bf a T root p = (case p1_table bf a T root p of None \<Rightarrow> 0 | Some p1 \<Rightarrow> T p1 (p1_index p))"

text \<open>Pages that the page tables tell apart, and pages outside the recursive entries.\<close>

abbreviation slot :: "page \<Rightarrow> usize" where "slot p \<equiv> take_bit 36 p"

definition ordinary_page :: "page \<Rightarrow> bool" where
  "ordinary_page p \<longleftrightarrow> p4_index p \<notin> {508, 510}"

lemma slot_eq_iff:
  "slot p = slot q \<longleftrightarrow> p4_index p = p4_index q \<and> p3_index p = p3_index q \<and> p2_index p = p2_index q \<and> p1_index p = p1_index q"
proof
  assume s: "slot p = slot q"
  have b: "bit p k = bit q k" if "k < 36" for k
    using arg_cong [OF s, of "\<lambda>x. bit x k"] that by (simp add: bit_take_bit_iff)
  have m: "(0x1FF :: usize) = mask 9" by (simp add: mask_eq_exp_minus_1)
  show "p4_index p = p4_index q \<and> p3_index p = p3_index q \<and> p2_index p = p2_index q \<and> p1_index p = p1_index q"
    unfolding p4_index_def p3_index_def p2_index_def p1_index_def m
    by (intro conjI bit_word_eqI)
      (simp_all only: bit_and_iff bit_drop_bit_eq bit_mask_iff possible_bit_word o_def, auto simp: b)
qed (metis page_indices_compose)

lemma slot_eq_pte_of: "slot p = slot q \<Longrightarrow> pte_of bf a T root p = pte_of bf a T root q"
  by (simp add: slot_eq_iff pte_of_def p1_table_def split: option.split)

lemma ordinary_path: "ordinary_page p \<Longrightarrow> tree_path [p4_index p, p3_index p, p2_index p]"
  by (simp add: ordinary_page_def tree_path_def)

section \<open>Setting an entry of a lowest table\<close>

text \<open>An entry of a table that a path of length three reaches is read by no shorter path.\<close>

lemma next_table_cong: "T' t i = T t i \<Longrightarrow> next_table bf a T' t i = next_table bf a T t i"
  by (simp add: next_table_def Let_def)

lemma set_pte_table_at:
  assumes wf: "tables_wf bf a T root" and is3: "tree_path is" "length is = 3" and t: "table_at bf a T root is = Some t"
    and js: "tree_path js"
  shows "table_at bf a (set_pte T t k e) root js = table_at bf a T root js"
proof (rule table_at_cong)
  fix ks l ms u assume d: "js = ks @ l # ms" and u: "table_at bf a T root ks = Some u"
  have "tree_path ks" using js tree_path_prefix d by blast
  moreover have "length ks < 3" using js d by (simp add: tree_path_def)
  ultimately have "u \<noteq> t" using wf is3 t u by (auto simp: tables_wf_def)
  then show "next_table bf a (set_pte T t k e) u l = next_table bf a T u l"
    by (intro next_table_cong) (simp add: set_pte_def)
qed

lemma set_pte_wf:
  assumes "tables_wf bf a T root" "tree_path is" "length is = 3" "table_at bf a T root is = Some t"
  shows "tables_wf bf a (set_pte T t k e) root" "table_frames bf a (set_pte T t k e) root = table_frames bf a T root"
  using set_pte_table_at [OF assms] assms(1) unfolding tables_wf_def table_frames_def by (metis+)

lemma pte_of_set_pte:
  assumes wf: "tables_wf bf a T root" and p: "ordinary_page p" and p1: "p1_table bf a T root p = Some p1"
    and q: "ordinary_page q"
  shows "pte_of bf a (set_pte T p1 (p1_index p) e) root q = (if slot q = slot p then e else pte_of bf a T root q)"
proof -
  note path = ordinary_path [OF p] ordinary_path [OF q]
  have same: "p1_table bf a (set_pte T p1 (p1_index p) e) root q = p1_table bf a T root q"
    unfolding p1_table_path by (rule set_pte_table_at [OF wf path(1)]) (use p1 path in \<open>simp_all add: p1_table_path del: table_at.simps\<close>)
  show ?thesis
  proof (cases "p1_table bf a T root q")
    case (Some u)
    have "u = p1 \<longleftrightarrow> [p4_index q, p3_index q, p2_index q] = [p4_index p, p3_index p, p2_index p]"
      using wf path p1 Some unfolding tables_wf_def p1_table_path by (metis option.inject)
    then show ?thesis using Some same by (auto simp: pte_of_def set_pte_def slot_eq_iff)
  next
    case None
    then have "slot q \<noteq> slot p" using p1 by (auto simp: slot_eq_iff p1_table_path)
    then show ?thesis using None same by (simp add: pte_of_def)
  qed
qed

section \<open>Creating a table\<close>

text \<open>\<open>T'\<close> is \<open>T\<close> with the empty table \<open>f\<close> below entry \<open>i\<close> of table \<open>t\<close>, which \<open>is\<close> leads to.\<close>

definition table_added ::
  "bitflags_api \<Rightarrow> arch \<Rightarrow> page_tables \<Rightarrow> page_tables \<Rightarrow> frame \<Rightarrow> usize list \<Rightarrow> frame \<Rightarrow> usize \<Rightarrow> frame \<Rightarrow> bool" where
  "table_added bf a T T' root is t i f \<longleftrightarrow>
     tables_wf bf a T root \<and> tree_path (is @ [i]) \<and> table_at bf a T root is = Some t \<and>
     next_table bf a T t i = None \<and> f \<notin> table_frames bf a T root \<and>
     (\<forall>u k. u \<noteq> f \<longrightarrow> (u, k) \<noteq> (t, i) \<longrightarrow> T' u k = T u k) \<and>
     next_table bf a T' t i = Some f \<and> (\<forall>k. T' f k = 0 \<and> next_table bf a T' f k = None)"

lemma table_addedD:
  assumes "table_added bf a T T' root is t i f"
  shows "tables_wf bf a T root" "tree_path (is @ [i])" "table_at bf a T root is = Some t"
    "next_table bf a T t i = None" "f \<notin> table_frames bf a T root"
    "u \<noteq> f \<Longrightarrow> (u, k) \<noteq> (t, i) \<Longrightarrow> T' u k = T u k"
    "next_table bf a T' t i = Some f" "T' f k = 0" "next_table bf a T' f k = None"
  using assms by (auto simp: table_added_def)

lemma in_table_frames: "tree_path js \<Longrightarrow> table_at bf a T root js = Some u \<Longrightarrow> u \<in> table_frames bf a T root"
  by (auto simp: table_frames_def)

lemma create_other:
  assumes add: "table_added bf a T T' root is t i f" and js: "tree_path js" and n: "\<nexists>ms. js = is @ i # ms"
  shows "table_at bf a T' root js = table_at bf a T root js"
proof (rule table_at_cong)
  note A = table_addedD [OF add]
  fix ks l ms u assume d: "js = ks @ l # ms" and u: "table_at bf a T root ks = Some u"
  have ks: "tree_path ks" using js tree_path_prefix d by blast
  then have "u \<noteq> f" using u A(5) in_table_frames by blast
  moreover have "(u, l) \<noteq> (t, i)"
    using A(1,3) ks u n d tree_path_prefix [OF A(2)] unfolding tables_wf_def by (metis prod.inject)
  ultimately show "next_table bf a T' u l = next_table bf a T u l" by (intro next_table_cong A(6))
qed

lemma create_new:
  assumes add: "table_added bf a T T' root is t i f"
  shows "table_at bf a T' root (is @ i # ms) = (if ms = [] then Some f else None)"
proof -
  note A = table_addedD [OF add]
  have "table_at bf a T' root is = Some t" using create_other [OF add tree_path_prefix [OF A(2)]] A(3) by simp
  then show ?thesis by (cases ms) (simp_all add: table_at_append A(7,9))
qed

lemma create_before: "table_added bf a T T' root is t i f \<Longrightarrow> table_at bf a T root (is @ i # ms) = None"
  by (simp add: table_at_append table_addedD(3,4))

lemma create_cases:
  assumes add: "table_added bf a T T' root is t i f" and js: "tree_path js"
  shows "table_at bf a T' root js = Some u \<longleftrightarrow> js = is @ [i] \<and> u = f \<or> table_at bf a T root js = Some u"
proof (cases "\<exists>ms. js = is @ i # ms")
  case True
  then obtain ms where "js = is @ i # ms" by blast
  then show ?thesis using create_new [OF add, of ms] create_before [OF add, of ms] by auto
next
  case False
  then show ?thesis using create_other [OF add js False] by auto
qed

lemma create_wf:
  assumes add: "table_added bf a T T' root is t i f"
  shows "tables_wf bf a T' root"
  unfolding tables_wf_def
proof (intro allI impI)
  fix js ls u
  assume j: "tree_path js" "tree_path ls" and at: "table_at bf a T' root js = Some u" "table_at bf a T' root ls = Some u"
  have old: "table_at bf a T root ks = Some u \<Longrightarrow> tree_path ks \<Longrightarrow> u \<noteq> f" for ks
    using in_table_frames table_addedD(5) [OF add] by metis
  from at show "js = ls"
    unfolding create_cases [OF add j(1)] create_cases [OF add j(2)]
    using j old table_addedD(1) [OF add] unfolding tables_wf_def by blast
qed

lemma create_frames:
  assumes add: "table_added bf a T T' root is t i f"
  shows "table_frames bf a T' root = insert f (table_frames bf a T root)"
  using create_cases [OF add] table_addedD(2) [OF add] unfolding table_frames_def by blast

lemma create_pte_of:
  assumes add: "table_added bf a T T' root is t i f" and len: "length is \<le> 2" and p: "ordinary_page p"
  shows "pte_of bf a T' root p = pte_of bf a T root p"
proof (cases "\<exists>ms. [p4_index p, p3_index p, p2_index p] = is @ i # ms")
  case True
  then obtain ms where m: "[p4_index p, p3_index p, p2_index p] = is @ i # ms" by blast
  show ?thesis using create_new [OF add, of ms] create_before [OF add, of ms] table_addedD(8) [OF add]
    unfolding pte_of_def p1_table_path m by simp
next
  case False
  note A = table_addedD [OF add] and path = ordinary_path [OF p]
  note same = create_other [OF add path False]
  show ?thesis
  proof (cases "p1_table bf a T root p")
    case (Some u)
    then have u: "table_at bf a T root [p4_index p, p3_index p, p2_index p] = Some u" by (simp only: p1_table_path)
    have "u \<noteq> f" using A(5) in_table_frames [OF path u] by blast
    moreover have "is = [p4_index p, p3_index p, p2_index p]" if "u = t"
      using A(1,3) path u that tree_path_prefix [OF A(2)] unfolding tables_wf_def by blast
    then have "u \<noteq> t" using len by auto
    ultimately show ?thesis using u same unfolding pte_of_def p1_table_path by (simp add: A(6) del: table_at.simps)
  next
    case None
    then show ?thesis using same unfolding pte_of_def p1_table_path by (simp del: table_at.simps)
  qed
qed

section \<open>The platform\<close>

text \<open>What the paging code relies on: the laws of the bitflags crate and of the red-black tree of the
  frame allocator. The bound on frame numbers of the model is the one of x86_64.\<close>

locale paging_platform = flags: bitflags "pl_bf P" + frames: frame_tree "pl_frame_api P" fpos
  for P :: "('t, 'c, 'u, 'd) platform" and fpos +
  assumes arch: "pl_arch P = X86_64"

definition list_platform ::
  "(fchunk list, nat option, pchunk list, nat option) platform" where
  "list_platform = \<lparr>pl_bf = bitwise_flags, pl_arch = X86_64, pl_frame_api = list_rbtree fc_start,
     pl_page_api = list_rbtree r_start\<rparr>"

lemma list_platform_simps [simp]:
  "pl_bf list_platform = bitwise_flags" "pl_arch list_platform = X86_64"
  "pl_frame_api list_platform = list_rbtree fc_start" "pl_page_api list_platform = list_rbtree r_start"
  by (simp_all add: list_platform_def)

interpretation list_platform: paging_platform list_platform list_pos
  by (intro paging_platform.intro paging_platform_axioms.intro frame_tree.intro)
    (simp_all add: bitwise.bitflags_axioms list_rbtree.rbtree_axioms)

text \<open>The invariant: the tables form a tree, the frame allocator keeps its invariant with the frames
  \<open>H\<close> in use, and the frames of the tables are among them.\<close>

definition pt_inv ::
  "('t, 'c, 'u, 'd) platform \<Rightarrow> ('t, 'u) memory \<Rightarrow> frame \<Rightarrow> chunk_range multiset \<Rightarrow> bool" where
  "pt_inv P s root H \<longleftrightarrow>
     tables_wf (pl_bf P) (pl_arch P) (mem_tables s) root \<and>
     (\<forall>t \<in> table_frames (pl_bf P) (pl_arch P) (mem_tables s) root. 0 < owners t H) \<and>
     alloc_inv (pl_frame_api P) (mem_frames s) H"

text \<open>Flags of the target architecture, and that the setters keep to them.\<close>

definition flags_ok :: "arch \<Rightarrow> u64 \<Rightarrow> bool" where
  "flags_ok a f \<longleftrightarrow> f AND arch_all a = f"

lemma flags_ok_bit: "flags_ok a f \<longleftrightarrow> (\<forall>k. bit f k \<longrightarrow> bit (arch_all a) k)"
  by (auto simp: flags_ok_def bit_and_iff bit_eq_iff dest: bit_u64_bound)

lemma flags_ok_arch:
  assumes "bitflags bf" "flags_ok a f"
  shows "flags_ok a (arch_valid bf a f v)" "flags_ok a (arch_writable bf a f v)" "flags_ok a (arch_exclusive bf a f v)"
  using assms(2) unfolding flags_ok_bit arch_valid_def arch_writable_def arch_exclusive_def
  by (cases a; auto simp: x86_valid_def x86_writable_def x86_exclusive_def a64_valid_def a64_writable_def
      a64_exclusive_def bitflags.bf_laws [OF assms(1)] arch_all_def flag_bits split: if_splits)+

lemma flags_ok_adjust:
  assumes "bitflags bf" "flags_ok X86_64 f"
  shows "flags_ok X86_64 (arch_adjust_for_higher_level_pte bf X86_64 f)"
  using assms(2) unfolding flags_ok_bit
  by (auto simp: arch_adjust_for_higher_level_pte_def x86_adjust_for_higher_level_pte_def x86_valid_def
      x86_pat_index_def x86_exclusive_def x86_executable_def bitflags.bf_laws [OF assms(1)] arch_all_def flag_bits Let_def
      split: if_splits)

lemma set_entry_nonzero:
  assumes "bitflags bf" "frame_fits a n" "flags_ok a f" "arch_is_valid bf a f"
  shows "entry_set_entry a n f \<noteq> 0"
proof -
  have "\<not> bit (PTE_FRAME_MASK a) 0" by (simp add: bit_frame_mask)
  then have "bit (entry_set_entry a n f) 0"
    using assms bit_set_entry [of a n f 0] by (simp add: flags_ok_def bitflags.arch_is_valid_iff)
  then show ?thesis by auto
qed

section \<open>Creating tables and mapping pages\<close>

lemma pt_inv_mono:
  "pt_inv P s root H \<Longrightarrow> mem_tables s' = mem_tables s \<Longrightarrow> alloc_inv (pl_frame_api P) (mem_frames s') (G + H) \<Longrightarrow>
   pt_inv P s' root (G + H)"
  by (auto simp: pt_inv_def owners_def)

text \<open>What a step of the mapping functions keeps, apart from the entries of pages.\<close>

definition pt_extends ::
  "('t, 'c, 'u, 'd) platform \<Rightarrow> frame \<Rightarrow> ('t, 'u) memory \<Rightarrow> ('t, 'u) memory \<Rightarrow> bool" where
  "pt_extends P root s s' \<longleftrightarrow>
     mem_pages s' = mem_pages s \<and> into_allocated_frames_func s' = into_allocated_frames_func s \<and>
     (\<forall>js u. tree_path js \<longrightarrow> table_at (pl_bf P) (pl_arch P) (mem_tables s) root js = Some u \<longrightarrow>
        table_at (pl_bf P) (pl_arch P) (mem_tables s') root js = Some u)"

lemma pt_extends_refl [simp]: "pt_extends P root s s"
  by (simp add: pt_extends_def)

lemma pt_extends_trans [trans]: "pt_extends P root s s' \<Longrightarrow> pt_extends P root s' s'' \<Longrightarrow> pt_extends P root s s''"
  by (simp add: pt_extends_def)

abbreviation ptes :: "('t, 'c, 'u, 'd) platform \<Rightarrow> ('t, 'u) memory \<Rightarrow> frame \<Rightarrow> page \<Rightarrow> u64" where
  "ptes P s root p \<equiv> pte_of (pl_bf P) (pl_arch P) (mem_tables s) root p"

lemma frame_fits_bounded: "n \<le> MAX_FRAME \<Longrightarrow> frame_fits X86_64 n"
  by (simp add: frame_fits_def phys_bits_def MAX_FRAME_eq word_le_nat_alt)

context paging_platform
begin

lemma allocate_frames_inv:
  assumes "alloc_inv (pl_frame_api P) st H" "allocate_frames (pl_frame_api P) st n = Some (r, st')"
  shows "case r of None \<Rightarrow> alloc_inv (pl_frame_api P) st' H
    | Some af \<Rightarrow> alloc_inv (pl_frame_api P) st' (add_mset af H) \<and> card (chunks af) = unat n \<and> bounded_range af"
proof (cases "allocate_frames_deferred (pl_frame_api P) st None n")
  case (Some y)
  obtain res st1 where y: "y = (res, st1)" by force
  note i = frames.allocate_frames_deferred_inv [OF assms(1) _ Some [unfolded y]]
  show ?thesis
  proof (cases res)
    case (Inl e)
    then show ?thesis using assms(2) i y Some
      by (auto simp: allocate_frames_def drop_action_def request_safe_def)
  next
    case (Inr x)
    obtain af act where x: "x = (af, act)" by force
    have a: "alloc_inv (pl_frame_api P) st1 (action_ranges act + add_mset af H)" "outcome_ok None n (Ok (af, act))"
      using i Inr x by (simp_all add: request_safe_def)
    have "r = Some af" "drop_deferred (pl_frame_api P) st1 act = Some st'"
      using assms(2) Inr x Some y by (auto simp: allocate_frames_def drop_action_def bind_eq_Some_conv)
    then show ?thesis using frames.drop_deferred_inv [OF a(1)] a(2) by (auto simp: outcome_ok_def)
  qed
qed (use assms(2) in \<open>simp add: allocate_frames_def drop_action_def\<close>)

lemma one_frame:
  assumes "alloc_inv (pl_frame_api P) st H" "allocate_frames (pl_frame_api P) st 1 = Some (Some af, st')"
    "as_allocated_frame af = Some f"
  shows "f \<in> chunks af" "f \<le> MAX_FRAME" "owners f H = 0" "alloc_inv (pl_frame_api P) st' (add_mset af H)" "af = range_new f f"
proof -
  have a: "alloc_inv (pl_frame_api P) st' (add_mset af H)" "bounded_range af" "card (chunks af) = 1"
    using allocate_frames_inv [OF assms(1,2)] by auto
  have f: "f = r_start af" using assms(3) by (auto simp: as_allocated_frame_def bind_eq_Some_conv)
  obtain x where x: "chunks af = {x}" using a(3) card_1_singletonE by metis
  then have "r_start af = x" "r_end af = x"
    by (metis atLeastAtMost_singleton_iff)+
  then show "af = range_new f f" "f \<in> chunks af" "f \<le> MAX_FRAME" using f a(2) by (auto simp: bounded_range_def range_new_def)
  have "owners f (add_mset af H) \<le> 1" using a(1) unfolding alloc_inv_def by (metis add_leD2)
  then show "owners f H = 0" using \<open>f \<in> chunks af\<close> by (simp add: owners_def)
qed (use allocate_frames_inv [OF assms(1,2)] in auto)

lemma zero_entry_invalid: "\<not> arch_is_valid (pl_bf P) X86_64 (entry_flags (pl_bf P) X86_64 0)"
  by (simp add: flags.arch_is_valid_iff flags.bit_entry_flags)

lemma next_table_create_ok:
  assumes inv: "pt_inv P s root H" and path: "tree_path (is @ [i])"
    and t: "table_at (pl_bf P) (pl_arch P) (mem_tables s) root is = Some t"
    and fl: "flags_ok X86_64 flags" and run: "next_table_create P s t i flags = Some (nt, s')"
  shows "\<exists>H'. pt_inv P s' root (H' + H) \<and> pt_extends P root s s' \<and>
    table_at (pl_bf P) (pl_arch P) (mem_tables s') root (is @ [i]) = Some nt \<and>
    (\<forall>p. ordinary_page p \<longrightarrow> ptes P s' root p = ptes P s root p)"
proof (cases "next_table (pl_bf P) (pl_arch P) (mem_tables s) t i")
  case (Some u)
  then have "s' = s" "nt = u" using run by (auto simp: next_table_create_def Let_def bind_eq_Some_conv)
  then show ?thesis using inv t Some by (auto simp: table_at_append intro!: exI [of _ "{#}"])
next
  case None
  let ?bf = "pl_bf P" and ?T = "mem_tables s" and ?fl = "arch_writable (pl_bf P) X86_64 (arch_valid (pl_bf P) X86_64 flags True) True"
  obtain af fa f u where run': "allocate_frames (pl_frame_api P) (mem_frames s) 1 = Some (Some af, fa)"
      "as_allocated_frame af = Some f" "next_table ?bf X86_64 (set_pte ?T t i (entry_set_entry X86_64 f ?fl)) t i = Some u"
      and s': "s' = s\<lparr>mem_tables := table_zero (set_pte ?T t i (entry_set_entry X86_64 f ?fl)) u, mem_frames := fa\<rparr>"
    using run None by (auto simp: next_table_create_def Let_def bind_eq_Some_conv arch split: if_splits)
  have nt: "next_table ?bf X86_64 (mem_tables s') t i = Some nt"
    using run by (auto simp: next_table_create_def Let_def bind_eq_Some_conv arch)
  have i: "tables_wf ?bf X86_64 ?T root" "x \<in> table_frames ?bf X86_64 ?T root \<Longrightarrow> owners x H \<noteq> 0"
      "alloc_inv (pl_frame_api P) (mem_frames s) H" for x
    using inv by (auto simp: pt_inv_def arch)
  note f = one_frame [OF i(3) run'(1,2)]
  have "flags_ok X86_64 ?fl" by (intro flags_ok_arch fl flags.bitflags_axioms)
  then have u: "u = f"
    using run'(3) flags.set_entry_parts [OF frame_fits_bounded [OF f(2)]]
    by (auto simp: next_table_def Let_def set_pte_def flags_ok_def split: if_splits)
  have fresh: "f \<notin> table_frames ?bf X86_64 ?T root" using i(2) f(3) by blast
  then have ne: "f \<noteq> t" using in_table_frames [OF tree_path_prefix [OF path]] t by (auto simp: arch)
  have "next_table ?bf X86_64 (mem_tables s') t i = Some f"
    by (subst next_table_cong [where T = "set_pte ?T t i (entry_set_entry X86_64 f ?fl)"])
      (use run'(3) ne in \<open>simp_all add: s' u table_zero_def\<close>)
  with fresh ne have add: "table_added ?bf X86_64 ?T (mem_tables s') root is t i f"
    using path t i(1) None zero_entry_invalid
    by (auto simp: table_added_def arch s' u table_zero_def set_pte_def next_table_def entry_zero_def)
  have "length is \<le> 2" using path by (simp add: tree_path_def)
  then have "\<forall>p. ordinary_page p \<longrightarrow> ptes P s' root p = ptes P s root p"
    using create_pte_of [OF add] by (simp add: arch)
  moreover have "pt_inv P s' root ({#af#} + H)"
    using create_wf [OF add] create_frames [OF add] f(1,4) i(2) by (auto simp: pt_inv_def arch s')
  moreover have "pt_extends P root s s'" using create_cases [OF add] by (simp add: pt_extends_def arch s')
  moreover have "table_at ?bf X86_64 (mem_tables s') root (is @ [i]) = Some nt"
    using create_new [OF add, of "[]"] nt table_addedD(7) [OF add] by simp
  ultimately show ?thesis by (intro exI [of _ "{#af#}"]) (simp add: arch)
qed

lemma create_path_ok:
  assumes inv: "pt_inv P s root H" and p: "ordinary_page p" and fl: "flags_ok X86_64 flags"
    and run: "next_table_create P s root (p4_index p) flags = Some (p3, s1)"
      "next_table_create P s1 p3 (p3_index p) flags = Some (p2, s2)"
      "next_table_create P s2 p2 (p2_index p) flags = Some (p1, s3)"
  shows "\<exists>H'. pt_inv P s3 root (H' + H) \<and> pt_extends P root s s3 \<and>
    p1_table (pl_bf P) (pl_arch P) (mem_tables s3) root p = Some p1 \<and>
    (\<forall>q. ordinary_page q \<longrightarrow> ptes P s3 root q = ptes P s root q)"
proof -
  let ?at = "\<lambda>s. table_at (pl_bf P) (pl_arch P) (mem_tables s) root"
  note path = ordinary_path [OF p]
  obtain H1 where 1: "pt_inv P s1 root (H1 + H)" "pt_extends P root s s1" "?at s1 [p4_index p] = Some p3"
      "\<forall>q. ordinary_page q \<longrightarrow> ptes P s1 root q = ptes P s root q"
    using next_table_create_ok [OF inv _ _ fl run(1), of "[]"] tree_path_prefix [of "[p4_index p]"] path by auto
  obtain H2 where 2: "pt_inv P s2 root (H2 + (H1 + H))" "pt_extends P root s1 s2" "?at s2 [p4_index p, p3_index p] = Some p2"
      "\<forall>q. ordinary_page q \<longrightarrow> ptes P s2 root q = ptes P s1 root q"
    using next_table_create_ok [OF 1(1) _ 1(3) fl run(2)] tree_path_prefix [of "[p4_index p, p3_index p]"] path by auto
  obtain H3 where 3: "pt_inv P s3 root (H3 + (H2 + (H1 + H)))" "pt_extends P root s2 s3"
      "?at s3 [p4_index p, p3_index p, p2_index p] = Some p1"
      "\<forall>q. ordinary_page q \<longrightarrow> ptes P s3 root q = ptes P s2 root q"
    using next_table_create_ok [OF 2(1) _ 2(3) fl run(3)] path by auto
  have "pt_extends P root s s3" using 1(2) 2(2) 3(2) pt_extends_trans by blast
  with 1 2 3 show ?thesis
    unfolding p1_table_path by (intro exI [of _ "H3 + (H2 + H1)"]) (simp add: ac_simps del: table_at.simps)
qed

lemma set_pte_ok:
  assumes inv: "pt_inv P s root H" and p: "ordinary_page p"
    and p1: "p1_table (pl_bf P) (pl_arch P) (mem_tables s) root p = Some p1"
    and s'_def: "s' = s\<lparr>mem_tables := set_pte (mem_tables s) p1 (p1_index p) e\<rparr>"
  shows "pt_inv P s' root H" "pt_extends P root s s'"
    "ordinary_page q \<Longrightarrow> ptes P s' root q = (if slot q = slot p then e else ptes P s root q)"
proof -
  have wf: "tables_wf (pl_bf P) (pl_arch P) (mem_tables s) root" using inv by (simp add: pt_inv_def)
  note path = ordinary_path [OF p]
  note at = p1 [unfolded p1_table_path]
  show "pt_inv P s' root H"
    using inv set_pte_wf [OF wf path _ at] by (simp add: pt_inv_def s'_def)
  show "pt_extends P root s s'"
    using set_pte_table_at [OF wf path _ at] by (simp add: pt_extends_def s'_def)
  show "ordinary_page q \<Longrightarrow> ptes P s' root q = (if slot q = slot p then e else ptes P s root q)"
    using pte_of_set_pte [OF wf p p1] by (simp add: s'_def)
qed

end

section \<open>The loop of \<open>internal_map_to\<close>\<close>

text \<open>The entries that a list of pages and frames stands for, and a table of entries with some
  entries replaced.\<close>

definition new_ptes :: "arch \<Rightarrow> u64 \<Rightarrow> (page \<times> frame) list \<Rightarrow> usize \<rightharpoonup> u64" where
  "new_ptes a flags pairs = map_of (map (\<lambda>(p, f). (slot p, entry_set_entry a f flags)) pairs)"

definition overlay :: "(usize \<rightharpoonup> u64) \<Rightarrow> (page \<Rightarrow> u64) \<Rightarrow> page \<Rightarrow> u64" where
  "overlay m g q = (case m (slot q) of Some e \<Rightarrow> e | None \<Rightarrow> g q)"

lemma new_ptes_simps [simp]:
  "new_ptes a flags [] = Map.empty"
  "new_ptes a flags ((p, f) # pairs) = (new_ptes a flags pairs)(slot p \<mapsto> entry_set_entry a f flags)"
  by (simp_all add: new_ptes_def)

lemma overlay_empty [simp]: "overlay Map.empty g q = g q"
  by (simp add: overlay_def)

lemma new_ptes_None: "slot q \<notin> (slot \<circ> fst) ` set pairs \<Longrightarrow> new_ptes a flags pairs (slot q) = None"
  by (induction pairs) auto

lemma new_ptes_nth:
  "distinct (map (slot \<circ> fst) pairs) \<Longrightarrow> (p, f) \<in> set pairs \<Longrightarrow> new_ptes a flags pairs (slot p) = Some (entry_set_entry a f flags)"
  by (induction pairs) (auto simp: rev_image_eqI)

text \<open>The loop maps the first \<open>n\<close> pairs, all of them if it succeeds; otherwise the next page is in use.\<close>

definition mapped_prefix ::
  "('t, 'c, 'u, 'd) platform \<Rightarrow> ('t, 'u) memory \<Rightarrow> ('t, 'u) memory \<Rightarrow> frame \<Rightarrow> u64 \<Rightarrow> (page \<times> frame) list \<Rightarrow> nat \<Rightarrow> bool" where
  "mapped_prefix P s s' root flags pairs n \<longleftrightarrow>
     (\<forall>q. ordinary_page q \<longrightarrow> ptes P s' root q = overlay (new_ptes (pl_arch P) flags (take n pairs)) (ptes P s root) q) \<and>
     (\<forall>x \<in> set (take n pairs). ptes P s root (fst x) = 0) \<and> distinct (map (slot \<circ> fst) (take n pairs))"

lemma mapped_prefix_Cons:
  assumes step: "\<And>q. ordinary_page q \<Longrightarrow> ptes P s4 root q = (if slot q = slot p then e else ptes P s root q)"
    and p: "ordinary_page p" "ptes P s root p = 0" and e: "e = entry_set_entry (pl_arch P) f flags" "e \<noteq> 0"
    and rest: "mapped_prefix P s4 s' root flags rest n" "\<forall>x \<in> set rest. ordinary_page (fst x)"
  shows "mapped_prefix P s s' root flags ((p, f) # rest) (Suc n)"
proof -
  have d: "slot (fst x) \<noteq> slot p \<and> ptes P s root (fst x) = 0" if "x \<in> set (take n rest)" for x
  proof -
    have "ptes P s4 root (fst x) = 0" "ordinary_page (fst x)"
      using rest that in_set_takeD [OF that] by (auto simp: mapped_prefix_def)
    then show ?thesis using step [of "fst x"] e(2) by (auto split: if_splits)
  qed
  have nd: "slot p \<notin> (slot \<circ> fst) ` set (take n rest)"
  proof
    assume "slot p \<in> (slot \<circ> fst) ` set (take n rest)"
    then obtain x where "x \<in> set (take n rest)" "slot p = slot (fst x)" by force
    then show False using d [of x] by simp
  qed
  have "ptes P s' root q = overlay (new_ptes (pl_arch P) flags (take (Suc n) ((p, f) # rest))) (ptes P s root) q"
    if q: "ordinary_page q" for q
  proof (cases "slot q = slot p")
    case True
    then have "slot q \<notin> (slot \<circ> fst) ` set (take n rest)" using nd by simp
    then show ?thesis using rest(1) q step [OF q] True e(1) new_ptes_None
      by (simp add: mapped_prefix_def overlay_def)
  next
    case False
    then show ?thesis using rest(1) q step [OF q] by (simp add: mapped_prefix_def overlay_def split: option.split)
  qed
  then show ?thesis using rest(1) d p nd by (auto simp: mapped_prefix_def image_iff)
qed

context paging_platform
begin

lemma map_loop_ok:
  assumes "pt_inv P s root H" and fl: "flags_ok X86_64 hf" "flags_ok X86_64 af" "arch_is_valid (pl_bf P) X86_64 af"
    and "\<forall>x \<in> set pairs. ordinary_page (fst x) \<and> snd x \<le> MAX_FRAME"
    and "map_loop P s root hf af pairs = Some (r, s')"
  shows "\<exists>H' n. pt_inv P s' root (H' + H) \<and> pt_extends P root s s' \<and> mapped_prefix P s s' root af pairs n \<and>
    (case r of Inr _ \<Rightarrow> n = length pairs | Inl _ \<Rightarrow> n < length pairs \<and> ptes P s' root (fst (pairs ! n)) \<noteq> 0)"
  using assms(1,5,6)
proof (induction pairs arbitrary: s H)
  case Nil
  then show ?case by (auto simp: mapped_prefix_def intro!: exI [of _ "{#}"])
next
  case (Cons x rest)
  obtain p f where x: "x = (p, f)" by force
  have p: "ordinary_page p" "f \<le> MAX_FRAME" and rest: "\<forall>x \<in> set rest. ordinary_page (fst x) \<and> snd x \<le> MAX_FRAME"
    using Cons.prems(2) x by auto
  from Cons.prems(3) obtain p3 s1 p2 s2 p1 s3 where run: "next_table_create P s root (p4_index p) hf = Some (p3, s1)"
      "next_table_create P s1 p3 (p3_index p) hf = Some (p2, s2)" "next_table_create P s2 p2 (p2_index p) hf = Some (p1, s3)"
    by (auto simp: x bind_eq_Some_conv)
  from create_path_ok [OF Cons.prems(1) p(1) fl(1) run] obtain H3 where
    3: "pt_inv P s3 root (H3 + H)" "pt_extends P root s s3" "p1_table (pl_bf P) (pl_arch P) (mem_tables s3) root p = Some p1"
      "\<forall>q. ordinary_page q \<longrightarrow> ptes P s3 root q = ptes P s root q" by blast
  have pte: "ptes P s3 root p = mem_tables s3 p1 (p1_index p)" using 3(3) by (simp add: pte_of_def)
  let ?e = "entry_set_entry (pl_arch P) f af"
  let ?s4 = "s3\<lparr>mem_tables := set_pte (mem_tables s3) p1 (p1_index p) ?e\<rparr>"
  note set = set_pte_ok [OF 3(1) p(1) 3(3) refl, where e = ?e]
  show ?case
  proof (cases "entry_is_unused (mem_tables s3 p1 (p1_index p))")
    case False
    then have "s' = s3" "\<exists>m. r = Inl m" using Cons.prems(3) run by (auto simp: x)
    then show ?thesis using 3 False pte x
      by (intro exI [of _ H3] exI [of _ 0]) (auto simp: mapped_prefix_def entry_is_unused_def)
  next
    case True
    then have "map_loop P ?s4 root hf af rest = Some (r, s')" using Cons.prems(3) run by (simp add: x)
    from Cons.IH [OF set(1) rest this] obtain H' n where IH: "pt_inv P s' root (H' + (H3 + H))" "pt_extends P root ?s4 s'"
        "mapped_prefix P ?s4 s' root af rest n"
        "case r of Inr _ \<Rightarrow> n = length rest | Inl _ \<Rightarrow> n < length rest \<and> ptes P s' root (fst (rest ! n)) \<noteq> 0" by blast
    have e: "?e \<noteq> 0" unfolding arch using set_entry_nonzero [OF flags.bitflags_axioms frame_fits_bounded] p fl by blast
    have "mapped_prefix P s s' root af (x # rest) (Suc n)"
      unfolding x using set(3) 3(4) pte True rest e
      by (intro mapped_prefix_Cons [OF _ p(1) _ refl _ IH(3)]) (auto simp: entry_is_unused_def p(1))
    moreover have "pt_extends P root s s'" using 3(2) set(2) IH(2) pt_extends_trans by blast
    ultimately show ?thesis using IH(1,4)
      by (intro exI [of _ "H' + H3"] exI [of _ "Suc n"]) (auto simp: ac_simps split: sum.splits)
  qed
qed

end

end
