(* ===== verification/PagingProperties.thy ===== *)
theory PagingProperties
  imports PagingInv
begin

text \<open>
  What the paging code achieves: mapping, unmapping, remapping, the typed views of mapped memory and
  the recursive addresses of page tables.
\<close>

section \<open>Lists of pages\<close>

lemma range_list_nth:
  assumes "r_start r \<le> r_end r"
  shows "length (range_list r) = Suc (unat (r_end r - r_start r))"
    "i < length (range_list r) \<Longrightarrow> range_list r ! i = r_start r + of_nat i"
proof -
  have *: "unat (r_end r - r_start r) = unat (r_end r) - unat (r_start r)" "unat (r_start r) \<le> unat (r_end r)"
    using assms by (simp_all add: unat_sub_if' word_le_nat_alt)
  then show "length (range_list r) = Suc (unat (r_end r - r_start r))" by (simp add: range_list_def)
  show "i < length (range_list r) \<Longrightarrow> range_list r ! i = r_start r + of_nat i"
    by (simp add: range_list_def nth_append del: upt_Suc)
qed

lemma set_range_list: "set (range_list r) = chunks r"
proof -
  have "x \<in> chunks r \<longleftrightarrow> unat x \<in> {unat (r_start r)..<Suc (unat (r_end r))}" for x
    by (auto simp: word_le_nat_alt)
  moreover have "x \<in> of_nat ` {unat (r_start r)..<Suc (unat (r_end r))} \<longleftrightarrow> unat x \<in> {unat (r_start r)..<Suc (unat (r_end r))}" for x :: usize
  proof
    assume "x \<in> of_nat ` {unat (r_start r)..<Suc (unat (r_end r))}"
    then obtain n where n: "x = of_nat n" "unat (r_start r) \<le> n" "n \<le> unat (r_end r)" by auto
    then have "unat x = n" using unsigned_less [of "r_end r", where 'a = nat] by (simp add: unat_of_nat take_bit_nat_eq_self)
    then show "unat x \<in> {unat (r_start r)..<Suc (unat (r_end r))}" using n by simp
  next
    assume "unat x \<in> {unat (r_start r)..<Suc (unat (r_end r))}"
    then show "x \<in> of_nat ` {unat (r_start r)..<Suc (unat (r_end r))}" by (intro rev_image_eqI [of "unat x"]) simp_all
  qed
  ultimately have "chunks r = of_nat ` {unat (r_start r)..<Suc (unat (r_end r))}" by blast
  then show ?thesis by (simp add: range_list_def del: upt_Suc)
qed

lemma size_in_chunks_diff:
  "r_start r \<le> r_end r \<Longrightarrow> r_end r \<noteq> USIZE_MAX \<Longrightarrow> unat (size_in_chunks r) = Suc (unat (r_end r - r_start r))"
  by (simp add: unat_size_in_chunks card_word_Icc unat_sub_if' word_le_nat_alt Suc_diff_le)

lemma zip_range_list:
  assumes "size_in_chunks pages = size_in_chunks frames" "r_end pages \<noteq> USIZE_MAX" "r_end frames \<noteq> USIZE_MAX"
    "r_start pages \<le> r_end pages" "p \<in> chunks pages"
  shows "(p, r_start frames + (p - r_start pages)) \<in> set (zip (range_list pages) (range_list frames))"
    "length (range_list pages) = length (range_list frames)"
    "r_start frames \<le> r_end frames"
proof -
  have "size_in_chunks frames \<noteq> 0"
    using assms(1,2,4) by (metis size_in_chunks_eq_0 atLeastatMost_empty_iff)
  then show f: "r_start frames \<le> r_end frames" using assms(3) size_in_chunks_eq_0 by fastforce
  then show len: "length (range_list pages) = length (range_list frames)"
    using assms by (simp add: range_list_nth(1) flip: size_in_chunks_diff)
  let ?i = "unat (p - r_start pages)"
  have "?i < length (range_list pages)"
    using assms(4,5) by (auto simp: range_list_nth(1) unat_sub_if' word_le_nat_alt)
  then show "(p, r_start frames + (p - r_start pages)) \<in> set (zip (range_list pages) (range_list frames))"
    using range_list_nth(2) [OF assms(4), of ?i] range_list_nth(2) [OF f, of ?i] len
    by (auto simp: in_set_zip intro!: exI [of _ ?i])
qed

section \<open>Mapping\<close>

context paging_platform
begin

lemma pte_translate:
  assumes "ptes P s root p = entry_set_entry X86_64 f fl" "f \<le> MAX_FRAME" "flags_ok X86_64 fl"
    "arch_is_valid (pl_bf P) X86_64 fl"
  shows "translate_page (pl_bf P) X86_64 (mem_tables s) root p = Some (Some f)"
proof -
  note fits = frame_fits_bounded [OF assms(2)]
  have "ptes P s root p \<noteq> 0" using set_entry_nonzero [OF flags.bitflags_axioms fits assms(3,4)] assms(1) by simp
  then obtain p1 where "p1_table (pl_bf P) X86_64 (mem_tables s) root p = Some p1"
    by (auto simp: pte_of_def arch split: option.splits)
  then show ?thesis
    using assms flags.set_entry_parts [OF fits] 
    by (simp add: translate_page_def pte_of_def arch entry_pointed_frame_def flags_ok_def)
qed

lemma actual_flags:
  assumes "flags_ok X86_64 flags"
    and fl_def: "fl = arch_exclusive (pl_bf P) X86_64 (arch_valid (pl_bf P) X86_64 flags True) own"
  shows "flags_ok X86_64 fl" "arch_is_valid (pl_bf P) X86_64 fl" "arch_is_exclusive (pl_bf P) X86_64 fl = own"
proof -
  show "flags_ok X86_64 fl" unfolding fl_def by (intro flags_ok_arch assms(1) flags.bitflags_axioms)
  show "arch_is_valid (pl_bf P) X86_64 fl" "arch_is_exclusive (pl_bf P) X86_64 fl = own"
    by (simp_all add: fl_def flags.arch_is_valid_iff flags.arch_is_exclusive_iff arch_exclusive_def arch_valid_def
        x86_exclusive_def x86_valid_def flags.bf_laws flag_bits)
qed

text \<open>A successful mapping of a non-empty range of pages.\<close>

lemma internal_map_to_ok:
  assumes inv: "pt_inv P s (mapper_p4 m) H" and fl: "flags_ok X86_64 flags"
    and pages: "r_start pages \<le> r_end pages" "r_end pages \<noteq> USIZE_MAX" "\<forall>p \<in> chunks pages. ordinary_page p"
    and frames: "r_end frames \<le> MAX_FRAME"
    and run: "internal_map_to P s m pages own frames flags = Some (Ok (mp, fr), s')"
    and fl_def: "fl = arch_exclusive (pl_bf P) X86_64 (arch_valid (pl_bf P) X86_64 flags True) own"
  shows "mp = \<lparr>mp_page_table_p4 = target_p4 m, mp_pages = pages, mp_flags = fl\<rparr>" "fr = frames"
    "size_in_chunks pages = size_in_chunks frames" "pt_extends P (mapper_p4 m) s s'"
    "\<exists>H'. pt_inv P s' (mapper_p4 m) (H' + H)"
    "mapped_prefix P s s' (mapper_p4 m) fl (zip (range_list pages) (range_list frames)) (length (zip (range_list pages) (range_list frames)))"
proof -
  let ?hf = "arch_adjust_for_higher_level_pte (pl_bf P) X86_64 flags"
  let ?pairs = "zip (range_list pages) (range_list frames)"
  show size: "size_in_chunks pages = size_in_chunks frames"
    using run by (auto simp: internal_map_to_def Let_def bind_eq_Some_conv split: if_splits)
  then obtain u where loop: "map_loop P s (mapper_p4 m) ?hf fl ?pairs = Some (Ok u, s')"
    and r: "mp = \<lparr>mp_page_table_p4 = target_p4 m, mp_pages = pages, mp_flags = fl\<rparr>" "fr = frames"
    using run by (auto simp: internal_map_to_def Let_def bind_eq_Some_conv arch fl_def split: if_splits sum.splits)
  show "mp = \<lparr>mp_page_table_p4 = target_p4 m, mp_pages = pages, mp_flags = fl\<rparr>" "fr = frames" by (fact r)+
  have "fst x \<in> chunks pages" "snd x \<in> chunks frames" if "x \<in> set ?pairs" for x
    using that unfolding set_range_list [symmetric] by (metis prod.collapse set_zip_leftD, metis prod.collapse set_zip_rightD)
  then have "\<forall>x \<in> set ?pairs. ordinary_page (fst x) \<and> snd x \<le> MAX_FRAME"
    using pages(3) frames by (meson atLeastAtMost_iff order_trans)
  from map_loop_ok [OF inv flags_ok_adjust [OF flags.bitflags_axioms assms(2)] _ _ this loop]
    actual_flags [OF assms(2) fl_def]
  show "\<exists>H'. pt_inv P s' (mapper_p4 m) (H' + H)" "pt_extends P (mapper_p4 m) s s'"
    "mapped_prefix P s s' (mapper_p4 m) fl ?pairs (length ?pairs)" by auto
qed

end

lemma mapped_prefix_all:
  assumes "mapped_prefix P s s' root fl (zip (range_list pages) (range_list frames)) (length (zip (range_list pages) (range_list frames)))"
    "size_in_chunks pages = size_in_chunks frames" "r_start pages \<le> r_end pages" "r_end pages \<noteq> USIZE_MAX"
    "r_end frames \<noteq> USIZE_MAX"
  shows "p \<in> chunks pages \<Longrightarrow> ordinary_page p \<Longrightarrow> 
      ptes P s' root p = entry_set_entry (pl_arch P) (r_start frames + (p - r_start pages)) fl \<and> ptes P s root p = 0"
    "ordinary_page q \<Longrightarrow> slot q \<notin> slot ` chunks pages \<Longrightarrow> ptes P s' root q = ptes P s root q"
    "distinct (map slot (range_list pages))"
proof -
  let ?pairs = "zip (range_list pages) (range_list frames)"
  have "r_start pages \<in> chunks pages" using assms(3) by simp
  note z = zip_range_list [OF assms(2,4,5,3)]
  have len: "length (range_list pages) = length (range_list frames)" using z(2) [OF \<open>r_start pages \<in> chunks pages\<close>] .
  show d: "distinct (map slot (range_list pages))"
    using assms(1) len by (simp add: mapped_prefix_def flip: map_map)
  then have dz: "distinct (map (slot \<circ> fst) ?pairs)" using len by (simp flip: map_map)
  show "p \<in> chunks pages \<Longrightarrow> ordinary_page p \<Longrightarrow> 
      ptes P s' root p = entry_set_entry (pl_arch P) (r_start frames + (p - r_start pages)) fl \<and> ptes P s root p = 0"
    using assms(1) z(1) [of p] new_ptes_nth [OF dz, of p] by (auto simp: mapped_prefix_def overlay_def)
  assume q: "ordinary_page q" "slot q \<notin> slot ` chunks pages"
  have "slot q \<notin> (slot \<circ> fst) ` set ?pairs"
    using q(2) by (auto simp flip: set_range_list dest: set_zip_leftD)
  then show "ptes P s' root q = ptes P s root q"
    using assms(1) q(1) new_ptes_None [of q ?pairs] by (simp add: mapped_prefix_def overlay_def)
qed

section \<open>Unmapping\<close>

lemma drop_frames_state:
  "drop_frames P s af = Some s' \<Longrightarrow> mem_tables s' = mem_tables s \<and> mem_pages s' = mem_pages s \<and>
     into_allocated_frames_func s' = into_allocated_frames_func s"
  by (auto simp: drop_frames_def)

lemma drop_frames_opt_state:
  "drop_frames_opt P s r = Some s' \<Longrightarrow> mem_tables s' = mem_tables s \<and> mem_pages s' = mem_pages s \<and>
     into_allocated_frames_func s' = into_allocated_frames_func s"
  by (auto simp: drop_frames_opt_def drop_frames_state split: option.splits)

lemma unmap_loop_Cons:
  assumes "unmap_loop P s root first_range current_range (page # rest) = Some (Ok res, s')"
  shows "\<exists>p1 s1 f c. p1_table (pl_bf P) (pl_arch P) (mem_tables s) root page = Some p1 \<and>
    mem_tables s p1 (p1_index page) \<noteq> 0 \<and> mem_tables s1 = set_pte (mem_tables s) p1 (p1_index page) 0 \<and>
    mem_pages s1 = mem_pages s \<and> unmap_loop P s1 root f c rest = Some (Ok res, s')"
proof -
  let ?bf = "pl_bf P" and ?a = "pl_arch P"
  obtain p1 where p1: "p1_table ?bf ?a (mem_tables s) root page = Some p1" "mem_tables s p1 (p1_index page) \<noteq> 0"
    using assms by (auto simp: Let_def entry_is_unused_def bind_eq_Some_conv split: option.splits if_splits)
  let ?s0 = "s\<lparr>mem_tables := set_pte (mem_tables s) p1 (p1_index page) 0\<rparr>"
  have "\<exists>s1 f c. (s1 = ?s0 \<or> (\<exists>af. drop_frames P ?s0 af = Some s1)) \<and> unmap_loop P s1 root f c rest = Some (Ok res, s')"
  proof (cases "arch_is_exclusive ?bf ?a (entry_flags ?bf ?a (mem_tables s p1 (p1_index page)))")
    case True
    then show ?thesis using assms p1
      by (simp add: Let_def entry_is_unused_def entry_set_unmapped_def entry_zero_def bind_eq_Some_conv
          split: option.splits sum.splits) blast+
  next
    case False
    then show ?thesis using assms p1
      by (simp add: Let_def entry_is_unused_def entry_set_unmapped_def entry_zero_def) blast
  qed
  then obtain s1 f c where s1: "s1 = ?s0 \<or> (\<exists>af. drop_frames P ?s0 af = Some s1)"
    "unmap_loop P s1 root f c rest = Some (Ok res, s')" by blast
  have "mem_tables s1 = mem_tables ?s0 \<and> mem_pages s1 = mem_pages ?s0" using s1(1) drop_frames_state by blast
  then show ?thesis using s1(2) p1 by auto
qed

lemma unmap_loop_tables:
  assumes "tables_wf (pl_bf P) (pl_arch P) (mem_tables s) root" "\<forall>p \<in> set ps. ordinary_page p"
    "unmap_loop P s root f c ps = Some (Ok res, s')"
  shows "(\<forall>q. ordinary_page q \<longrightarrow> ptes P s' root q = (if slot q \<in> slot ` set ps then 0 else ptes P s root q)) \<and>
    (\<forall>p \<in> set ps. ptes P s root p \<noteq> 0) \<and> mem_pages s' = mem_pages s"
  using assms
proof (induction ps arbitrary: s f c)
  case Nil
  then show ?case by (auto simp: bind_eq_Some_conv dest: drop_frames_opt_state split: option.splits)
next
  case (Cons p ps)
  note wf = Cons.prems(1)
  from unmap_loop_Cons [OF Cons.prems(3)] obtain p1 s1 g d where
    1: "p1_table (pl_bf P) (pl_arch P) (mem_tables s) root p = Some p1" "mem_tables s p1 (p1_index p) \<noteq> 0"
      "mem_tables s1 = set_pte (mem_tables s) p1 (p1_index p) 0" "mem_pages s1 = mem_pages s"
    and run: "unmap_loop P s1 root g d ps = Some (Ok res, s')" by blast
  have p: "ordinary_page p" "\<forall>p \<in> set ps. ordinary_page p" using Cons.prems(2) by auto
  have wf1: "tables_wf (pl_bf P) (pl_arch P) (mem_tables s1) root"
    unfolding 1(3) by (rule set_pte_wf(1) [OF wf ordinary_path [OF p(1)] _ 1(1) [unfolded p1_table_path]]) simp
  have s1: "ptes P s1 root q = (if slot q = slot p then 0 else ptes P s root q)" if "ordinary_page q" for q
    using pte_of_set_pte [OF wf p(1) 1(1) that] by (simp add: 1(3))
  from Cons.IH [OF wf1 p(2) run] s1 p 1 show ?case
    by (auto simp: pte_of_def [of _ _ "mem_tables s"] split: if_splits)
qed

lemma distinct_slot: "distinct (map slot (p # ps)) \<Longrightarrow> i < length ps \<Longrightarrow> slot (ps ! i) \<noteq> slot p"
  by (metis distinct.simps(2) image_eqI list.simps(9) nth_mem set_map)

lemma map_sum_Ok: "map_sum f g x = Inr y \<longleftrightarrow> (\<exists>z. x = Inr z \<and> g z = y)"
  by (cases x) auto

text \<open>Pages mapped exclusively to consecutive frames give back one range of frames.\<close>

context paging_platform
begin

lemma unmap_step:
  assumes pte: "ptes P s root p = entry_set_entry X86_64 f fl" and fl: "f \<le> MAX_FRAME" "flags_ok X86_64 fl"
    "arch_is_valid (pl_bf P) X86_64 fl" "arch_is_exclusive (pl_bf P) X86_64 fl"
    and func: "into_allocated_frames_func s = Some into_allocated_frames"
  obtains p1 where "p1_table (pl_bf P) (pl_arch P) (mem_tables s) root p = Some p1"
    "unmap_loop P s root None None (p # ps) =
       unmap_loop P (s\<lparr>mem_tables := set_pte (mem_tables s) p1 (p1_index p) 0\<rparr>) root None (Some (range_new f f)) ps"
    "a \<le> b \<Longrightarrow> b < MAX_FRAME \<Longrightarrow> f = b + 1 \<Longrightarrow> unmap_loop P s root None (Some (range_new a b)) (p # ps) =
       unmap_loop P (s\<lparr>mem_tables := set_pte (mem_tables s) p1 (p1_index p) 0\<rparr>) root None (Some (range_new a f)) ps"
proof -
  note fits = frame_fits_bounded [OF fl(1)]
  note parts = flags.set_entry_parts [OF fits fl(2) [unfolded flags_ok_def]]
  have nz: "entry_set_entry X86_64 f fl \<noteq> 0" using set_entry_nonzero [OF flags.bitflags_axioms fits fl(2,3)] .
  with pte obtain p1 where p1: "p1_table (pl_bf P) X86_64 (mem_tables s) root p = Some p1"
      "mem_tables s p1 (p1_index p) = entry_set_entry X86_64 f fl"
    by (auto simp: pte_of_def arch split: option.splits)
  have "chunk_add f 1 = f + 1" using fl(1) chunk_add_bounded by blast
  then have m: "allocated_frames_merge (range_new a b) (range_new f f) = Ok (range_new a f)"
    if "a \<le> b" "b < MAX_FRAME" "f = b + 1" for a b
    using that chunk_add_bounded [of b]
    by (auto simp: allocated_frames_merge_def word_less_nat_alt word_le_nat_alt unat_word_ariths MAX_FRAME_eq)
  show ?thesis
    by (rule that [of p1], use p1 parts nz fl(4) func m in \<open>simp_all add: arch Let_def entry_is_unused_def
        entry_set_unmapped_def entry_zero_def into_allocated_frames_def\<close>)
qed

lemma unmap_consecutive:
  assumes "tables_wf (pl_bf P) (pl_arch P) (mem_tables s) root"
    and fl: "flags_ok X86_64 fl" "arch_is_valid (pl_bf P) X86_64 fl" "arch_is_exclusive (pl_bf P) X86_64 fl"
    and "into_allocated_frames_func s = Some into_allocated_frames"
    and "\<forall>p \<in> set ps. ordinary_page p" "distinct (map slot ps)"
    and "\<forall>i < length ps. ptes P s root (ps ! i) = entry_set_entry X86_64 (b + 1 + of_nat i) fl"
    and "a \<le> b" "unat b + length ps \<le> unat MAX_FRAME"
  shows "\<exists>s'. unmap_loop P s root None (Some (range_new a b)) ps = Some (Ok (Some (range_new a (b + of_nat (length ps)))), s') \<and>
    mem_frames s' = mem_frames s"
  using assms(1,5-)
proof (induction ps arbitrary: s b)
  case (Cons p ps)
  note wf = Cons.prems(1) and len = Cons.prems(7)
  have b: "b < MAX_FRAME" using len by (simp add: word_less_nat_alt)
  then have b1: "unat (b + 1) = Suc (unat b)" "b + 1 \<le> MAX_FRAME"
    by (auto simp: unat_word_ariths word_less_nat_alt word_le_nat_alt MAX_FRAME_eq)
  have pte: "ptes P s root p = entry_set_entry X86_64 (b + 1) fl" using Cons.prems(5) by fastforce
  have p: "ordinary_page p" "\<forall>p \<in> set ps. ordinary_page p" using Cons.prems(3) by auto
  from unmap_step [OF pte b1(2) fl Cons.prems(2), of ps a b] obtain p1 where
    p1: "p1_table (pl_bf P) (pl_arch P) (mem_tables s) root p = Some p1"
    and run: "unmap_loop P s root None (Some (range_new a b)) (p # ps) =
       unmap_loop P (s\<lparr>mem_tables := set_pte (mem_tables s) p1 (p1_index p) 0\<rparr>) root None (Some (range_new a (b + 1))) ps"
    using Cons.prems(6) b by blast
  let ?s = "s\<lparr>mem_tables := set_pte (mem_tables s) p1 (p1_index p) 0\<rparr>"
  have wf1: "tables_wf (pl_bf P) (pl_arch P) (mem_tables ?s) root"
    using set_pte_wf(1) [OF wf ordinary_path [OF p(1)] _ p1 [unfolded p1_table_path]] by simp
  have "ptes P ?s root (ps ! i) = entry_set_entry X86_64 (b + 1 + 1 + of_nat i) fl" if "i < length ps" for i
  proof -
    have "slot (ps ! i) \<noteq> slot p" "ordinary_page (ps ! i)"
      using distinct_slot [OF Cons.prems(4) that] p(2) nth_mem [OF that] by simp_all
    then show ?thesis
      using pte_of_set_pte [OF wf p(1) p1, of "ps ! i"] Cons.prems(5) that by (auto simp: algebra_simps)
  qed
  moreover have "a \<le> b + 1" using Cons.prems(6) b1 by (simp add: word_le_nat_alt)
  ultimately have "\<exists>s'. unmap_loop P ?s root None (Some (range_new a (b + 1))) ps =
      Some (Ok (Some (range_new a (b + 1 + of_nat (length ps)))), s') \<and> mem_frames s' = mem_frames ?s"
    using Cons.prems(2,4,6) p b1 len wf1 by (intro Cons.IH) auto
  then show ?case unfolding run by (simp add: algebra_simps)
qed simp

lemma unmap_range:
  assumes wf: "tables_wf (pl_bf P) (pl_arch P) (mem_tables s) root"
    and fl: "flags_ok X86_64 fl" "arch_is_valid (pl_bf P) X86_64 fl" "arch_is_exclusive (pl_bf P) X86_64 fl"
    and func: "into_allocated_frames_func s = Some into_allocated_frames"
    and pages: "r_start pages \<le> r_end pages" "\<forall>p \<in> chunks pages. ordinary_page p" "distinct (map slot (range_list pages))"
    and pte: "\<forall>p \<in> chunks pages. ptes P s root p = entry_set_entry X86_64 (r_start frames + (p - r_start pages)) fl"
    and frames: "length (range_list pages) = length (range_list frames)" "r_start frames \<le> r_end frames" "r_end frames \<le> MAX_FRAME"
  shows "\<exists>s'. unmap_loop P s root None None (range_list pages) = Some (Ok (Some frames), s') \<and> mem_frames s' = mem_frames s"
proof -
  note nth = range_list_nth [OF pages(1)] and fnth = range_list_nth [OF frames(2)]
  obtain p ps where ps: "range_list pages = p # ps" using nth(1) by (cases "range_list pages") auto
  have p: "p = r_start pages" using nth(2) [of 0] ps by simp
  have len: "length ps = unat (r_end frames - r_start frames)" using frames(1) fnth(1) ps by simp
  have b: "r_start frames \<le> MAX_FRAME" using frames(2,3) by (rule order_trans)
  have "p \<in> chunks pages" using p pages(1) by simp
  then have "ptes P s root p = entry_set_entry X86_64 (r_start frames) fl" "ordinary_page p" using pte p pages(2) by auto
  from unmap_step [OF this(1) b fl func, of ps] obtain p1 where
    p1: "p1_table (pl_bf P) (pl_arch P) (mem_tables s) root p = Some p1"
    and run: "unmap_loop P s root None None (p # ps) = unmap_loop P (s\<lparr>mem_tables := set_pte (mem_tables s) p1 (p1_index p) 0\<rparr>)
      root None (Some (range_new (r_start frames) (r_start frames))) ps" by blast
  let ?s = "s\<lparr>mem_tables := set_pte (mem_tables s) p1 (p1_index p) 0\<rparr>"
  have wf1: "tables_wf (pl_bf P) (pl_arch P) (mem_tables ?s) root"
    using set_pte_wf(1) [OF wf ordinary_path [OF \<open>ordinary_page p\<close>] _ p1 [unfolded p1_table_path]] by simp
  have ord: "\<forall>q \<in> set ps. ordinary_page q" using pages(2) ps set_range_list [of pages] by auto
  have "ptes P ?s root (ps ! i) = entry_set_entry X86_64 (r_start frames + 1 + of_nat i) fl" if i: "i < length ps" for i
  proof -
    have "slot (ps ! i) \<noteq> slot p" "ordinary_page (ps ! i)" "ps ! i \<in> chunks pages"
      using distinct_slot [OF pages(3) [unfolded ps] i] ord ps nth_mem [OF i] by (auto simp flip: set_range_list)
    moreover have "ps ! i - r_start pages = 1 + of_nat i" using nth(2) [of "Suc i"] ps i by simp
    ultimately show ?thesis
      using pte_of_set_pte [OF wf \<open>ordinary_page p\<close> p1, of "ps ! i"] pte by (simp add: algebra_simps)
  qed
  moreover have "unat (r_start frames) + length ps \<le> unat MAX_FRAME"
    using frames(2,3) by (simp add: len word_le_nat_alt unat_sub_if')
  ultimately have "\<exists>s'. unmap_loop P ?s root None (Some (range_new (r_start frames) (r_start frames))) ps =
      Some (Ok (Some (range_new (r_start frames) (r_start frames + of_nat (length ps)))), s') \<and> mem_frames s' = mem_frames ?s"
    using wf1 fl func ord pages(3) ps by (intro unmap_consecutive) auto
  moreover have "range_new (r_start frames) (r_end frames) = frames" by (cases frames) (simp add: range_new_def)
  ultimately show ?thesis unfolding ps run by (simp add: len)
qed

end

section \<open>An example\<close>

text \<open>Frame 1 holds the top table, frames 2 to 4 the tables below its entry 0; page 6 is mapped to frame
  100. Frames 32 and 33 are allocated and frames 128 to 255 are free.\<close>

definition example_tables :: page_tables where
  "example_tables t i =
     (if t = 1 \<and> i = 0 then 0x2003 else if t = 2 \<and> i = 0 then 0x3003 else if t = 3 \<and> i = 0 then 0x4003
      else if t = 4 \<and> i = 6 then 0x64003 else 0)"

definition example_memory :: "(fchunk list, pchunk list) memory" where
  "example_memory =
     \<lparr>mem_tables = example_tables,
      mem_frames = \<lparr>free_general = Array [Some \<lparr>fc_typ = Free, fc_frames = range_new 128 255\<rparr>, None, None, None],
        free_reserved = Array [None], general_regions = Array [Some \<lparr>fc_typ = Free, fc_frames = range_new 0 255\<rparr>],
        reserved_regions = Array [None]\<rparr>,
      mem_pages = \<lparr>designated_pages_low_end = None, free_page_list = Array []\<rparr>,
      into_allocated_frames_func = Some into_allocated_frames\<rparr>"

definition example_held :: "chunk_range multiset" where
  "example_held = {#range_new 1 4, range_new 32 33, range_new 100 100#}"

lemma example_next:
  "next_table bitwise_flags X86_64 example_tables t i =
     (if t \<in> {1, 2, 3} \<and> i = 0 then Some (t + 1) else if t = 4 \<and> i = 6 then Some 100 else None)"
proof -
  have v: "next_table bitwise_flags X86_64 example_tables 1 0 = Some 2" "next_table bitwise_flags X86_64 example_tables 2 0 = Some 3"
    "next_table bitwise_flags X86_64 example_tables 3 0 = Some 4" "next_table bitwise_flags X86_64 example_tables 4 6 = Some 100"
    by code_simp+
  have "example_tables t i = 0" if "\<not> (t \<in> {1, 2, 3} \<and> i = 0)" "\<not> (t = 4 \<and> i = 6)"
    using that by (auto simp: example_tables_def)
  then show ?thesis using v list_platform.zero_entry_invalid by (auto simp: next_table_def)
qed

lemma example_table_at:
  assumes "tree_path js"
  shows "table_at bitwise_flags X86_64 example_tables 1 js = Some u \<longleftrightarrow>
    (js, u) \<in> {([], 1), ([0], 2), ([0, 0], 3), ([0, 0, 0], 4)}"
proof -
  have "length js \<le> 3" using assms by (simp add: tree_path_def)
  then consider "js = []" | i where "js = [i]" | i j where "js = [i, j]" | i j k where "js = [i, j, k]"
    by (cases js; cases "tl js"; cases "tl (tl js)") auto
  then show ?thesis by cases (auto simp: example_next)
qed

lemma example_memory_inv: "pt_inv list_platform example_memory 1 example_held"
proof -
  have r: "free_ranges (list_rbtree fc_start) (mem_frames example_memory) = {#range_new 128 255#}"
      "region_ranges (list_rbtree fc_start) (mem_frames example_memory) = {#range_new 0 255#}"
    by (simp_all add: free_ranges_def region_ranges_def chunk_ranges_def example_memory_def)
  have "owners x {#range_new 128 255#} + owners x example_held \<le> owners x {#range_new 0 255#}" for x
    by (auto simp: word_le_nat_alt example_held_def)
  moreover have "owners x {#range_new 0 255#} \<le> 1" for x by simp
  ultimately have a: "alloc_inv (list_rbtree fc_start) (mem_frames example_memory) example_held"
    unfolding alloc_inv_def r
    by (auto simp: good_list_def good_chunk_def example_memory_def MAX_FRAME_eq intro: order_trans simp del: owners_simps)
  have T: "mem_tables example_memory = example_tables" by (simp add: example_memory_def)
  have "tables_wf bitwise_flags X86_64 example_tables 1"
    unfolding tables_wf_def by (auto simp: example_table_at)
  moreover have "table_frames bitwise_flags X86_64 example_tables 1 \<subseteq> {1, 2, 3, 4}"
    by (auto simp: table_frames_def example_table_at)
  ultimately show ?thesis using a unfolding pt_inv_def list_platform_simps T
    by (auto simp: example_held_def)
qed

lemma example_run:
  "case map_allocated_pages_to list_platform example_memory (from_current 1) (range_new 7 8) (range_new 32 33) 3 of
     Some (Inr mp, s) \<Rightarrow> mp_pages mp = range_new 7 8 | _ \<Rightarrow> False"
  by code_simp

lemma example_fail:
  "case map_allocated_pages_to list_platform example_memory (from_current 1) (range_new 5 6) (range_new 32 33) 3 of
     Some (Inl e, s) \<Rightarrow> mem_tables s 4 5 = 0x80000000020003 | _ \<Rightarrow> False"
  by code_simp

lemma example_ordinary: "p \<in> chunks (range_new 5 8) \<Longrightarrow> ordinary_page p"
proof -
  assume "p \<in> chunks (range_new 5 8)"
  then have "unat p < 2 ^ 27" by (simp add: word_le_nat_alt)
  then have "drop_bit 27 p = 0" by (simp add: drop_bit_eq_div unat_arith_simps(3) unat_div)
  then show ?thesis by (simp add: ordinary_page_def p4_index_def P4_INDEX_SHIFT_def)
qed

lemma example_pages: "\<forall>p \<in> chunks (range_new 5 6). ordinary_page p" "\<forall>p \<in> chunks (range_new 7 8). ordinary_page p"
proof -
  have "chunks (range_new 5 6) \<subseteq> chunks (range_new 5 8)" "chunks (range_new 7 8) \<subseteq> chunks (range_new 5 8)" by simp_all
  then show "\<forall>p \<in> chunks (range_new 5 6). ordinary_page p" "\<forall>p \<in> chunks (range_new 7 8). ordinary_page p"
    using example_ordinary by blast+
qed

lemma example_flags: "flags_ok X86_64 3"
  unfolding flags_ok_def by code_simp

lemma example_mapper: "mapper_p4 (from_current 1) = 1"
  by (simp add: from_current_def with_p4_frame_def)

lemma example_mapper_inv: "pt_inv list_platform example_memory (mapper_p4 (from_current 1)) example_held"
  unfolding example_mapper by (rule example_memory_inv)

lemma example_ok:
  obtains mp s' where "map_allocated_pages_to list_platform example_memory (from_current 1) (range_new 7 8) (range_new 32 33) 3 = Some (Ok mp, s')"
  using example_run by (auto split: option.splits sum.splits)

section \<open>Properties of mapping\<close>

text \<open>(C2) A mapping does what it says and nothing else. Take page tables that form a tree whose
  tables are frames in use, and map a range of ordinary pages to a range of frames. If the call
  succeeds, then every page of the range was unmapped before and translates to its frame now, each
  other ordinary page has the entry it had, the returned value names the pages and the flags, whose
  exclusive bit is set exactly if the frames were given away, and the page tables are a tree again
  whose new tables are frames that were free.\<close>

theorem map_pages_exact:
  assumes "paging_platform P fpos" "pt_inv P s (mapper_p4 m) H" "flags_ok X86_64 flags"
    "r_start pages \<le> r_end pages" "r_end pages \<noteq> USIZE_MAX" "\<forall>p \<in> chunks pages. ordinary_page p"
    "r_end frames \<le> MAX_FRAME"
    "internal_map_to P s m pages own frames flags = Some (Ok (mp, fr), s')"
  shows "mp_pages mp = pages \<and> mp_page_table_p4 mp = target_p4 m \<and> fr = frames \<and>
    arch_is_exclusive (pl_bf P) X86_64 (mp_flags mp) = own \<and>
    (\<forall>p \<in> chunks pages. ptes P s (mapper_p4 m) p = 0 \<and>
       translate_page (pl_bf P) X86_64 (mem_tables s') (mapper_p4 m) p = Some (Some (r_start frames + (p - r_start pages)))) \<and>
    (\<forall>q. ordinary_page q \<longrightarrow> slot q \<notin> slot ` chunks pages \<longrightarrow> ptes P s' (mapper_p4 m) q = ptes P s (mapper_p4 m) q) \<and>
    (\<exists>H'. pt_inv P s' (mapper_p4 m) (H' + H))"
proof -
  note arch = paging_platform.arch [OF assms(1)]
  define fl where "fl = arch_exclusive (pl_bf P) X86_64 (arch_valid (pl_bf P) X86_64 flags True) own"
  note ok = paging_platform.internal_map_to_ok [OF assms fl_def]
  note fl = paging_platform.actual_flags [OF assms(1,3) fl_def]
  have nf: "r_end frames \<noteq> USIZE_MAX" using assms(7) bounded_not_max by blast
  note all = mapped_prefix_all [OF ok(6,3) assms(4,5) nf]
  have "translate_page (pl_bf P) X86_64 (mem_tables s') (mapper_p4 m) p = Some (Some (r_start frames + (p - r_start pages)))"
    if p: "p \<in> chunks pages" for p
  proof (rule paging_platform.pte_translate [OF assms(1) _ _ fl(1,2)])
    show "ptes P s' (mapper_p4 m) p = entry_set_entry X86_64 (r_start frames + (p - r_start pages)) fl"
      using all(1) [OF p] p assms(6) by (simp add: arch)
    have "r_start frames + (p - r_start pages) \<in> chunks frames"
      using zip_range_list(1) [OF ok(3) assms(5) nf assms(4) p] unfolding set_range_list [symmetric] by (rule set_zip_rightD)
    then show "r_start frames + (p - r_start pages) \<le> MAX_FRAME" using assms(7) by (meson atLeastAtMost_iff order_trans)
  qed
  then show ?thesis using ok(1,2,5) fl(3) all(1,2) assms(6) by auto
qed

theorem map_pages_exact_witness:
  "\<exists>mp fr s'. internal_map_to list_platform example_memory (from_current 1) (range_new 7 8) True (range_new 32 33) 3 = Some (Ok (mp, fr), s') \<and>
     translate_page bitwise_flags X86_64 (mem_tables s') 1 8 = Some (Some 33)"
proof -
  obtain mp s' where "map_allocated_pages_to list_platform example_memory (from_current 1) (range_new 7 8) (range_new 32 33) 3 = Some (Ok mp, s')"
    by (rule example_ok)
  then obtain fr where run: "internal_map_to list_platform example_memory (from_current 1) (range_new 7 8) True (range_new 32 33) 3 = Some (Ok (mp, fr), s')"
    by (auto simp: map_allocated_pages_to_def map_sum_Ok)
  from map_pages_exact [OF list_platform.paging_platform_axioms example_mapper_inv example_flags _ _ example_pages(2) _ run]
  have "translate_page bitwise_flags X86_64 (mem_tables s') 1 8 = Some (Some (32 + (8 - 7)))"
    by (simp add: MAX_FRAME_eq example_mapper)
  then show ?thesis using run by auto
qed

text \<open>(C9) Unmapping undoes mapping. Take page tables as above and map a range of ordinary pages
  exclusively to a range of frames. If the call succeeds, then unmapping the result with the same
  mapper returns normally and hands back exactly the frames that were mapped, every ordinary page
  has the entry it had before the mapping, and the frame allocator is not touched by the unmapping.\<close>

theorem map_unmap_roundtrip:
  assumes "paging_platform P fpos" "pt_inv P s (mapper_p4 m) H" "flags_ok X86_64 flags"
    "r_start pages \<le> r_end pages" "r_end pages \<noteq> USIZE_MAX" "\<forall>p \<in> chunks pages. ordinary_page p"
    "r_end frames \<le> MAX_FRAME" "into_allocated_frames_func s = Some into_allocated_frames"
    "map_allocated_pages_to P s m pages frames flags = Some (Ok mp, s')"
  shows "\<exists>s''. unmap P s' m mp = Some (Ok (Some frames), s'') \<and> mem_frames s'' = mem_frames s' \<and>
    mem_pages s'' = mem_pages s \<and>
    (\<forall>q. ordinary_page q \<longrightarrow> ptes P s'' (mapper_p4 m) q = ptes P s (mapper_p4 m) q)"
proof -
  let ?root = "mapper_p4 m"
  note arch = paging_platform.arch [OF assms(1)]
  define fl where "fl = arch_exclusive (pl_bf P) X86_64 (arch_valid (pl_bf P) X86_64 flags True) True"
  obtain fr where run: "internal_map_to P s m pages True frames flags = Some (Ok (mp, fr), s')"
    using assms(9) by (auto simp: map_allocated_pages_to_def map_sum_Ok)
  note ok = paging_platform.internal_map_to_ok [OF assms(1-7) run fl_def]
  note fl = paging_platform.actual_flags [OF assms(1,3) fl_def]
  have nf: "r_end frames \<noteq> USIZE_MAX" using assms(7) bounded_not_max by blast
  note all = mapped_prefix_all [OF ok(6,3) assms(4,5) nf]
  have start: "r_start pages \<in> chunks pages" using assms(4) by simp
  note z = zip_range_list(2,3) [OF ok(3) assms(5) nf assms(4) start]
  have wf: "tables_wf (pl_bf P) (pl_arch P) (mem_tables s') ?root" using ok(5) by (auto simp: pt_inv_def)
  have func: "into_allocated_frames_func s' = Some into_allocated_frames" using ok(4) assms(8) by (simp add: pt_extends_def)
  have "size_in_chunks pages \<noteq> 0" using assms(4,5) start size_in_chunks_eq_0 by fastforce
  then have unmap: "unmap P s' m mp = unmap_loop P s' ?root None None (range_list pages)"
    by (simp add: unmap_def ok(1))
  have "\<exists>s''. unmap P s' m mp = Some (Ok (Some frames), s'') \<and> mem_frames s'' = mem_frames s'"
    unfolding unmap by (rule paging_platform.unmap_range [OF assms(1) wf fl(1,2) _ func])
      (use fl(3) all assms(4-7) z arch in \<open>auto simp: set_range_list\<close>)
  then obtain s'' where s'': "unmap P s' m mp = Some (Ok (Some frames), s'')" "mem_frames s'' = mem_frames s'" by blast
  from unmap_loop_tables [OF wf _ s''(1) [unfolded unmap]] assms(6) have
    t: "\<forall>q. ordinary_page q \<longrightarrow> ptes P s'' ?root q = (if slot q \<in> slot ` chunks pages then 0 else ptes P s' ?root q)"
      "mem_pages s'' = mem_pages s'" by (simp_all add: set_range_list)
  have "ptes P s'' ?root q = ptes P s ?root q" if q: "ordinary_page q" for q
  proof (cases "slot q \<in> slot ` chunks pages")
    case True
    then obtain p where p: "p \<in> chunks pages" "slot q = slot p" by blast
    then show ?thesis using t(1) q all(1) [OF p(1)] assms(6) slot_eq_pte_of [OF p(2)] True by simp
  next
    case False
    then show ?thesis using t(1) q all(2) by simp
  qed
  then show ?thesis using s'' t(2) ok(4) by (auto simp: pt_extends_def)
qed

theorem map_unmap_roundtrip_witness:
  "\<exists>mp s' s''. map_allocated_pages_to list_platform example_memory (from_current 1) (range_new 7 8) (range_new 32 33) 3 = Some (Ok mp, s') \<and>
     unmap list_platform s' (from_current 1) mp = Some (Ok (Some (range_new 32 33)), s'')"
proof -
  obtain mp s' where run: "map_allocated_pages_to list_platform example_memory (from_current 1) (range_new 7 8) (range_new 32 33) 3 = Some (Ok mp, s')"
    by (rule example_ok)
  from map_unmap_roundtrip [OF list_platform.paging_platform_axioms example_mapper_inv example_flags _ _ example_pages(2) _ _ run]
  show ?thesis using run by (auto simp: MAX_FRAME_eq example_memory_def)
qed

text \<open>(C19) What a failed mapping leaves behind. If mapping a range of ordinary pages exclusively to as many
  frames fails, then some page of the range was in use already, every page before it still translates
  to its frame, and nevertheless all the frames have been given back to the frame allocator and all the
  pages to the page allocator.\<close>

theorem failed_map_dangles:
  assumes "paging_platform P fpos" "pt_inv P s (mapper_p4 m) H" "flags_ok X86_64 flags"
    "r_start pages \<le> r_end pages" "r_end pages \<noteq> USIZE_MAX" "\<forall>p \<in> chunks pages. ordinary_page p"
    "r_end frames \<le> MAX_FRAME" "size_in_chunks pages = size_in_chunks frames"
    "internal_map_to P s m pages True frames flags = Some (Err e, s')"
  shows "\<exists>n st. n < unat (size_in_chunks pages) \<and> ptes P s' (mapper_p4 m) (r_start pages + of_nat n) \<noteq> 0 \<and>
    (\<forall>i < n. translate_page (pl_bf P) X86_64 (mem_tables s') (mapper_p4 m) (r_start pages + of_nat i)
       = Some (Some (r_start frames + of_nat i))) \<and>
    drop_allocated_frames (pl_frame_api P) st frames = Some (mem_frames s') \<and>
    mem_pages s' = drop_allocated_pages (pl_page_api P) (mem_pages s) pages"
proof -
  let ?root = "mapper_p4 m" and ?pairs = "zip (range_list pages) (range_list frames)"
  note arch = paging_platform.arch [OF assms(1)]
  have nf: "r_end frames \<noteq> USIZE_MAX" using assms(7) bounded_not_max by blast
  have start: "r_start pages \<in> chunks pages" using assms(4) by simp
  note z = zip_range_list [OF assms(8,5) nf assms(4)]
  have len: "length (range_list pages) = length (range_list frames)" "r_start frames \<le> r_end frames" using z(2,3) [OF start] .
  define hf where "hf = arch_adjust_for_higher_level_pte (pl_bf P) X86_64 flags"
  define fl where "fl = arch_exclusive (pl_bf P) X86_64 (arch_valid (pl_bf P) X86_64 flags True) True"
  note fl = paging_platform.actual_flags [OF assms(1,3) fl_def]
  obtain r s1 where r: "map_loop P s ?root hf fl ?pairs = Some (r, s1)"
    using assms(8,9) by (auto simp: internal_map_to_def Let_def bind_eq_Some_conv arch hf_def fl_def)
  then obtain s2 where run: "map_loop P s ?root hf fl ?pairs = Some (Err e, s1)" "drop_frames P s1 frames = Some s2" "s' = drop_pages P s2 pages"
    using assms(8,9) by (cases r) (auto simp: internal_map_to_def Let_def bind_eq_Some_conv arch simp flip: hf_def fl_def)
  have pairs: "fst x \<in> chunks pages" "snd x \<in> chunks frames" if "x \<in> set ?pairs" for x
    using that unfolding set_range_list [symmetric] by (metis prod.collapse set_zip_leftD, metis prod.collapse set_zip_rightD)
  then have "\<forall>x \<in> set ?pairs. ordinary_page (fst x) \<and> snd x \<le> MAX_FRAME"
    using assms(6,7) by (meson atLeastAtMost_iff order_trans)
  from paging_platform.map_loop_ok [OF assms(1,2) _ fl(1,2) this run(1)] obtain n where
    ext: "pt_extends P ?root s s1" and n: "mapped_prefix P s s1 ?root fl ?pairs n" "n < length ?pairs" "ptes P s1 ?root (fst (?pairs ! n)) \<noteq> 0"
    using flags_ok_adjust [of "pl_bf P", OF _ assms(3)] paging_platform.axioms(1) [OF assms(1)] by (auto simp: hf_def)
  have nth: "?pairs ! i = (r_start pages + of_nat i, r_start frames + of_nat i)" if "i < length ?pairs" for i
    using that range_list_nth(2) [OF assms(4)] range_list_nth(2) [OF len(2)] by simp
  have tables: "mem_tables s' = mem_tables s1" using run(2,3) drop_frames_state by (auto simp: drop_pages_def)
  have "translate_page (pl_bf P) X86_64 (mem_tables s1) ?root (r_start pages + of_nat i) = Some (Some (r_start frames + of_nat i))"
    if i: "i < n" for i
  proof -
    have il: "i < length ?pairs" using i n(2) by simp
    then have "?pairs ! i \<in> set (take n ?pairs)" using i by (metis in_set_conv_nth length_take min_less_iff_conj nth_take)
    then have "ptes P s1 ?root (r_start pages + of_nat i) = entry_set_entry X86_64 (r_start frames + of_nat i) fl"
      using n(1) new_ptes_nth [of "take n ?pairs"] nth [OF il] pairs [OF nth_mem [OF il]] assms(6)
      by (auto simp: mapped_prefix_def overlay_def arch)
    moreover have "r_start frames + of_nat i \<le> MAX_FRAME"
      using pairs(2) [OF nth_mem [OF il]] nth [OF il] assms(7) by (auto intro: order_trans)
    ultimately show ?thesis by (rule paging_platform.pte_translate [OF assms(1) _ _ fl(1,2)])
  qed
  moreover have "n < unat (size_in_chunks pages)"
    using n(2) len(1) range_list_nth(1) [OF assms(4)] size_in_chunks_diff [OF assms(4,5)] by simp
  moreover have "\<exists>st. drop_allocated_frames (pl_frame_api P) st frames = Some (mem_frames s')"
    using run(2,3) by (auto simp: drop_frames_def drop_pages_def)
  moreover have "mem_pages s' = drop_allocated_pages (pl_page_api P) (mem_pages s) pages"
    using run ext drop_frames_state [OF run(2)] by (simp add: drop_pages_def pt_extends_def)
  ultimately show ?thesis using n(3) nth [OF n(2)] tables by auto
qed

theorem failed_map_dangles_witness:
  "\<exists>e s' n st. internal_map_to list_platform example_memory (from_current 1) (range_new 5 6) True (range_new 32 33) 3 = Some (Err e, s') \<and>
     n < unat (size_in_chunks (range_new 5 6)) \<and> drop_allocated_frames (list_rbtree fc_start) st (range_new 32 33) = Some (mem_frames s') \<and>
     entry_pointed_frame bitwise_flags X86_64 (mem_tables s' 4 5) = Some 32"
proof -
  from example_fail obtain e s' where run: "internal_map_to list_platform example_memory (from_current 1) (range_new 5 6) True (range_new 32 33) 3 = Some (Err e, s')"
    and t: "mem_tables s' 4 5 = 0x80000000020003"
    by (auto simp: map_allocated_pages_to_def split: option.splits sum.splits prod.splits) (metis map_sum.simps sumE)+
  have "entry_pointed_frame bitwise_flags X86_64 0x80000000020003 = Some 32" by code_simp
  moreover from failed_map_dangles [OF list_platform.paging_platform_axioms example_mapper_inv example_flags _ _ example_pages(1) _ _ run]
  obtain n st where "n < unat (size_in_chunks (range_new 5 6))" "drop_allocated_frames (list_rbtree fc_start) st (range_new 32 33) = Some (mem_frames s')"
    by (auto simp: MAX_FRAME_eq size_in_chunks_def saturating_sub_def)
  ultimately show ?thesis using run t by (metis)
qed

end
