(* ===== verification/MappedPagesProperties.thy ===== *)
theory MappedPagesProperties
  imports PagingProperties
begin

text \<open>
  Mapped memory in use: changing the flags of mapped pages, the bounds of the typed views, and the
  recursive addresses at which the code finds the page tables themselves.
\<close>

section \<open>Addresses and pages\<close>

lemma bit_canonical_low:
  assumes "k < 48"
  shows "bit (canonicalize_virtual_address x) k = bit x k" "bit (canonicalize_virtual_address_aarch64 x) k = bit x k"
proof -
  show "bit (canonicalize_virtual_address x) k = bit x k" using assms by (simp add: bit_canonicalize_virtual_address)
  have "canonicalize_virtual_address_aarch64 x = x AND mask 48"
    by (simp add: canonicalize_virtual_address_aarch64_def mask_eq_exp_minus_1)
  then show "bit (canonicalize_virtual_address_aarch64 x) k = bit x k"
    using assms by (auto simp: bit_and_iff bit_mask_iff)
qed

lemma take_bit_canonical:
  "take_bit 48 (canonicalize_virtual_address x) = take_bit 48 x"
  "take_bit 48 (canonicalize_virtual_address_aarch64 x) = take_bit 48 x"
  by (rule bit_word_eqI; auto simp: bit_take_bit_iff bit_canonical_low)+

lemma slot_containing_address: "slot (containing_address w) = drop_bit 12 (take_bit 48 w)"
  by (rule bit_word_eqI)
    (auto simp: containing_address_def PAGE_SIZE_eq bit_take_bit_iff bit_drop_bit_eq simp flip: drop_bit_eq_div [of 12, simplified])

lemma page_start_address_low: "take_bit 48 (page_start_address a n) = take_bit 48 (n * PAGE_SIZE)"
  by (cases a) (simp_all add: page_start_address_def take_bit_canonical)

lemma take_bit_48_add: "take_bit 48 (take_bit 48 a + take_bit 48 b) = take_bit 48 (a + b :: usize)"
proof -
  have "x mod 2 ^ 64 mod 2 ^ 48 = x mod 2 ^ 48" for x :: nat by (rule mod_mod_cancel) (simp add: le_imp_power_dvd)
  then show ?thesis
    by (simp add: word_unat_eq_iff unsigned_take_bit_eq unat_word_ariths take_bit_eq_mod mod_simps)
qed

text \<open>Every byte of a range of pages is in one of them.\<close>

lemma byte_in_pages:
  assumes "r_start r \<le> r_end r" "r_end r \<le> MAX_PAGE_NUMBER" "unat j < unat (size_in_bytes r)"
  shows "slot (containing_address (page_start_address a (r_start r) + j)) \<in> slot ` chunks r"
proof -
  have e: "unat (r_end r) < 2 ^ 52" "r_end r \<noteq> USIZE_MAX"
    using assms(2) by (auto simp: MAX_PAGE_NUMBER_eq word_le_nat_alt unsigned_minus_1_eq_mask mask_eq_exp_minus_1)
  have n: "unat (r_start r) \<le> unat (r_end r)" using assms(1) by (simp add: word_le_nat_alt)
  have sz: "unat (size_in_chunks r) = Suc (unat (r_end r)) - unat (r_start r)"
    using e(2) by (simp add: unat_size_in_chunks card_word_Icc)
  have "unat (size_in_bytes r) \<le> unat (size_in_chunks r) * 4096"
    by (simp add: size_in_bytes_def PAGE_SIZE_eq unat_word_ariths)
  with assms(3) sz have j: "unat j < (Suc (unat (r_end r)) - unat (r_start r)) * 4096" by linarith
  then have sum: "unat (r_start r) * 4096 + unat j < Suc (unat (r_end r)) * 4096"
    using n by (simp add: diff_mult_distrib)
  then have lt: "unat (r_start r) * 4096 + unat j < 2 ^ 64" using e(1) by simp
  let ?w = "r_start r * PAGE_SIZE + j"
  have w: "unat ?w = unat (r_start r) * 4096 + unat j"
    using lt by (simp add: PAGE_SIZE_eq unat_word_ariths)
  have "take_bit 48 (page_start_address a (r_start r) + j) = take_bit 48 (take_bit 48 (r_start r * PAGE_SIZE) + take_bit 48 j)"
    by (simp only: take_bit_48_add flip: page_start_address_low [of a])
  also have "\<dots> = take_bit 48 ?w" by (simp only: take_bit_48_add)
  finally have "slot (containing_address (page_start_address a (r_start r) + j)) = slot (containing_address ?w)"
    by (simp add: slot_containing_address)
  moreover have "containing_address ?w \<in> chunks r"
  proof -
    have "unat (containing_address ?w) = (unat (r_start r) * 4096 + unat j) div 4096"
      by (simp add: containing_address_def PAGE_SIZE_eq unat_div w [unfolded PAGE_SIZE_eq])
    then show ?thesis using sum by (simp add: word_le_nat_alt)
  qed
  ultimately show ?thesis by blast
qed

section \<open>Typed views\<close>

lemma checked_mul_iff: "checked_mul a b = (if unat a * unat b < 2 ^ 64 then Some (a * b) else None)"
proof -
  have "uint a * uint b = int (unat a * unat b)" by simp
  moreover have "int (unat a * unat b) < 2 ^ 64 \<longleftrightarrow> unat a * unat b < 2 ^ 64" by (metis of_nat_less_iff of_nat_numeral of_nat_power)
  ultimately show ?thesis by (simp add: checked_mul_def)
qed

lemma checked_mul_Some: "checked_mul a b = Some c \<Longrightarrow> unat c = unat a * unat b"
  by (auto simp: checked_mul_iff unat_word_ariths split: if_splits)

lemma checked_add_Some: "checked_add a b = Some c \<Longrightarrow> c = a + b \<and> unat c = unat a + unat b"
  using checked_add_Some_iff [of a b c] by (simp add: checked_add_def split: if_splits)

lemma as_slice_Ok:
  assumes "as_slice a mp size_T align_T byte_offset len = Ok v"
  shows "v = page_start_address a (r_start (mp_pages mp)) + byte_offset"
    "unat byte_offset + unat len * unat size_T \<le> unat (size_in_bytes (mp_pages mp))"
  using assms by (auto simp: as_slice_def not_less word_le_nat_alt dest!: checked_mul_Some checked_add_Some
      split: option.splits if_splits)

lemma as_type_Ok:
  assumes "as_type a mp size_T align_T byte_offset = Ok v"
  shows "v = page_start_address a (r_start (mp_pages mp)) + byte_offset"
    "unat byte_offset + unat size_T \<le> unat (size_in_bytes (mp_pages mp))"
  using assms by (auto simp: as_type_def not_less word_le_nat_alt dest!: checked_add_Some
      split: option.splits if_splits)

text \<open>(C21) Typed views stay inside the mapping. If one of the four functions that view mapped pages
  as a value or a slice succeeds, then every byte of the view is in a page of the mapping; the mutable
  views are the immutable ones and are given only for writable pages; and a slice of one element is the
  view as a value, for every type whose size is at most \<open>isize::MAX\<close>.\<close>

theorem views_in_bounds:
  assumes "r_start (mp_pages mp) \<le> r_end (mp_pages mp)" "r_end (mp_pages mp) \<le> MAX_PAGE_NUMBER"
  shows "(as_slice a mp size_T align_T off len = Ok v \<longrightarrow>
      (\<forall>k < unat len * unat size_T. slot (containing_address (v + of_nat k)) \<in> slot ` chunks (mp_pages mp))) \<and>
    (as_type a mp size_T align_T off = Ok v \<longrightarrow>
      (\<forall>k < unat size_T. slot (containing_address (v + of_nat k)) \<in> slot ` chunks (mp_pages mp))) \<and>
    (as_slice_mut bf a mp size_T align_T off len = Ok v \<longleftrightarrow>
      arch_is_writable bf a (mp_flags mp) \<and> as_slice a mp size_T align_T off len = Ok v) \<and>
    (as_type_mut bf a mp size_T align_T off = Ok v \<longleftrightarrow>
      arch_is_writable bf a (mp_flags mp) \<and> as_type a mp size_T align_T off = Ok v) \<and>
    (size_T \<le> ISIZE_MAX \<longrightarrow> (as_type a mp size_T align_T off = Ok v \<longleftrightarrow> as_slice a mp size_T align_T off 1 = Ok v))"
proof -
  have in_view: "slot (containing_address (page_start_address a (r_start (mp_pages mp)) + off + of_nat k)) \<in> slot ` chunks (mp_pages mp)"
    if k: "k < n" "unat off + n \<le> unat (size_in_bytes (mp_pages mp))" for k n
  proof -
    have "unat off + k < 2 ^ 64" using k unsigned_less [of "size_in_bytes (mp_pages mp)", where 'a = nat] by simp
    then have "unat (off + of_nat k) = unat off + k" by (simp add: unat_word_ariths unat_of_nat take_bit_nat_eq_self)
    then have "unat (off + of_nat k) < unat (size_in_bytes (mp_pages mp))" using k by simp
    from byte_in_pages [OF assms this, of a] show ?thesis by (simp add: add.assoc)
  qed
  have "checked_mul 1 size_T = Some size_T"
    using unsigned_less [of size_T, where 'a = nat] by (simp add: checked_mul_iff)
  then have "size_T \<le> ISIZE_MAX \<longrightarrow> (as_type a mp size_T align_T off = Ok v \<longleftrightarrow> as_slice a mp size_T align_T off 1 = Ok v)"
    by (auto simp: as_type_def as_slice_def not_less split: option.splits)
  moreover have "as_slice_mut bf a mp size_T align_T off len = Ok v \<longleftrightarrow>
      arch_is_writable bf a (mp_flags mp) \<and> as_slice a mp size_T align_T off len = Ok v"
    by (auto simp: as_slice_def as_slice_mut_def split: option.splits)
  moreover have "as_type_mut bf a mp size_T align_T off = Ok v \<longleftrightarrow>
      arch_is_writable bf a (mp_flags mp) \<and> as_type a mp size_T align_T off = Ok v"
    by (auto simp: as_type_def as_type_mut_def split: option.splits)
  moreover have "\<forall>k < unat len * unat size_T. slot (containing_address (v + of_nat k)) \<in> slot ` chunks (mp_pages mp)"
    if "as_slice a mp size_T align_T off len = Ok v"
    using in_view [OF _ as_slice_Ok(2) [OF that]] as_slice_Ok(1) [OF that] by simp
  moreover have "\<forall>k < unat size_T. slot (containing_address (v + of_nat k)) \<in> slot ` chunks (mp_pages mp)"
    if "as_type a mp size_T align_T off = Ok v"
    using in_view [OF _ as_type_Ok(2) [OF that]] as_type_Ok(1) [OF that] by simp
  ultimately show ?thesis by blast
qed

theorem views_in_bounds_witness:
  "\<exists>v. as_slice X86_64 \<lparr>mp_page_table_p4 = 1, mp_pages = range_new 7 8, mp_flags = 3\<rparr> 4 4 4096 1024 = Ok v \<and>
     slot (containing_address (v + of_nat 4095)) \<in> slot ` chunks (range_new 7 8)"
proof -
  let ?mp = "\<lparr>mp_page_table_p4 = 1, mp_pages = range_new 7 8, mp_flags = 3\<rparr>"
  have run: "as_slice X86_64 ?mp 4 4 4096 1024 = Ok 0x8000" by code_simp
  have "r_start (mp_pages ?mp) \<le> r_end (mp_pages ?mp)" "r_end (mp_pages ?mp) \<le> MAX_PAGE_NUMBER"
    by (simp_all add: MAX_PAGE_NUMBER_eq)
  from views_in_bounds [OF this, of X86_64 4 4 4096 1024 "0x8000" bitwise_flags] run
  have "\<forall>k < 4096. slot (containing_address (0x8000 + of_nat k)) \<in> slot ` chunks (range_new 7 8)" by simp
  then have "slot (containing_address (0x8000 + of_nat 4095)) \<in> slot ` chunks (range_new 7 8)"
    by (rule allE [of _ 4095]) simp
  with run show ?thesis by blast
qed

section \<open>Remapping\<close>

lemma set_flags_idem: "entry_set_flags a (entry_set_flags a e f) f = entry_set_flags a e f"
  by (rule bit_word_eqI) (auto simp: entry_set_flags_def bit_or_iff bit_and_iff bit_not_iff)

lemma set_flags_parts:
  assumes "bitflags bf" "flags_ok a f"
  shows "entry_flags bf a (entry_set_flags a e f) = f" "entry_frame_value a (entry_set_flags a e f) = entry_frame_value a e"
proof -
  have f: "bit f k \<Longrightarrow> bit (arch_all a) k" for k using assms(2) by (simp add: flags_ok_bit)
  show "entry_flags bf a (entry_set_flags a e f) = f"
    using f bit_all_not_frame
    by (intro bit_word_eqI) (auto simp: bitflags.bit_entry_flags [OF assms(1)] entry_set_flags_def bit_or_iff bit_and_iff bit_not_iff)
  show "entry_frame_value a (entry_set_flags a e f) = entry_frame_value a e"
    by (rule bit_word_eqI)
      (auto simp: entry_frame_value_bit entry_set_flags_def bit_or_iff bit_and_iff bit_not_iff bit_frame_mask)
qed

lemma remap_loop_tables:
  assumes "tables_wf bf a T root" "\<forall>p \<in> set ps. ordinary_page p" "remap_loop bf a T root fl ps = (Ok u, T')" "ordinary_page q"
  shows "pte_of bf a T' root q =
    (if slot q \<in> slot ` set ps then entry_set_flags a (pte_of bf a T root q) fl else pte_of bf a T root q)"
  using assms(1-3)
proof (induction ps arbitrary: T)
  case (Cons p ps)
  have p: "ordinary_page p" using Cons.prems(2) by simp
  from Cons.prems(3) obtain p1 where p1: "p1_table bf a T root p = Some p1"
    and run: "remap_loop bf a (set_pte T p1 (p1_index p) (entry_set_flags a (T p1 (p1_index p)) fl)) root fl ps = (Ok u, T')"
    by (auto split: option.splits)
  have e: "T p1 (p1_index p) = pte_of bf a T root p" using p1 by (simp add: pte_of_def)
  have wf: "tables_wf bf a (set_pte T p1 (p1_index p) (entry_set_flags a (T p1 (p1_index p)) fl)) root"
    using set_pte_wf(1) [OF Cons.prems(1) ordinary_path [OF p] _ p1 [unfolded p1_table_path]] by simp
  show ?case
    using Cons.IH [OF wf _ run] Cons.prems(2) pte_of_set_pte [OF Cons.prems(1) p p1 assms(4)] slot_eq_pte_of [of q p]
    by (auto simp: e set_flags_idem)
qed simp

text \<open>(C22) Remapping changes the flags and nothing else. Take page tables that form a tree and a
  non-empty range of mapped ordinary pages whose entries carry the flags that the mapping records. If
  \<open>remap\<close> succeeds, then each page keeps its frame, its entry carries the flags that the mapping
  records now, these are the requested flags made valid with the exclusive bit as it was before, and
  every other ordinary page has the entry it had.\<close>

theorem remap_exact:
  assumes "bitflags bf" "tables_wf bf a T (mapper_p4 m)" "flags_ok a flags"
    "r_start (mp_pages mp) \<le> r_end (mp_pages mp)" "r_end (mp_pages mp) \<noteq> USIZE_MAX" "\<forall>p \<in> chunks (mp_pages mp). ordinary_page p"
    "\<forall>p \<in> chunks (mp_pages mp). entry_flags bf a (pte_of bf a T (mapper_p4 m) p) = mp_flags mp"
    "remap bf a T m mp flags = (Ok (), mp', T')"
  shows "mp' = mp\<lparr>mp_flags := arch_valid bf a (arch_exclusive bf a flags (arch_is_exclusive bf a (mp_flags mp))) True\<rparr> \<and>
    arch_is_exclusive bf a (mp_flags mp') = arch_is_exclusive bf a (mp_flags mp) \<and>
    (\<forall>p \<in> chunks (mp_pages mp). entry_flags bf a (pte_of bf a T' (mapper_p4 m) p) = mp_flags mp' \<and>
       entry_frame_value a (pte_of bf a T' (mapper_p4 m) p) = entry_frame_value a (pte_of bf a T (mapper_p4 m) p)) \<and>
    (\<forall>q. ordinary_page q \<longrightarrow> slot q \<notin> slot ` chunks (mp_pages mp) \<longrightarrow>
       pte_of bf a T' (mapper_p4 m) q = pte_of bf a T (mapper_p4 m) q)"
proof -
  define nf where "nf = arch_valid bf a (arch_exclusive bf a flags (arch_is_exclusive bf a (mp_flags mp))) True"
  have nf: "flags_ok a nf" unfolding nf_def by (intro flags_ok_arch assms)
  have ex: "arch_is_exclusive bf a nf = arch_is_exclusive bf a (mp_flags mp)"
    by (cases a) (simp_all add: nf_def bitflags.arch_is_exclusive_iff [OF assms(1)] arch_valid_def arch_exclusive_def x86_valid_def
        x86_exclusive_def a64_valid_def a64_exclusive_def bitflags.bf_laws [OF assms(1)] flag_bits)
  have "size_in_chunks (mp_pages mp) \<noteq> 0" using assms(4,5) size_in_chunks_eq_0 by fastforce
  then have "remap bf a T m mp flags =
      (if nf = mp_flags mp then (Ok (), mp, T)
       else case remap_loop bf a T (mapper_p4 m) nf (range_list (mp_pages mp)) of
         (Inl e, T') \<Rightarrow> (Err e, mp, T') | (Inr _, T') \<Rightarrow> (Ok (), mp\<lparr>mp_flags := nf\<rparr>, T'))"
    unfolding remap_def Let_def nf_def [symmetric] by simp
  then consider (same) "nf = mp_flags mp" "mp' = mp" "T' = T" |
    (loop) "remap_loop bf a T (mapper_p4 m) nf (range_list (mp_pages mp)) = (Ok (), T')" "mp' = mp\<lparr>mp_flags := nf\<rparr>"
    using assms(8) by (auto split: if_splits sum.splits prod.splits)
  then show ?thesis
  proof cases
    case same
    then show ?thesis unfolding nf_def [symmetric] using assms(7) by simp
  next
    case loop
    note t = remap_loop_tables [OF assms(2) _ loop(1), unfolded set_range_list, OF assms(6)]
    then show ?thesis unfolding nf_def [symmetric] using loop(2) ex assms(6) set_flags_parts [OF assms(1) nf] by simp
  qed
qed

theorem remap_exact_witness:
  "\<exists>mp' T'. remap bitwise_flags X86_64 example_tables (from_current 1)
       \<lparr>mp_page_table_p4 = 1, mp_pages = range_new 6 6, mp_flags = 3\<rparr> 1 = (Ok (), mp', T') \<and>
     mp_flags mp' = 1 \<and> entry_frame_value X86_64 (pte_of bitwise_flags X86_64 T' 1 6) = 100"
proof -
  let ?mp = "\<lparr>mp_page_table_p4 = 1, mp_pages = range_new 6 6, mp_flags = 3\<rparr>"
  have "case remap bitwise_flags X86_64 example_tables (from_current 1) ?mp 1 of (Inr _, _, _) \<Rightarrow> True | _ \<Rightarrow> False"
    by code_simp
  then obtain mp' T' where run: "remap bitwise_flags X86_64 example_tables (from_current 1) ?mp 1 = (Ok (), mp', T')"
    by (auto split: prod.splits sum.splits)
  have wf: "tables_wf bitwise_flags X86_64 example_tables (mapper_p4 (from_current 1))"
    using example_mapper_inv by (simp add: pt_inv_def example_memory_def)
  have fl: "flags_ok X86_64 1" unfolding flags_ok_def by code_simp
  have nf: "arch_valid bitwise_flags X86_64 (arch_exclusive bitwise_flags X86_64 1 (arch_is_exclusive bitwise_flags X86_64 3)) True = 1"
    by code_simp
  have pte: "pte_of bitwise_flags X86_64 example_tables 1 6 = 0x64003" "entry_flags bitwise_flags X86_64 0x64003 = 3"
      "entry_frame_value X86_64 0x64003 = 100"
    by code_simp+
  have "\<forall>p \<in> chunks (mp_pages ?mp). ordinary_page p" using example_pages(1) by simp
  from remap_exact [OF bitwise.bitflags_axioms wf fl _ _ this _ run]
  show ?thesis using run pte nf by (simp add: example_mapper)
qed

section \<open>The addresses of page tables\<close>

text \<open>The address at which the code finds the table at the end of a path: it starts at the constant
  \<open>P4\<close> and takes \<open>next_table_address\<close> for each step.\<close>

fun path_address :: "bitflags_api \<Rightarrow> page_tables \<Rightarrow> frame \<Rightarrow> usize \<Rightarrow> usize list \<Rightarrow> usize option" where
  "path_address bf T t addr [] = Some addr"
| "path_address bf T t addr (i # js) =
     Option.bind (next_table_address bf X86_64 (T t) addr i)
       (\<lambda>addr'. Option.bind (next_table bf X86_64 T t i) (\<lambda>t'. path_address bf T t' addr' js))"

lemma bit_bound: "unat (w :: usize) < 2 ^ n \<Longrightarrow> bit w k \<Longrightarrow> k < n"
proof (rule ccontr)
  assume lt: "unat w < 2 ^ n" and b: "bit w k" and "\<not> k < n"
  then have le: "(2 :: nat) ^ n \<le> 2 ^ k" by (simp add: power_increasing)
  have "bit (unat w) k" using b by (simp add: bit_unsigned_iff)
  then have "odd (unat w div 2 ^ k)" by (simp add: bit_iff_odd)
  then have "2 ^ k \<le> unat w" by (metis div_less even_zero not_le)
  with le lt show False by linarith
qed

lemma bit_page: "bit (containing_address addr) k \<longleftrightarrow> bit addr (k + 12)"
proof -
  have "containing_address addr = drop_bit 12 addr" by (simp add: containing_address_def PAGE_SIZE_eq drop_bit_eq_div)
  then show ?thesis by (simp add: bit_drop_bit_eq add.commute)
qed

lemma bit_index:
  "bit (p1_index (containing_address x)) k \<longleftrightarrow> k < 9 \<and> bit x (k + 12)"
  "bit (p2_index (containing_address x)) k \<longleftrightarrow> k < 9 \<and> bit x (k + 21)"
  "bit (p3_index (containing_address x)) k \<longleftrightarrow> k < 9 \<and> bit x (k + 30)"
  "bit (p4_index (containing_address x)) k \<longleftrightarrow> k < 9 \<and> bit x (k + 39)"
proof -
  have m: "(0x1FF :: usize) = mask 9" by (simp add: mask_eq_exp_minus_1)
  show "bit (p1_index (containing_address x)) k \<longleftrightarrow> k < 9 \<and> bit x (k + 12)"
    "bit (p2_index (containing_address x)) k \<longleftrightarrow> k < 9 \<and> bit x (k + 21)"
    "bit (p3_index (containing_address x)) k \<longleftrightarrow> k < 9 \<and> bit x (k + 30)"
    "bit (p4_index (containing_address x)) k \<longleftrightarrow> k < 9 \<and> bit x (k + 39)"
    unfolding p1_index_def p2_index_def p3_index_def p4_index_def m
    by (simp_all only: bit_and_iff bit_drop_bit_eq bit_mask_iff possible_bit_word o_def bit_page, auto simp: ac_simps)
qed

lemma next_address_indices:
  assumes "next_table_address bf X86_64 tbl addr i = Some addr'" "i < 512" "take_bit 12 addr = 0"
  shows "take_bit 12 addr' = 0"
    "p1_index (containing_address addr') = i" "p2_index (containing_address addr') = p1_index (containing_address addr)"
    "p3_index (containing_address addr') = p2_index (containing_address addr)"
    "p4_index (containing_address addr') = p3_index (containing_address addr)"
proof -
  have a: "addr' = canonicalize_virtual_address (push_bit 9 addr OR push_bit 12 i)"
    using assms(1) by (auto simp: next_table_address_def Let_def PAGE_SHIFT_def split: if_splits)
  have i: "k < 9" if "bit i k" for k using bit_bound [of i 9] assms(2) that by (simp add: word_less_nat_alt)
  have z: "12 \<le> k" if "bit addr k" for k
    using arg_cong [OF assms(3), of "\<lambda>x. bit x k"] that by (simp add: bit_take_bit_iff)
  have low: "bit addr' k \<longleftrightarrow> 9 \<le> k \<and> bit addr (k - 9) \<or> 12 \<le> k \<and> bit i (k - 12)" if "k < 48" for k
    unfolding a using that by (simp add: bit_canonical_low bit_or_iff bit_push_bit_iff)
  show "take_bit 12 addr' = 0"
  proof (rule bit_word_eqI)
    fix k show "bit (take_bit 12 addr') k = bit 0 k" using z [of "k - 9"] low [of k] by (auto simp: bit_take_bit_iff)
  qed
  show "p1_index (containing_address addr') = i"
  proof (rule bit_word_eqI)
    fix k show "bit (p1_index (containing_address addr')) k = bit i k"
      using low [of "k + 12"] z [of "3 + k"] i [of k] by (auto simp: bit_index)
  qed
  have i0: "\<not> bit i (k + 9)" "\<not> bit i (k + 18)" "\<not> bit i (k + 27)" for k
    using i [of "k + 9"] i [of "k + 18"] i [of "k + 27"] by auto
  show "p2_index (containing_address addr') = p1_index (containing_address addr)"
    "p3_index (containing_address addr') = p2_index (containing_address addr)"
    "p4_index (containing_address addr') = p3_index (containing_address addr)"
    using i0 by (intro bit_word_eqI; auto simp: bit_index low algebra_simps)+
qed

text \<open>(C20) The recursive entry leads to the page tables. Let entry 510 of the top table point to the top
  table itself. Then for every table that a path of at most three indices reaches, the address that the
  code computes step by step from the constant \<open>P4\<close> translates, by the same walk, to the frame of that
  table, so that the code reads and writes the table it means to.\<close>

theorem recursive_address:
  assumes "bitflags bf" "next_table bf X86_64 T root RECURSIVE_P4_INDEX = Some root" "table_at bf X86_64 T root js = Some t"
    "length js \<le> 3" "\<forall>i \<in> set js. i < 512"
  shows "\<exists>addr. path_address bf T root RECURSIVE_P4_ADDRESS js = Some addr \<and>
    translate_page bf X86_64 T root (containing_address addr) = Some (Some t)"
proof -
  have r: "next_table bf X86_64 T root 510 = Some root" using assms(2) by (simp add: RECURSIVE_P4_INDEX_def ENTRIES_PER_PAGE_TABLE_def PAGE_SIZE_eq BYTES_PER_ADDR_def)
  have start: "take_bit 12 RECURSIVE_P4_ADDRESS = 0" "p1_index (containing_address RECURSIVE_P4_ADDRESS) = 510"
    "p2_index (containing_address RECURSIVE_P4_ADDRESS) = 510" "p3_index (containing_address RECURSIVE_P4_ADDRESS) = 510"
    "p4_index (containing_address RECURSIVE_P4_ADDRESS) = 510"
    by code_simp+
  have addr: "\<exists>addr'. next_table_address bf X86_64 (T u) addr i = Some addr'" if "next_table bf X86_64 T u i = Some v" for u addr i v
    using that by (auto simp: next_table_def next_table_address_def Let_def split: if_splits)
  have entry: "entry_pointed_frame bf X86_64 (T u i) = Some v" if "next_table bf X86_64 T u i = Some v" for u i v
    using that by (auto simp: next_table_def entry_pointed_frame_def Let_def split: if_splits)
  have walk: "translate_page bf X86_64 T root p = Some (Some v)"
    if "table_at bf X86_64 T root [p4_index p, p3_index p, p2_index p, p1_index p] = Some v" for p v
    using that entry by (auto simp: translate_page_def p1_table_path bind_eq_Some_conv)
  consider "js = []" | i where "js = [i]" | i j where "js = [i, j]" | i j k where "js = [i, j, k]"
    using assms(4) by (cases js; cases "tl js"; cases "tl (tl js)") auto
  then show ?thesis
  proof cases
    case 1
    then show ?thesis using assms(3) start r walk [of "containing_address RECURSIVE_P4_ADDRESS" root] by simp
  next
    case (2 i)
    then have i: "next_table bf X86_64 T root i = Some t" "i < 512" using assms(3,5) by auto
    obtain a1 where a1: "next_table_address bf X86_64 (T root) RECURSIVE_P4_ADDRESS i = Some a1" using addr [OF i(1)] by blast
    show ?thesis using 2 i a1 r start next_address_indices [OF a1 i(2) start(1)] by (auto intro!: walk)
  next
    case (3 i j)
    then obtain u where i: "next_table bf X86_64 T root i = Some u" "i < 512" and j: "next_table bf X86_64 T u j = Some t" "j < 512"
      using assms(3,5) by (auto simp: bind_eq_Some_conv)
    obtain a1 where a1: "next_table_address bf X86_64 (T root) RECURSIVE_P4_ADDRESS i = Some a1" using addr [OF i(1)] by blast
    note n1 = next_address_indices [OF a1 i(2) start(1)]
    obtain a2 where a2: "next_table_address bf X86_64 (T u) a1 j = Some a2" using addr [OF j(1)] by blast
    show ?thesis using 3 i j a1 a2 r start n1 next_address_indices [OF a2 j(2) n1(1)] by (auto intro!: walk)
  next
    case (4 i j k)
    then obtain u v where i: "next_table bf X86_64 T root i = Some u" "i < 512" and j: "next_table bf X86_64 T u j = Some v" "j < 512"
      and k: "next_table bf X86_64 T v k = Some t" "k < 512"
      using assms(3,5) by (auto simp: bind_eq_Some_conv)
    obtain a1 where a1: "next_table_address bf X86_64 (T root) RECURSIVE_P4_ADDRESS i = Some a1" using addr [OF i(1)] by blast
    note n1 = next_address_indices [OF a1 i(2) start(1)]
    obtain a2 where a2: "next_table_address bf X86_64 (T u) a1 j = Some a2" using addr [OF j(1)] by blast
    note n2 = next_address_indices [OF a2 j(2) n1(1)]
    obtain a3 where a3: "next_table_address bf X86_64 (T v) a2 k = Some a3" using addr [OF k(1)] by blast
    show ?thesis using 4 i j k a1 a2 a3 r start n1 n2 next_address_indices [OF a3 k(2) n2(1)] by (auto intro!: walk)
  qed
qed

theorem recursive_address_witness:
  "\<exists>addr. path_address bitwise_flags (example_tables(1 := (example_tables 1)(510 := 0x1003))) 1 RECURSIVE_P4_ADDRESS [0, 0, 0] = Some addr \<and>
     translate_page bitwise_flags X86_64 (example_tables(1 := (example_tables 1)(510 := 0x1003))) 1 (containing_address addr) = Some (Some 4)"
proof (rule recursive_address [OF bitwise.bitflags_axioms])
  show "next_table bitwise_flags X86_64 (example_tables(1 := (example_tables 1)(510 := 0x1003))) 1 RECURSIVE_P4_INDEX = Some 1"
    "table_at bitwise_flags X86_64 (example_tables(1 := (example_tables 1)(510 := 0x1003))) 1 [0, 0, 0] = Some 4"
    by code_simp+
qed simp_all

end
