(* ===== verification/Tasks.thy ===== *)
theory Tasks
  imports Prelude
begin

text \<open>
  Tasks: \<^verbatim>\<open>src/kernel/task/src/lib.rs\<close>. A \<open>TaskRef\<close> is a shared pointer, here an address into the store
  \<open>tasks\<close>; two references are equal when the addresses are. A task has its own thread-local storage:
  \<open>tls_current t\<close> is the variable \<open>CURRENT_TASK\<close> in the area of task \<open>t\<close>, and \<open>cpu_tls c\<close> is the task whose
  area is active on CPU \<open>c\<close>. Each atomic operation and each critical section is one step. \<open>internal_exit\<close>
  may panic after it has changed the state that other tasks see, so it returns the new state together
  with \<open>None\<close>.

  Left out: the name, the stack, the memory map, the namespace and the environment of a task, which the
  functions below only pass on; the machine code of the context switch; a borrow of \<open>CURRENT_TASK\<close> that is
  still held while another function asks for it; and the code for \<open>simd_personality\<close>.
\<close>

section \<open>Data\<close>

type_synonym taskref = nat
type_synonym any_value = nat

record panic_info_owned =
  payload :: "any_value option"
  panic_msg :: string
  panic_file :: string
  panic_line :: u32
  panic_column :: u32

datatype kill_reason = Requested | Panic panic_info_owned | Exception u8

datatype exit_value = Completed any_value | Killed kill_reason

datatype runstate = Initing | Runnable | Blocked | Exited | Reaped

record task =
  task_id :: usize
  running_on_cpu :: "u8 option"
  task_runstate :: runstate
  suspended :: bool
  joinable :: bool
  is_an_idle_task :: bool
  saved_sp :: usize
  preemption_guard :: bool
  drop_after_task_switch :: "taskref option"
  pinned_core :: "u8 option"
  kill_handler :: "any_value option"
  restart_info :: "any_value option"
  waker :: "any_value option"
  exit_value_mailbox :: "exit_value option"

record task_system =
  tasks :: "taskref \<Rightarrow> task"
  tasklist :: "usize \<rightharpoonup> taskref"
  taskid_counter :: usize
  tls_current :: "taskref \<Rightarrow> taskref option"
  cpu_tls :: "u8 \<Rightarrow> taskref option"
  woken :: "any_value list"

definition from_payload :: "any_value \<Rightarrow> panic_info_owned" where
  "from_payload v = \<lparr>payload = Some v, panic_msg = [], panic_file = [], panic_line = 0, panic_column = 0\<rparr>"

definition upd :: "task_system \<Rightarrow> taskref \<Rightarrow> (task \<Rightarrow> task) \<Rightarrow> task_system" where
  "upd s t f = s\<lparr>tasks := (tasks s)(t := f (tasks s t))\<rparr>"

section \<open>Creating tasks\<close>

definition task_new_internal :: "task_system \<Rightarrow> task \<times> task_system" where
  "task_new_internal s =
     (\<lparr>task_id = taskid_counter s, running_on_cpu = None, task_runstate = Initing, suspended = False, joinable = False,
       is_an_idle_task = False, saved_sp = 0, preemption_guard = False, drop_after_task_switch = None,
       pinned_core = None, kill_handler = None, restart_info = None, waker = None, exit_value_mailbox = None\<rparr>,
      s\<lparr>taskid_counter := taskid_counter s + 1\<rparr>)"

text \<open>\<open>TaskRef::create\<close> puts the task at a fresh address and marks it joinable.\<close>

definition taskref_create :: "task_system \<Rightarrow> taskref \<Rightarrow> task \<Rightarrow> task_system" where
  "taskref_create s t tk = s\<lparr>tasks := (tasks s)(t := tk\<lparr>exit_value_mailbox := None, joinable := True\<rparr>)\<rparr>"

definition get_task :: "task_system \<Rightarrow> usize \<Rightarrow> taskref option" where
  "get_task s i = tasklist s i"

section \<open>Reading a task\<close>

definition is_running :: "task_system \<Rightarrow> taskref \<Rightarrow> bool" where
  "is_running s t \<longleftrightarrow> running_on_cpu (tasks s t) \<noteq> None"

definition is_joinable :: "task_system \<Rightarrow> taskref \<Rightarrow> bool" where
  "is_joinable s t = joinable (tasks s t)"

definition task_pinned_core :: "task_system \<Rightarrow> taskref \<Rightarrow> u8 option" where
  "task_pinned_core s t = pinned_core (tasks s t)"

definition runstate :: "task_system \<Rightarrow> taskref \<Rightarrow> runstate" where
  "runstate s t = task_runstate (tasks s t)"

definition is_suspended :: "task_system \<Rightarrow> taskref \<Rightarrow> bool" where
  "is_suspended s t = suspended (tasks s t)"

definition is_runnable :: "task_system \<Rightarrow> taskref \<Rightarrow> bool" where
  "is_runnable s t \<longleftrightarrow> runstate s t = Runnable \<and> \<not> is_suspended s t"

definition has_exited :: "task_system \<Rightarrow> taskref \<Rightarrow> bool" where
  "has_exited s t \<longleftrightarrow> runstate s t = Exited \<or> runstate s t = Reaped"

section \<open>Changing the run state\<close>

definition compare_exchange ::
  "task_system \<Rightarrow> taskref \<Rightarrow> runstate \<Rightarrow> runstate \<Rightarrow> (runstate, runstate) result \<times> task_system" where
  "compare_exchange s t current new =
     (if runstate s t = current then (Ok current, upd s t (task_runstate_update (\<lambda>_. new)))
      else (Err (runstate s t), s))"

definition block :: "task_system \<Rightarrow> taskref \<Rightarrow> (runstate, runstate) result \<times> task_system" where
  "block s t =
     (case compare_exchange s t Runnable Blocked of
        (Inr _, s) \<Rightarrow> (Ok Runnable, s)
      | (Inl _, s) \<Rightarrow>
          (case compare_exchange s t Blocked Blocked of
             (Inr _, s) \<Rightarrow> (Ok Blocked, s)
           | (Inl _, s) \<Rightarrow> (Err (runstate s t), s)))"

definition block_initing_task :: "task_system \<Rightarrow> taskref \<Rightarrow> (runstate, runstate) result \<times> task_system" where
  "block_initing_task s t =
     (case compare_exchange s t Initing Blocked of
        (Inr _, s) \<Rightarrow> (Ok Initing, s)
      | (Inl _, s) \<Rightarrow> (Err (runstate s t), s))"

definition unblock :: "task_system \<Rightarrow> taskref \<Rightarrow> (runstate, runstate) result \<times> task_system" where
  "unblock s t =
     (case compare_exchange s t Blocked Runnable of
        (Inr _, s) \<Rightarrow> (Ok Blocked, s)
      | (Inl _, s) \<Rightarrow>
          (case compare_exchange s t Runnable Runnable of
             (Inr _, s) \<Rightarrow> (Ok Runnable, s)
           | (Inl _, s) \<Rightarrow> (Err (runstate s t), s)))"

definition make_inited_task_runnable :: "task_system \<Rightarrow> taskref \<Rightarrow> (runstate, runstate) result \<times> task_system" where
  "make_inited_task_runnable s t =
     (case compare_exchange s t Initing Runnable of
        (Inr _, s) \<Rightarrow> (Ok Initing, s)
      | (Inl _, s) \<Rightarrow> (Err (runstate s t), s))"

definition suspend :: "task_system \<Rightarrow> taskref \<Rightarrow> task_system" where
  "suspend s t = upd s t (suspended_update (\<lambda>_. True))"

definition unsuspend :: "task_system \<Rightarrow> taskref \<Rightarrow> task_system" where
  "unsuspend s t = upd s t (suspended_update (\<lambda>_. False))"

definition set_waker :: "task_system \<Rightarrow> taskref \<Rightarrow> any_value \<Rightarrow> task_system" where
  "set_waker s t w = upd s t (waker_update (\<lambda>_. Some w))"

section \<open>Exiting and reaping\<close>

definition internal_exit ::
  "task_system \<Rightarrow> taskref \<Rightarrow> exit_value \<Rightarrow> (unit, string) result panics \<times> task_system" where
  "internal_exit s t val =
     (if has_exited s t then
        (Some (Err ''BUG: task was already exited! (did not overwrite its existing exit value)''), s)
      else
        (let s = upd s t (\<lambda>tk. tk\<lparr>exit_value_mailbox := Some val, task_runstate := Exited\<rparr>) in
         if \<not> is_running s t then (None, s)
         else
           (case waker (tasks s t) of
              Some w \<Rightarrow> (Some (Ok ()), (upd s t (waker_update (\<lambda>_. None)))\<lparr>woken := woken s @ [w]\<rparr>)
            | None \<Rightarrow> (Some (Ok ()), s))))"

definition mark_as_exited where "mark_as_exited s t v = internal_exit s t (Completed v)"

definition mark_as_killed where "mark_as_killed s t reason = internal_exit s t (Killed reason)"

definition kill where "kill s t reason = internal_exit s t (Killed reason)"

definition reap_exit_value :: "task_system \<Rightarrow> taskref \<Rightarrow> exit_value option \<times> task_system" where
  "reap_exit_value s t =
     (case compare_exchange s t Exited Reaped of
        (Inr _, s) \<Rightarrow>
          (exit_value_mailbox (tasks s t),
           (upd s t (exit_value_mailbox_update (\<lambda>_. None)))\<lparr>tasklist := (tasklist s)(task_id (tasks s t) := None)\<rparr>)
      | (Inl _, s) \<Rightarrow> (None, s))"

text \<open>\<open>join\<close> spins until the task has exited and has stopped running; \<open>None\<close> is one more turn of a loop.\<close>

definition join_step :: "task_system \<Rightarrow> taskref \<Rightarrow> ((exit_value, string) result \<times> task_system) option" where
  "join_step s t =
     (if \<not> has_exited s t then None
      else if is_running s t then None
      else
        Some (case reap_exit_value s t of
                (Some v, s) \<Rightarrow> (Ok v, s)
              | (None, s) \<Rightarrow> (Err ''BUG: `join()` could not retrieve `ExitValue` after task had exited.'', s)))"

definition drop_joinable :: "task_system \<Rightarrow> taskref \<Rightarrow> task_system" where
  "drop_joinable s t = upd s t (joinable_update (\<lambda>_. False))"

definition reap_if_orphaned :: "task_system \<Rightarrow> taskref \<Rightarrow> task_system" where
  "reap_if_orphaned s t = (if \<not> is_joinable s t then snd (reap_exit_value s t) else s)"

section \<open>The current task\<close>

definition with_current_task :: "task_system \<Rightarrow> u8 \<Rightarrow> taskref option" where
  "with_current_task s cpu = Option.bind (cpu_tls s cpu) (tls_current s)"

definition set_as_current_task :: "task_system \<Rightarrow> taskref \<Rightarrow> u8 \<Rightarrow> task_system" where
  "set_as_current_task s t cpu = s\<lparr>cpu_tls := (cpu_tls s)(cpu := Some t)\<rparr>"

definition init_current_task :: "task_system \<Rightarrow> u8 \<Rightarrow> usize \<Rightarrow> taskref option \<Rightarrow> taskref option \<times> task_system" where
  "init_current_task s cpu current_task_id current_task =
     (let taskref =
        (case current_task of
           Some t \<Rightarrow> if task_id (tasks s t) \<noteq> current_task_id then None else Some t
         | None \<Rightarrow> tasklist s current_task_id)
      in case (taskref, cpu_tls s cpu) of
           (Some t, Some area) \<Rightarrow>
             (if tls_current s area = None then (Some t, s\<lparr>tls_current := (tls_current s)(area := Some t)\<rparr>) else (None, s))
         | _ \<Rightarrow> (None, s))"

definition set_kill_handler :: "task_system \<Rightarrow> u8 \<Rightarrow> any_value \<Rightarrow> (unit, string) result \<times> task_system" where
  "set_kill_handler s cpu h =
     (case with_current_task s cpu of
        Some t \<Rightarrow> (Ok (), upd s t (kill_handler_update (\<lambda>_. Some h)))
      | None \<Rightarrow> (Err ''couldn't get current task'', s))"

definition take_kill_handler :: "task_system \<Rightarrow> u8 \<Rightarrow> any_value option \<times> task_system" where
  "take_kill_handler s cpu =
     (case with_current_task s cpu of
        Some t \<Rightarrow> (kill_handler (tasks s t), upd s t (kill_handler_update (\<lambda>_. None)))
      | None \<Rightarrow> (None, s))"

text \<open>The first task of a CPU represents the code that already runs there.\<close>

definition bootstrap_task :: "task_system \<Rightarrow> taskref \<Rightarrow> u8 \<Rightarrow> (taskref, string) result \<times> task_system" where
  "bootstrap_task s t apic_id =
     (let (tk, s) = task_new_internal s;
          tk = tk\<lparr>task_runstate := Runnable, running_on_cpu := Some apic_id, pinned_core := Some apic_id\<rparr>;
          s = taskref_create s t tk;
          s = set_as_current_task s t apic_id
      in case init_current_task s apic_id (task_id tk) (Some t) of
           (None, s) \<Rightarrow> (Err ''BUG: bootstrap_task(): failed to set bootstrapped task as current task'', s)
         | (Some _, s) \<Rightarrow>
             (if tasklist s (task_id tk) \<noteq> None
              then (Err ''BUG: bootstrap_task(): TASKLIST already contained a task with the new bootstrap_task's ID'',
                    s\<lparr>tasklist := (tasklist s)(task_id tk \<mapsto> t)\<rparr>)
              else (Ok t, s\<lparr>tasklist := (tasklist s)(task_id tk \<mapsto> t)\<rparr>)))"

section \<open>Switching tasks\<close>

definition post_context_switch_action :: "task_system \<Rightarrow> taskref \<Rightarrow> task_system panics" where
  "post_context_switch_action s t =
     (let s = upd s t (drop_after_task_switch_update (\<lambda>_. None)) in
      if preemption_guard (tasks s t) then Some (upd s t (preemption_guard_update (\<lambda>_. False))) else None)"

text \<open>\<open>Ok\<close> carries the two stack pointers of the context switch: the task whose \<open>saved_sp\<close> receives the old
  one, and the new one. \<open>Err\<close> is the early return.\<close>

definition task_switch_inner ::
  "task_system \<Rightarrow> taskref \<Rightarrow> taskref \<Rightarrow> u8 \<Rightarrow> (taskref \<times> usize, bool) result \<times> task_system" where
  "task_switch_inner s area next apic_id =
     (case tls_current s area of
        None \<Rightarrow> (Err False, s)
      | Some cur \<Rightarrow>
          (if task_id (tasks s cur) = task_id (tasks s next) then (Err False, s)
           else
             (let next_task_saved_sp = saved_sp (tasks s next);
                  s = upd s cur (running_on_cpu_update (\<lambda>_. None));
                  s = (if has_exited s cur then
                         upd (s\<lparr>tls_current := (tls_current s)(area := None)\<rparr>) next
                           (drop_after_task_switch_update (\<lambda>_. Some cur))
                       else s);
                  s = upd s next (running_on_cpu_update (\<lambda>_. Some apic_id));
                  s = set_as_current_task s next apic_id;
                  s = upd s next (preemption_guard_update (\<lambda>_. True))
              in (Ok (cur, next_task_saved_sp), s))))"

text \<open>The code that runs first on the stack of the next task: the rest of \<open>task_switch\<close> for a task that
  was switched out there, and the beginning of \<open>spawn::task_wrapper_internal\<close> for a new task.\<close>

definition resume_task_switch :: "task_system \<Rightarrow> u8 \<Rightarrow> task_system panics" where
  "resume_task_switch s apic_id =
     do {
       t \<leftarrow> with_current_task s apic_id;
       post_context_switch_action s t
     }"

definition task_wrapper_begin :: "task_system \<Rightarrow> usize \<Rightarrow> u8 \<Rightarrow> task_system panics" where
  "task_wrapper_begin s current_task_id apic_id =
     (case init_current_task s apic_id current_task_id None of
        (Some t, s) \<Rightarrow> post_context_switch_action s t
      | (None, _) \<Rightarrow> None)"

text \<open>\<open>old_sp\<close> is the stack pointer that the context switch stores; \<open>first_run\<close> tells whether the saved
  stack of the next task is the one prepared by \<open>setup_context_trampoline\<close>, whose first register
  holds the identifier of the task.\<close>

definition task_switch :: "task_system \<Rightarrow> taskref \<Rightarrow> u8 \<Rightarrow> usize \<Rightarrow> bool \<Rightarrow> (bool \<times> task_system) panics" where
  "task_switch s next apic_id old_sp first_run =
     (case cpu_tls s apic_id of
        None \<Rightarrow> Some (False, s)
      | Some area \<Rightarrow>
          (case task_switch_inner s area next apic_id of
             (Inl early, s) \<Rightarrow> Some (early, s)
           | (Inr (cur, _), s) \<Rightarrow>
               (let s = upd s cur (saved_sp_update (\<lambda>_. old_sp)) in
                do {
                  s \<leftarrow> (if first_run then task_wrapper_begin s (task_id (tasks s next)) apic_id
                        else resume_task_switch s apic_id);
                  Some (True, s)
                })))"

end
