(* ===== verification/TaskProperties.thy ===== *)
theory TaskProperties
  imports Tasks
begin

text \<open>
  The life of a task: which run states follow one another, and what becomes of its exit value. The
  operations that any task may apply to another one are collected in \<open>task_op\<close>; an arbitrary sequence of
  them, on arbitrary tasks, is compared with an abstract task that is alive, then finished with a value,
  then gone.
\<close>

section \<open>Sequences of operations\<close>

datatype task_op =
    Block | BlockIniting | Unblock | MakeRunnable | Suspend | Unsuspend | SetWaker any_value
  | Exit exit_value | Join | DropJoinable | ReapIfOrphaned

definition apply_op :: "task_system \<Rightarrow> taskref \<Rightarrow> task_op \<Rightarrow> exit_value option \<times> task_system" where
  "apply_op s t op =
     (case op of
        Block \<Rightarrow> (None, snd (block s t))
      | BlockIniting \<Rightarrow> (None, snd (block_initing_task s t))
      | Unblock \<Rightarrow> (None, snd (unblock s t))
      | MakeRunnable \<Rightarrow> (None, snd (make_inited_task_runnable s t))
      | Suspend \<Rightarrow> (None, suspend s t)
      | Unsuspend \<Rightarrow> (None, unsuspend s t)
      | SetWaker w \<Rightarrow> (None, set_waker s t w)
      | Exit v \<Rightarrow> (None, snd (internal_exit s t v))
      | Join \<Rightarrow> (case join_step s t of Some (Inr v, s) \<Rightarrow> (Some v, s) | Some (Inl _, s) \<Rightarrow> (None, s) | None \<Rightarrow> (None, s))
      | DropJoinable \<Rightarrow> (None, drop_joinable s t)
      | ReapIfOrphaned \<Rightarrow> (None, reap_if_orphaned s t))"

fun run_ops :: "task_system \<Rightarrow> (taskref \<times> task_op) list \<Rightarrow> (taskref \<times> exit_value) list \<times> task_system" where
  "run_ops s [] = ([], s)"
| "run_ops s ((t, op) # ops) =
     (let (v, s) = apply_op s t op; (vs, s) = run_ops s ops
      in ((case v of Some v \<Rightarrow> [(t, v)] | None \<Rightarrow> []) @ vs, s))"

text \<open>What a sequence may do with the values: the abstract life of a task.\<close>

datatype life = Alive | Finished exit_value | Gone

definition life_of :: "task_system \<Rightarrow> taskref \<Rightarrow> life" where
  "life_of s t =
     (case runstate s t of
        Exited \<Rightarrow> (case exit_value_mailbox (tasks s t) of Some v \<Rightarrow> Finished v | None \<Rightarrow> Gone)
      | Reaped \<Rightarrow> Gone
      | _ \<Rightarrow> Alive)"

definition abs_task :: "task_system \<Rightarrow> taskref \<Rightarrow> life \<times> bool \<times> bool" where
  "abs_task s t = (life_of s t, is_joinable s t, is_running s t)"

fun life_spec :: "task_op \<Rightarrow> life \<times> bool \<times> bool \<Rightarrow> exit_value option \<times> (life \<times> bool \<times> bool)" where
  "life_spec (Exit v) (Alive, j, r) = (None, (Finished v, j, r))"
| "life_spec Join (Finished v, j, False) = (Some v, (Gone, j, False))"
| "life_spec ReapIfOrphaned (Finished v, False, r) = (None, (Gone, False, r))"
| "life_spec DropJoinable (l, j, r) = (None, (l, False, r))"
| "life_spec op (l, j, r) = (None, (l, j, r))"

fun run_spec ::
  "(taskref \<Rightarrow> life \<times> bool \<times> bool) \<Rightarrow> (taskref \<times> task_op) list \<Rightarrow>
   (taskref \<times> exit_value) list \<times> (taskref \<Rightarrow> life \<times> bool \<times> bool)" where
  "run_spec a [] = ([], a)"
| "run_spec a ((t, op) # ops) =
     (let (v, l) = life_spec op (a t); (vs, a) = run_spec (a(t := l)) ops
      in ((case v of Some v \<Rightarrow> [(t, v)] | None \<Rightarrow> []) @ vs, a))"

definition mailbox_ok :: "task_system \<Rightarrow> bool" where
  "mailbox_ok s \<longleftrightarrow> (\<forall>t. exit_value_mailbox (tasks s t) \<noteq> None \<longleftrightarrow> runstate s t = Exited)"

definition next_runstate :: "runstate \<Rightarrow> runstate \<Rightarrow> bool" where
  "next_runstate a b \<longleftrightarrow>
     a = b \<or> (case a of
       Initing \<Rightarrow> b = Runnable \<or> b = Blocked \<or> b = Exited
     | Runnable \<Rightarrow> b = Blocked \<or> b = Exited
     | Blocked \<Rightarrow> b = Runnable \<or> b = Exited
     | Exited \<Rightarrow> b = Reaped
     | Reaped \<Rightarrow> False)"

section \<open>One operation\<close>

lemma tasks_upd [simp]: "tasks (upd s t f) = (tasks s)(t := f (tasks s t))"
  by (simp add: upd_def)

lemma upd_simps [simp]:
  "tasklist (upd s t f) = tasklist s" "tls_current (upd s t f) = tls_current s"
  "cpu_tls (upd s t f) = cpu_tls s" "woken (upd s t f) = woken s" "taskid_counter (upd s t f) = taskid_counter s"
  by (simp_all add: upd_def)

lemmas task_op_defs =
  apply_op_def block_def block_initing_task_def unblock_def make_inited_task_runnable_def compare_exchange_def
  suspend_def unsuspend_def set_waker_def internal_exit_def join_step_def reap_exit_value_def
  reap_if_orphaned_def drop_joinable_def is_joinable_def is_running_def has_exited_def

lemma apply_op_other: "u \<noteq> t \<Longrightarrow> tasks (snd (apply_op s t op)) u = tasks s u"
  by (cases op) (auto simp: task_op_defs Let_def split: option.splits)

lemma apply_op_frame:
  "tls_current (snd (apply_op s t op)) = tls_current s \<and> cpu_tls (snd (apply_op s t op)) = cpu_tls s"
  by (cases op) (auto simp: task_op_defs Let_def split: option.splits)

lemma apply_op_running: "running_on_cpu (tasks (snd (apply_op s t op)) u) = running_on_cpu (tasks s u)"
  by (cases op) (auto simp: task_op_defs Let_def split: option.splits)

lemma apply_op_runstate: "next_runstate (runstate s t) (runstate (snd (apply_op s t op)) t)"
  by (cases op; cases "task_runstate (tasks s t)")
    (auto simp: task_op_defs next_runstate_def runstate_def Let_def split: option.splits)

lemma apply_op_mailbox_at:
  assumes "exit_value_mailbox (tasks s t) \<noteq> None \<longleftrightarrow> runstate s t = Exited"
  shows "exit_value_mailbox (tasks (snd (apply_op s t op)) t) \<noteq> None \<longleftrightarrow> runstate (snd (apply_op s t op)) t = Exited"
  using assms
  by (cases op; cases "task_runstate (tasks s t)")
    (auto simp: task_op_defs runstate_def Let_def split: option.splits)

lemma apply_op_mailbox_ok: "mailbox_ok s \<Longrightarrow> mailbox_ok (snd (apply_op s t op))"
  unfolding mailbox_ok_def
  by (metis apply_op_mailbox_at apply_op_other runstate_def)

lemma apply_op_life:
  assumes "exit_value_mailbox (tasks s t) \<noteq> None \<longleftrightarrow> runstate s t = Exited"
  shows "life_spec op (abs_task s t) = (fst (apply_op s t op), abs_task (snd (apply_op s t op)) t)"
  using assms
  by (cases op; cases "task_runstate (tasks s t)"; cases "joinable (tasks s t)"; cases "running_on_cpu (tasks s t)")
    (auto simp: task_op_defs abs_task_def runstate_def life_of_def Let_def split: option.splits)

lemma apply_op_life_other: "u \<noteq> t \<Longrightarrow> abs_task (snd (apply_op s t op)) u = abs_task s u"
  by (simp add: abs_task_def life_of_def runstate_def is_joinable_def is_running_def apply_op_other cong: option.case_cong runstate.case_cong)

lemma run_ops_spec:
  assumes "mailbox_ok s"
  shows "run_spec (abs_task s) ops = (fst (run_ops s ops), abs_task (snd (run_ops s ops)))"
  using assms
proof (induction ops arbitrary: s)
  case (Cons o1 ops)
  obtain t op where o1: "o1 = (t, op)" by force
  let ?s = "snd (apply_op s t op)"
  have abs: "(abs_task s)(t := abs_task ?s t) = abs_task ?s"
    by (auto simp: apply_op_life_other)
  have "life_spec op (abs_task s t) = (fst (apply_op s t op), abs_task ?s t)"
    using Cons.prems by (intro apply_op_life) (simp add: mailbox_ok_def)
  then show ?case
    using Cons.IH [OF apply_op_mailbox_ok [OF Cons.prems, of t op]]
    by (simp add: o1 abs split_beta Let_def)
qed simp

section \<open>At most one exit value\<close>

definition values_of :: "taskref \<Rightarrow> (taskref \<times> exit_value) list \<Rightarrow> exit_value list" where
  "values_of t vs = map snd (filter (\<lambda>(u, _). u = t) vs)"

fun first_exit :: "taskref \<Rightarrow> (taskref \<times> task_op) list \<Rightarrow> exit_value option" where
  "first_exit t [] = None"
| "first_exit t ((u, Exit v) # ops) = (if u = t then Some v else first_exit t ops)"
| "first_exit t ((u, op) # ops) = first_exit t ops"

fun may_yield :: "life \<Rightarrow> exit_value option \<Rightarrow> exit_value list \<Rightarrow> bool" where
  "may_yield Alive e vs \<longleftrightarrow> vs = [] \<or> (\<exists>v. e = Some v \<and> vs = [v])"
| "may_yield (Finished v) e vs \<longleftrightarrow> vs = [] \<or> vs = [v]"
| "may_yield Gone e vs \<longleftrightarrow> vs = []"

lemma values_of_simps [simp]:
  "values_of t [] = []"
  "values_of t (xs @ ys) = values_of t xs @ values_of t ys"
  "values_of t [(u, v)] = (if u = t then [v] else [])"
  by (simp_all add: values_of_def)

lemma life_spec_yield:
  "may_yield (fst (snd (life_spec op l))) (first_exit t ops) vs \<Longrightarrow>
   may_yield (fst l) (first_exit t ((t, op) # ops)) ((case fst (life_spec op l) of Some v \<Rightarrow> [v] | None \<Rightarrow> []) @ vs)"
  by (cases "(op, l)" rule: life_spec.cases) auto

lemma first_exit_other: "u \<noteq> t \<Longrightarrow> first_exit t ((u, op) # ops) = first_exit t ops"
  by (cases op) simp_all

lemma run_spec_yield: "may_yield (fst (a t)) (first_exit t ops) (values_of t (fst (run_spec a ops)))"
proof (induction ops arbitrary: a)
  case Nil
  then show ?case by (cases "fst (a t)") simp_all
next
  case (Cons o1 ops)
  obtain u op where o1: "o1 = (u, op)" by force
  let ?a = "a(u := snd (life_spec op (a u)))"
  have vals: "values_of t (fst (run_spec a (o1 # ops))) =
      (if u = t then (case fst (life_spec op (a t)) of Some v \<Rightarrow> [v] | None \<Rightarrow> []) else []) @ values_of t (fst (run_spec ?a ops))"
    by (simp add: o1 split_beta Let_def split: option.split)
  show ?case
  proof (cases "u = t")
    case True
    then have "may_yield (fst (snd (life_spec op (a t)))) (first_exit t ops) (values_of t (fst (run_spec ?a ops)))"
      using Cons.IH [of ?a] by (simp only: fun_upd_same)
    from life_spec_yield [OF this] show ?thesis
      unfolding vals using True o1 by simp
  next
    case False
    then have "may_yield (fst (a t)) (first_exit t ops) (values_of t (fst (run_spec ?a ops)))"
      using Cons.IH [of ?a] by (simp only: fun_upd_other not_sym)
    then show ?thesis
      unfolding vals using False o1 by (simp add: first_exit_other)
  qed
qed

section \<open>Properties\<close>

definition example_tasks :: task_system where
  "example_tasks =
     \<lparr>tasks = (\<lambda>t. (fst (task_new_internal \<lparr>tasks = undefined, tasklist = Map.empty, taskid_counter = of_nat t,
                 tls_current = Map.empty, cpu_tls = Map.empty, woken = []\<rparr>))
                \<lparr>running_on_cpu := if t = 1 then Some 0 else None, waker := Some 7, task_runstate := Runnable\<rparr>),
      tasklist = [1 \<mapsto> 1], taskid_counter = 5, tls_current = [1 \<mapsto> 1], cpu_tls = [0 \<mapsto> 1], woken = []\<rparr>"

lemma example_tasks_mailbox: "mailbox_ok example_tasks"
  by (simp add: mailbox_ok_def example_tasks_def task_new_internal_def runstate_def)

text \<open>
  (C6) Any sequence of blocking, unblocking, suspending, killing, exiting, joining, dropping and reaping
  operations, on any tasks, returns the same exit values to the joiners as the abstract life of each
  task: a task lives until its first exit, then holds that value, and it loses the value to the first
  \<open>join\<close> that finds it stopped, or to the reaper when nobody can join it.
\<close>
theorem exit_value_refinement:
  assumes "mailbox_ok s"
  shows "fst (run_ops s ops) = fst (run_spec (abs_task s) ops)
    \<and> abs_task (snd (run_ops s ops)) = snd (run_spec (abs_task s) ops)"
  by (simp add: run_ops_spec [OF assms])

theorem exit_value_refinement_witness:
  "fst (run_ops example_tasks [(0, Block), (2, Exit (Completed 3)), (2, Join), (2, Join)])
     = fst (run_spec (abs_task example_tasks) [(0, Block), (2, Exit (Completed 3)), (2, Join), (2, Join)])"
  using exit_value_refinement [OF example_tasks_mailbox,
    of "[(0, Block), (2, Exit (Completed 3)), (2, Join), (2, Join)]"] by simp

text \<open>
  The exit value of a task is obtained at most once, whatever the other tasks do, and the value is
  the one of the first exit: no later kill or exit overwrites it.
\<close>
lemma exit_value_taken_once:
  assumes "mailbox_ok s" and "\<not> has_exited s t"
  shows "values_of t (fst (run_ops s ops)) = []
    \<or> (\<exists>v. first_exit t ops = Some v \<and> values_of t (fst (run_ops s ops)) = [v])"
proof -
  have "fst (abs_task s t) = Alive"
    using assms(2) by (cases "runstate s t") (auto simp: abs_task_def life_of_def has_exited_def)
  then show ?thesis
    using run_spec_yield [of "abs_task s" t ops] by (simp add: run_ops_spec [OF assms(1)])
qed

text \<open>
  The run state of a task only moves along the documented transitions, in every sequence of
  operations; so a task that has exited never becomes runnable again.
\<close>
lemma exited_stays_exited:
  "next_runstate (runstate s t) (runstate (snd (apply_op s u op)) t)
    \<and> (has_exited s t \<longrightarrow> has_exited (snd (run_ops s ops)) t \<and> \<not> is_runnable (snd (run_ops s ops)) t)"
proof
  have one: "next_runstate (runstate s t) (runstate (snd (apply_op s u op)) t)" for s u op
    using apply_op_runstate [of s t op] apply_op_other [of t u s op]
    by (cases "u = t") (auto simp: runstate_def next_runstate_def)
  then show "next_runstate (runstate s t) (runstate (snd (apply_op s u op)) t)" .
  have "has_exited s t \<Longrightarrow> has_exited (snd (run_ops s ops)) t"
  proof (induction ops arbitrary: s)
    case (Cons o1 ops)
    obtain u op where o1: "o1 = (u, op)" by force
    have "has_exited (snd (apply_op s u op)) t"
      using one [of s u op] Cons.prems by (auto simp: has_exited_def next_runstate_def)
    then show ?case
      using Cons.IH by (simp add: o1 split_beta Let_def)
  qed simp
  then show "has_exited s t \<longrightarrow> has_exited (snd (run_ops s ops)) t \<and> \<not> is_runnable (snd (run_ops s ops)) t"
    by (auto simp: has_exited_def is_runnable_def)
qed

text \<open>
  Exiting or killing a task that is not running marks it as exited, stores the value, and then
  panics at the \<open>todo!\<close>: the waker that waits for the task is not woken, and the caller of \<open>kill\<close> fails
  instead of receiving \<open>Ok\<close>.
\<close>
lemma kill_not_running_panics:
  assumes "\<not> has_exited s t" and "\<not> is_running s t"
  shows "fst (kill s t reason) = None \<and> life_of (snd (kill s t reason)) t = Finished (Killed reason)
    \<and> woken (snd (kill s t reason)) = woken s \<and> waker (tasks (snd (kill s t reason)) t) = waker (tasks s t)"
  using assms by (auto simp: kill_def internal_exit_def has_exited_def is_running_def Let_def life_of_def runstate_def)

end
