(* ===== verification/AtomicMap.thy ===== *)
theory AtomicMap
  imports Prelude
begin

text \<open>
  The association map \<^verbatim>\<open>src/libs/atomic_linked_list/src/atomic_map.rs\<close> as its callers see it when no two
  insertions of the same key overlap: the list of its nodes, the head first. Values are shared
  references, so a caller that locks a value and changes it changes the node (\<open>amap_modify\<close>). The theory
  \<open>AtomicList\<close> has the interleaved steps.
\<close>

type_synonym ('k, 'v) amap = "('k \<times> 'v) list"

definition amap_new :: "('k, 'v) amap" where "amap_new = []"

fun amap_get :: "('k, 'v) amap \<Rightarrow> 'k \<Rightarrow> 'v option" where
  "amap_get [] k = None"
| "amap_get ((k', v) # m) k = (if k = k' then Some v else amap_get m k)"

fun amap_replace :: "('k, 'v) amap \<Rightarrow> 'k \<Rightarrow> 'v \<Rightarrow> 'v option \<times> ('k, 'v) amap" where
  "amap_replace [] k v = (None, [])"
| "amap_replace ((k', v') # m) k v =
     (if k = k' then (Some v', (k', v) # m)
      else (case amap_replace m k v of (old, m) \<Rightarrow> (old, (k', v') # m)))"

definition amap_insert :: "('k, 'v) amap \<Rightarrow> 'k \<Rightarrow> 'v \<Rightarrow> 'v option \<times> ('k, 'v) amap" where
  "amap_insert m k v =
     (case amap_replace m k v of
        (Some old, m) \<Rightarrow> (Some old, m)
      | (None, m) \<Rightarrow> (None, (k, v) # m))"

definition amap_iter :: "('k, 'v) amap \<Rightarrow> ('k \<times> 'v) list" where "amap_iter m = m"

fun amap_modify :: "('k, 'v) amap \<Rightarrow> 'k \<Rightarrow> ('v \<Rightarrow> 'v) \<Rightarrow> ('k, 'v) amap" where
  "amap_modify [] k f = []"
| "amap_modify ((k', v) # m) k f = (if k = k' then (k', f v) # m else (k', v) # amap_modify m k f)"

definition amap_modify_all :: "('k, 'v) amap \<Rightarrow> ('v \<Rightarrow> 'v) \<Rightarrow> ('k, 'v) amap" where
  "amap_modify_all m f = map (map_prod id f) m"

definition amap_ok :: "('k, 'v) amap \<Rightarrow> bool" where
  "amap_ok m \<longleftrightarrow> distinct (map fst m)"

lemma amap_get_map_of: "amap_get m k = map_of m k"
  by (induction m) auto

lemma amap_replace_fst: "fst (amap_replace m k v) = amap_get m k"
  by (induction m) (auto split: prod.split)

lemma amap_replace_keys [simp]: "map fst (snd (amap_replace m k v)) = map fst m"
  by (induction m) (auto split: prod.split)

lemma amap_replace_get: "amap_get (snd (amap_replace m k v)) k' = (if k' = k \<and> amap_get m k \<noteq> None then Some v else amap_get m k')"
  by (induction m) (auto split: prod.split)

lemma amap_insert_old [simp]: "fst (amap_insert m k v) = amap_get m k"
  by (auto simp: amap_insert_def simp flip: amap_replace_fst [of m k v] split: prod.split option.split)

lemma amap_insert_get [simp]: "amap_get (snd (amap_insert m k v)) k' = (if k' = k then Some v else amap_get m k')"
proof (cases "amap_replace m k v")
  case (Pair old m')
  then show ?thesis
    using amap_replace_fst [of m k v] amap_replace_get [of m k v k']
    by (auto simp: amap_insert_def split: option.split)
qed

lemma amap_insert_ok [simp]: "amap_ok m \<Longrightarrow> amap_ok (snd (amap_insert m k v))"
proof (cases "amap_replace m k v")
  case (Pair old m')
  assume ok: "amap_ok m"
  have keys: "map fst m' = map fst m" and old: "old = map_of m k"
    using amap_replace_keys [of m k v] amap_replace_fst [of m k v] Pair by (simp_all add: amap_get_map_of)
  have "k \<notin> set (map fst m)" if "old = None"
    using that old by (simp add: map_of_eq_None_iff)
  then show ?thesis
    using ok keys Pair by (simp add: amap_insert_def amap_ok_def del: set_map split: option.split)
qed

lemma amap_modify_keys [simp]: "map fst (amap_modify m k f) = map fst m"
  by (induction m) auto

lemma amap_modify_get [simp]: "amap_get (amap_modify m k f) k' = (if k' = k then map_option f (amap_get m k) else amap_get m k')"
  by (induction m) auto

lemma amap_modify_ok [simp]: "amap_ok (amap_modify m k f) = amap_ok m"
  by (simp add: amap_ok_def)

lemma amap_modify_all_get [simp]: "amap_get (amap_modify_all m f) k = map_option f (amap_get m k)"
  by (induction m) (auto simp: amap_modify_all_def)

lemma amap_modify_all_ok [simp]: "amap_ok (amap_modify_all m f) = amap_ok m"
  by (simp add: amap_ok_def amap_modify_all_def comp_def)

lemma amap_get_in: "amap_get m k = Some v \<Longrightarrow> (k, v) \<in> set m"
  by (simp add: amap_get_map_of map_of_SomeD)

lemma amap_get_iff: "amap_ok m \<Longrightarrow> amap_get m k = Some v \<longleftrightarrow> (k, v) \<in> set m"
  by (simp add: amap_get_map_of amap_ok_def)

end
