(* ===== verification/RunQueues.thy ===== *)
theory RunQueues
  imports TaskProperties AtomicMap
begin

text \<open>
  The run queues of the three schedulers: \<^verbatim>\<open>src/kernel/runqueue_round_robin\<close>,
  \<^verbatim>\<open>src/kernel/runqueue_priority\<close> and \<^verbatim>\<open>src/kernel/runqueue_realtime\<close>. A kernel is built with one of
  them. A queue is a \<open>VecDeque\<close>, here the list from front to back; the map from CPUs to queues is an
  \<open>AtomicMap\<close>. Each critical section of a queue's lock is one step.
\<close>

section \<open>Double-ended queues\<close>

definition swap_remove_front :: "'a list \<Rightarrow> nat \<Rightarrow> ('a \<times> 'a list) option" where
  "swap_remove_front xs i = (if i < length xs then Some (xs ! i, tl (xs[i := hd xs])) else None)"

definition remove_at :: "'a list \<Rightarrow> nat \<Rightarrow> ('a \<times> 'a list) option" where
  "remove_at xs i = (if i < length xs then Some (xs ! i, take i xs @ drop (Suc i) xs) else None)"

definition insert_at :: "'a list \<Rightarrow> nat \<Rightarrow> 'a \<Rightarrow> 'a list" where
  "insert_at xs i x = take i xs @ x # drop i xs"

text \<open>The index of the first element with a property, as the loops with \<open>break\<close> and \<open>position\<close> find it.\<close>

fun find_index :: "('a \<Rightarrow> bool) \<Rightarrow> 'a list \<Rightarrow> nat option" where
  "find_index P [] = None"
| "find_index P (x # xs) = (if P x then Some 0 else map_option Suc (find_index P xs))"

text \<open>The queue with the fewest elements, the first one of equally short queues.\<close>

fun least_busy :: "('q \<Rightarrow> nat) \<Rightarrow> (u8 \<times> 'q) list \<Rightarrow> (u8 \<times> 'q \<times> nat) option \<Rightarrow> (u8 \<times> 'q \<times> nat) option" where
  "least_busy len [] min_rq = min_rq"
| "least_busy len ((c, rq) # rqs) min_rq =
     (let rq_size = len rq in
      case min_rq of
        Some (_, _, n) \<Rightarrow> if rq_size < n then least_busy len rqs (Some (c, rq, rq_size)) else least_busy len rqs min_rq
      | None \<Rightarrow> least_busy len rqs (Some (c, rq, rq_size)))"

section \<open>Round robin\<close>

record rr_taskref =
  rr_task :: taskref
  rr_context_switches :: usize

record rr_runqueue =
  rr_core :: u8
  rr_queue :: "rr_taskref list"

type_synonym rr_runqueues = "(u8, rr_runqueue) amap"

definition rr_taskref_new :: "taskref \<Rightarrow> rr_taskref" where
  "rr_taskref_new t = \<lparr>rr_task = t, rr_context_switches = 0\<rparr>"

definition rr_move_to_end :: "rr_runqueue \<Rightarrow> nat \<Rightarrow> taskref option \<times> rr_runqueue" where
  "rr_move_to_end rq i =
     (case swap_remove_front (rr_queue rq) i of
        Some (x, q) \<Rightarrow> (Some (rr_task x), rq\<lparr>rr_queue := q @ [x]\<rparr>)
      | None \<Rightarrow> (None, rq))"

definition rr_init :: "rr_runqueues \<Rightarrow> u8 \<Rightarrow> (unit, string) result \<times> rr_runqueues" where
  "rr_init rqs which_core =
     (case amap_insert rqs which_core \<lparr>rr_core = which_core, rr_queue = []\<rparr> of
        (Some _, rqs) \<Rightarrow> (Err ''runqueue already exists for this core'', rqs)
      | (None, rqs) \<Rightarrow> (Ok (), rqs))"

definition rr_get_runqueue :: "rr_runqueues \<Rightarrow> u8 \<Rightarrow> rr_runqueue option" where
  "rr_get_runqueue rqs which_core = amap_get rqs which_core"

definition rr_get_least_busy_runqueue :: "rr_runqueues \<Rightarrow> (u8 \<times> rr_runqueue) option" where
  "rr_get_least_busy_runqueue rqs =
     map_option (\<lambda>(c, rq, _). (c, rq)) (least_busy (\<lambda>rq. length (rr_queue rq)) (amap_iter rqs) None)"

definition rr_get_least_busy_core :: "rr_runqueues \<Rightarrow> u8 option" where
  "rr_get_least_busy_core rqs = map_option (\<lambda>(_, rq). rr_core rq) (rr_get_least_busy_runqueue rqs)"

definition rr_add_task :: "rr_runqueue \<Rightarrow> taskref \<Rightarrow> rr_runqueue" where
  "rr_add_task rq t = rq\<lparr>rr_queue := rr_queue rq @ [rr_taskref_new t]\<rparr>"

definition rr_add_task_to_any_runqueue :: "rr_runqueues \<Rightarrow> taskref \<Rightarrow> (unit, string) result \<times> rr_runqueues" where
  "rr_add_task_to_any_runqueue rqs t =
     (case (case rr_get_least_busy_runqueue rqs of
              Some r \<Rightarrow> Some r
            | None \<Rightarrow> (case amap_iter rqs of r # _ \<Rightarrow> Some r | [] \<Rightarrow> None)) of
        None \<Rightarrow> (Err ''couldn't find any runqueues to add the task to!'', rqs)
      | Some (c, _) \<Rightarrow> (Ok (), amap_modify rqs c (\<lambda>rq. rr_add_task rq t)))"

definition rr_add_task_to_specific_runqueue ::
  "rr_runqueues \<Rightarrow> u8 \<Rightarrow> taskref \<Rightarrow> (unit, string) result \<times> rr_runqueues" where
  "rr_add_task_to_specific_runqueue rqs which_core t =
     (case rr_get_runqueue rqs which_core of
        None \<Rightarrow> (Err ''Couldn't get RunQueue for the given core'', rqs)
      | Some _ \<Rightarrow> (Ok (), amap_modify rqs which_core (\<lambda>rq. rr_add_task rq t)))"

definition rr_remove_task :: "rr_runqueue \<Rightarrow> taskref \<Rightarrow> rr_runqueue" where
  "rr_remove_task rq t = rq\<lparr>rr_queue := filter (\<lambda>x. rr_task x \<noteq> t) (rr_queue rq)\<rparr>"

definition rr_remove_task_from_all :: "rr_runqueues \<Rightarrow> taskref \<Rightarrow> rr_runqueues" where
  "rr_remove_task_from_all rqs t = amap_modify_all rqs (\<lambda>rq. rr_remove_task rq t)"

section \<open>Priorities\<close>

definition MAX_PRIORITY :: u8 where "MAX_PRIORITY = 40"
definition DEFAULT_PRIORITY :: u8 where "DEFAULT_PRIORITY = 20"
definition INITIAL_TOKENS :: usize where "INITIAL_TOKENS = 10"

record prio_taskref =
  prio_task :: taskref
  priority :: u8
  tokens_remaining :: usize
  prio_context_switches :: usize

record prio_runqueue =
  prio_core :: u8
  prio_queue :: "prio_taskref list"

type_synonym prio_runqueues = "(u8, prio_runqueue) amap"

definition saturating_mul :: "usize \<Rightarrow> usize \<Rightarrow> usize" where
  "saturating_mul a b = (if uint a * uint b < 2 ^ 64 then a * b else - 1)"

definition prio_taskref_new :: "taskref \<Rightarrow> prio_taskref" where
  "prio_taskref_new t =
     \<lparr>prio_task = t, priority = DEFAULT_PRIORITY, tokens_remaining = INITIAL_TOKENS, prio_context_switches = 0\<rparr>"

definition prio_increment_context_switches :: "prio_taskref \<Rightarrow> prio_taskref" where
  "prio_increment_context_switches x = x\<lparr>prio_context_switches := saturating_add (prio_context_switches x) 1\<rparr>"

definition prio_update_and_move_to_end :: "prio_runqueue \<Rightarrow> nat \<Rightarrow> usize \<Rightarrow> taskref option \<times> prio_runqueue" where
  "prio_update_and_move_to_end rq i tokens =
     (case remove_at (prio_queue rq) i of
        Some (x, q) \<Rightarrow>
          (let x = prio_increment_context_switches (x\<lparr>tokens_remaining := tokens\<rparr>)
           in (Some (prio_task x), rq\<lparr>prio_queue := q @ [x]\<rparr>))
      | None \<Rightarrow> (None, rq))"

definition prio_init :: "prio_runqueues \<Rightarrow> u8 \<Rightarrow> (unit, string) result \<times> prio_runqueues" where
  "prio_init rqs which_core =
     (case amap_insert rqs which_core \<lparr>prio_core = which_core, prio_queue = []\<rparr> of
        (Some _, rqs) \<Rightarrow> (Err ''runqueue already exists for this core'', rqs)
      | (None, rqs) \<Rightarrow> (Ok (), rqs))"

definition prio_get_runqueue :: "prio_runqueues \<Rightarrow> u8 \<Rightarrow> prio_runqueue option" where
  "prio_get_runqueue rqs which_core = amap_get rqs which_core"

definition prio_get_least_busy_runqueue :: "prio_runqueues \<Rightarrow> (u8 \<times> prio_runqueue) option" where
  "prio_get_least_busy_runqueue rqs =
     map_option (\<lambda>(c, rq, _). (c, rq)) (least_busy (\<lambda>rq. length (prio_queue rq)) (amap_iter rqs) None)"

definition prio_get_least_busy_core :: "prio_runqueues \<Rightarrow> u8 option" where
  "prio_get_least_busy_core rqs = map_option (\<lambda>(_, rq). prio_core rq) (prio_get_least_busy_runqueue rqs)"

definition prio_add_task :: "prio_runqueue \<Rightarrow> taskref \<Rightarrow> prio_runqueue" where
  "prio_add_task rq t = rq\<lparr>prio_queue := prio_queue rq @ [prio_taskref_new t]\<rparr>"

definition prio_add_task_to_any_runqueue :: "prio_runqueues \<Rightarrow> taskref \<Rightarrow> (unit, string) result \<times> prio_runqueues" where
  "prio_add_task_to_any_runqueue rqs t =
     (case (case prio_get_least_busy_runqueue rqs of
              Some r \<Rightarrow> Some r
            | None \<Rightarrow> (case amap_iter rqs of r # _ \<Rightarrow> Some r | [] \<Rightarrow> None)) of
        None \<Rightarrow> (Err ''couldn't find any runqueues to add the task to!'', rqs)
      | Some (c, _) \<Rightarrow> (Ok (), amap_modify rqs c (\<lambda>rq. prio_add_task rq t)))"

definition prio_add_task_to_specific_runqueue ::
  "prio_runqueues \<Rightarrow> u8 \<Rightarrow> taskref \<Rightarrow> (unit, string) result \<times> prio_runqueues" where
  "prio_add_task_to_specific_runqueue rqs which_core t =
     (case prio_get_runqueue rqs which_core of
        None \<Rightarrow> (Err ''Couldn't get RunQueue for the given core'', rqs)
      | Some _ \<Rightarrow> (Ok (), amap_modify rqs which_core (\<lambda>rq. prio_add_task rq t)))"

definition prio_remove_task :: "prio_runqueue \<Rightarrow> taskref \<Rightarrow> prio_runqueue" where
  "prio_remove_task rq t = rq\<lparr>prio_queue := filter (\<lambda>x. prio_task x \<noteq> t) (prio_queue rq)\<rparr>"

definition prio_remove_task_from_all :: "prio_runqueues \<Rightarrow> taskref \<Rightarrow> prio_runqueues" where
  "prio_remove_task_from_all rqs t = amap_modify_all rqs (\<lambda>rq. prio_remove_task rq t)"

definition set_priority_internal :: "prio_runqueue \<Rightarrow> taskref \<Rightarrow> u8 \<Rightarrow> prio_runqueue" where
  "set_priority_internal rq t p =
     rq\<lparr>prio_queue := map (\<lambda>x. if prio_task x = t then x\<lparr>priority := p\<rparr> else x) (prio_queue rq)\<rparr>"

definition rq_set_priority :: "prio_runqueues \<Rightarrow> taskref \<Rightarrow> u8 \<Rightarrow> prio_runqueues" where
  "rq_set_priority rqs t p = amap_modify_all rqs (\<lambda>rq. set_priority_internal rq t p)"

fun get_priority_internal :: "prio_taskref list \<Rightarrow> taskref \<Rightarrow> u8 option" where
  "get_priority_internal [] t = None"
| "get_priority_internal (x # q) t = (if prio_task x = t then Some (priority x) else get_priority_internal q t)"

fun rq_get_priority :: "prio_runqueues \<Rightarrow> taskref \<Rightarrow> u8 option" where
  "rq_get_priority [] t = None"
| "rq_get_priority ((c, rq) # rqs) t =
     (case get_priority_internal (prio_queue rq) t of Some p \<Rightarrow> Some p | None \<Rightarrow> rq_get_priority rqs t)"

section \<open>Periods\<close>

record rt_taskref =
  rt_task :: taskref
  period :: "usize option"
  rt_context_switches :: usize

record rt_runqueue =
  rt_core :: u8
  rt_queue :: "rt_taskref list"

type_synonym rt_runqueues = "(u8, rt_runqueue) amap"

definition rt_taskref_new :: "taskref \<Rightarrow> usize option \<Rightarrow> rt_taskref" where
  "rt_taskref_new t p = \<lparr>rt_task = t, period = p, rt_context_switches = 0\<rparr>"

definition rt_increment_context_switches :: "rt_taskref \<Rightarrow> rt_taskref" where
  "rt_increment_context_switches x = x\<lparr>rt_context_switches := saturating_add (rt_context_switches x) 1\<rparr>"

definition is_periodic :: "rt_taskref \<Rightarrow> bool" where
  "is_periodic x \<longleftrightarrow> period x \<noteq> None"

definition has_smaller_period :: "rt_taskref \<Rightarrow> rt_taskref \<Rightarrow> bool" where
  "has_smaller_period x y =
     (case period x of
        Some p \<Rightarrow> (case period y of Some p' \<Rightarrow> p < p' | None \<Rightarrow> True)
      | None \<Rightarrow> False)"

definition insert_at_proper_location :: "rt_taskref list \<Rightarrow> rt_taskref \<Rightarrow> rt_taskref list" where
  "insert_at_proper_location q x =
     (case period x of
        None \<Rightarrow> q @ [x]
      | Some _ \<Rightarrow>
          (if q = [] then q @ [x]
           else (case find_index (has_smaller_period x) q of
                   Some i \<Rightarrow> insert_at q i x
                 | None \<Rightarrow> q @ [x])))"

definition rt_update_and_reinsert :: "rt_runqueue \<Rightarrow> nat \<Rightarrow> taskref option \<times> rt_runqueue" where
  "rt_update_and_reinsert rq i =
     (case remove_at (rt_queue rq) i of
        Some (x, q) \<Rightarrow>
          (let x = rt_increment_context_switches x
           in (Some (rt_task x), rq\<lparr>rt_queue := insert_at_proper_location q x\<rparr>))
      | None \<Rightarrow> (None, rq))"

definition rt_init :: "rt_runqueues \<Rightarrow> u8 \<Rightarrow> (unit, string) result \<times> rt_runqueues" where
  "rt_init rqs which_core =
     (case amap_insert rqs which_core \<lparr>rt_core = which_core, rt_queue = []\<rparr> of
        (Some _, rqs) \<Rightarrow> (Err ''runqueue already exists for this core'', rqs)
      | (None, rqs) \<Rightarrow> (Ok (), rqs))"

definition rt_get_runqueue :: "rt_runqueues \<Rightarrow> u8 \<Rightarrow> rt_runqueue option" where
  "rt_get_runqueue rqs which_core = amap_get rqs which_core"

definition rt_get_least_busy_runqueue :: "rt_runqueues \<Rightarrow> (u8 \<times> rt_runqueue) option" where
  "rt_get_least_busy_runqueue rqs =
     map_option (\<lambda>(c, rq, _). (c, rq)) (least_busy (\<lambda>rq. length (rt_queue rq)) (amap_iter rqs) None)"

definition rt_get_least_busy_core :: "rt_runqueues \<Rightarrow> u8 option" where
  "rt_get_least_busy_core rqs = map_option (\<lambda>(_, rq). rt_core rq) (rt_get_least_busy_runqueue rqs)"

definition rt_add_task :: "rt_runqueue \<Rightarrow> taskref \<Rightarrow> usize option \<Rightarrow> rt_runqueue" where
  "rt_add_task rq t p = rq\<lparr>rt_queue := insert_at_proper_location (rt_queue rq) (rt_taskref_new t p)\<rparr>"

definition rt_add_task_to_any_runqueue :: "rt_runqueues \<Rightarrow> taskref \<Rightarrow> (unit, string) result \<times> rt_runqueues" where
  "rt_add_task_to_any_runqueue rqs t =
     (case (case rt_get_least_busy_runqueue rqs of
              Some r \<Rightarrow> Some r
            | None \<Rightarrow> (case amap_iter rqs of r # _ \<Rightarrow> Some r | [] \<Rightarrow> None)) of
        None \<Rightarrow> (Err ''couldn't find any runqueues to add the task to!'', rqs)
      | Some (c, _) \<Rightarrow> (Ok (), amap_modify rqs c (\<lambda>rq. rt_add_task rq t None)))"

definition rt_add_task_to_specific_runqueue ::
  "rt_runqueues \<Rightarrow> u8 \<Rightarrow> taskref \<Rightarrow> (unit, string) result \<times> rt_runqueues" where
  "rt_add_task_to_specific_runqueue rqs which_core t =
     (case rt_get_runqueue rqs which_core of
        None \<Rightarrow> (Err ''Couldn't get RunQueue for the given core'', rqs)
      | Some _ \<Rightarrow> (Ok (), amap_modify rqs which_core (\<lambda>rq. rt_add_task rq t None)))"

definition rt_remove_internal :: "rt_runqueue \<Rightarrow> taskref \<Rightarrow> rt_runqueue" where
  "rt_remove_internal rq t = rq\<lparr>rt_queue := filter (\<lambda>x. rt_task x \<noteq> t) (rt_queue rq)\<rparr>"

definition rt_remove_task :: "rt_runqueue \<Rightarrow> taskref \<Rightarrow> rt_runqueue" where
  "rt_remove_task rq t = rt_remove_internal rq t"

definition rt_remove_task_from_all :: "rt_runqueues \<Rightarrow> taskref \<Rightarrow> rt_runqueues" where
  "rt_remove_task_from_all rqs t = amap_modify_all rqs (\<lambda>rq. rt_remove_task rq t)"

definition set_periodicity_internal :: "rt_runqueue \<Rightarrow> taskref \<Rightarrow> usize \<Rightarrow> rt_runqueue" where
  "set_periodicity_internal rq t p =
     (case find_index (\<lambda>x. rt_task x = t) (rt_queue rq) of
        Some i \<Rightarrow>
          (case remove_at (rt_queue rq) i of
             Some (x, q) \<Rightarrow> rq\<lparr>rt_queue := insert_at_proper_location q (x\<lparr>period := Some p\<rparr>)\<rparr>
           | None \<Rightarrow> rq)
      | None \<Rightarrow> rq)"

definition set_periodicity :: "rt_runqueues \<Rightarrow> taskref \<Rightarrow> usize \<Rightarrow> rt_runqueues" where
  "set_periodicity rqs t p = amap_modify_all rqs (\<lambda>rq. set_periodicity_internal rq t p)"

end
