(* ===== verification/Schedulers.thy ===== *)
theory Schedulers
  imports RunQueues
begin

text \<open>
  The three scheduler policies: \<^verbatim>\<open>src/kernel/scheduler_round_robin\<close>, \<^verbatim>\<open>src/kernel/scheduler_priority\<close> and
  \<^verbatim>\<open>src/kernel/scheduler_realtime\<close>. A policy holds the lock of the CPU's queue while it selects, so a
  selection is one step; the run states it reads are those at that step.
\<close>

section \<open>Round robin\<close>

text \<open>The loop over the queue: the index of the first runnable task, and of the last idle task before it.\<close>

fun scan_runnable :: "task_system \<Rightarrow> nat \<Rightarrow> taskref list \<Rightarrow> nat option \<Rightarrow> nat option \<times> nat option" where
  "scan_runnable s i [] idle = (None, idle)"
| "scan_runnable s i (t # ts) idle =
     (if is_an_idle_task (tasks s t) then scan_runnable s (Suc i) ts (Some i)
      else if \<not> is_runnable s t then scan_runnable s (Suc i) ts idle
      else (Some i, idle))"

definition option_or :: "'a option \<Rightarrow> 'a option \<Rightarrow> 'a option" where
  "option_or a b = (case a of Some x \<Rightarrow> Some x | None \<Rightarrow> b)"

definition rr_select_next_task :: "task_system \<Rightarrow> rr_runqueues \<Rightarrow> u8 \<Rightarrow> taskref option \<times> rr_runqueues" where
  "rr_select_next_task s rqs apic_id =
     (case rr_get_runqueue rqs apic_id of
        None \<Rightarrow> (None, rqs)
      | Some rq \<Rightarrow>
          (let (chosen, idle) = scan_runnable s 0 (map rr_task (rr_queue rq)) None in
           case option_or chosen idle of
             None \<Rightarrow> (None, rqs)
           | Some i \<Rightarrow> (let (t, rq) = rr_move_to_end rq i in (t, amap_modify rqs apic_id (\<lambda>_. rq)))))"

section \<open>Priorities\<close>

definition set_priority :: "prio_runqueues \<Rightarrow> taskref \<Rightarrow> u8 \<Rightarrow> prio_runqueues" where
  "set_priority rqs t p = rq_set_priority rqs t (min p MAX_PRIORITY)"

definition get_priority :: "prio_runqueues \<Rightarrow> taskref \<Rightarrow> u8 option" where
  "get_priority rqs t = rq_get_priority rqs t"

definition pinned_elsewhere :: "task_system \<Rightarrow> u8 \<Rightarrow> taskref \<Rightarrow> bool" where
  "pinned_elsewhere s apic_id t = (case task_pinned_core s t of Some c \<Rightarrow> c \<noteq> apic_id | None \<Rightarrow> False)"

text \<open>\<open>None\<close> is the early return on a task that is pinned to another CPU.\<close>

fun scan_tokens ::
  "task_system \<Rightarrow> u8 \<Rightarrow> nat \<Rightarrow> prio_taskref list \<Rightarrow> nat option \<Rightarrow> (nat option \<times> nat option) option" where
  "scan_tokens s apic_id i [] idle = Some (None, idle)"
| "scan_tokens s apic_id i (x # xs) idle =
     (if is_an_idle_task (tasks s (prio_task x)) then scan_tokens s apic_id (Suc i) xs (Some i)
      else if \<not> is_runnable s (prio_task x) then scan_tokens s apic_id (Suc i) xs idle
      else if pinned_elsewhere s apic_id (prio_task x) then None
      else if tokens_remaining x = 0 then scan_tokens s apic_id (Suc i) xs idle
      else Some (Some i, idle))"

record next_task_result =
  ntr_taskref :: "taskref option"
  ntr_idle_task :: bool

definition select_next_task_priority ::
  "task_system \<Rightarrow> prio_runqueues \<Rightarrow> u8 \<Rightarrow> next_task_result option \<times> prio_runqueues" where
  "select_next_task_priority s rqs apic_id =
     (case prio_get_runqueue rqs apic_id of
        None \<Rightarrow> (None, rqs)
      | Some rq \<Rightarrow>
          (case scan_tokens s apic_id 0 (prio_queue rq) None of
             None \<Rightarrow> (None, rqs)
           | Some (chosen, idle) \<Rightarrow>
               (let modified_tokens =
                  (case chosen of
                     Some i \<Rightarrow> saturating_sub (tokens_remaining (prio_queue rq ! i)) 1
                   | None \<Rightarrow> 0)
                in case option_or chosen idle of
                     None \<Rightarrow> (None, rqs)
                   | Some i \<Rightarrow>
                       (let (t, rq) = prio_update_and_move_to_end rq i modified_tokens
                        in (map_option (\<lambda>t. \<lparr>ntr_taskref = Some t, ntr_idle_task = (chosen = None)\<rparr>) t,
                            amap_modify rqs apic_id (\<lambda>_. rq))))))"

fun total_priorities :: "task_system \<Rightarrow> u8 \<Rightarrow> prio_taskref list \<Rightarrow> usize \<Rightarrow> usize option" where
  "total_priorities s apic_id [] tot = Some tot"
| "total_priorities s apic_id (x # xs) tot =
     (if is_an_idle_task (tasks s (prio_task x)) then total_priorities s apic_id xs tot
      else if \<not> is_runnable s (prio_task x) then total_priorities s apic_id xs tot
      else if pinned_elsewhere s apic_id (prio_task x) then None
      else total_priorities s apic_id xs (saturating_add (saturating_add tot 1) (ucast (priority x))))"

fun give_tokens :: "task_system \<Rightarrow> u8 \<Rightarrow> usize \<Rightarrow> usize \<Rightarrow> prio_taskref list \<Rightarrow> bool \<times> prio_taskref list" where
  "give_tokens s apic_id epoch tot [] = (True, [])"
| "give_tokens s apic_id epoch tot (x # xs) =
     (if is_an_idle_task (tasks s (prio_task x)) \<or> \<not> is_runnable s (prio_task x) then
        map_prod id (Cons x) (give_tokens s apic_id epoch tot xs)
      else if pinned_elsewhere s apic_id (prio_task x) then (False, x # xs)
      else
        map_prod id (Cons (x\<lparr>tokens_remaining := saturating_mul epoch (saturating_add (ucast (priority x)) 1) div tot\<rparr>))
          (give_tokens s apic_id epoch tot xs))"

definition assign_tokens :: "task_system \<Rightarrow> prio_runqueues \<Rightarrow> u8 \<Rightarrow> bool \<times> prio_runqueues" where
  "assign_tokens s rqs apic_id =
     (case prio_get_runqueue rqs apic_id of
        None \<Rightarrow> (False, rqs)
      | Some rq \<Rightarrow>
          (case total_priorities s apic_id (prio_queue rq) 1 of
             None \<Rightarrow> (False, rqs)
           | Some tot \<Rightarrow>
               (let epoch = max tot 100;
                    (r, q) = give_tokens s apic_id epoch tot (prio_queue rq)
                in (r, amap_modify rqs apic_id (\<lambda>_. rq\<lparr>prio_queue := q\<rparr>)))))"

definition prio_select_next_task :: "task_system \<Rightarrow> prio_runqueues \<Rightarrow> u8 \<Rightarrow> taskref option \<times> prio_runqueues" where
  "prio_select_next_task s rqs apic_id =
     (let (r, rqs) = select_next_task_priority s rqs apic_id;
          again = (\<lambda>rqs. let (r, rqs) = select_next_task_priority s (snd (assign_tokens s rqs apic_id)) apic_id
                         in (Option.bind r ntr_taskref, rqs))
      in case r of
           Some task \<Rightarrow> (if ntr_idle_task task then again rqs else (ntr_taskref task, rqs))
         | None \<Rightarrow> again rqs)"

section \<open>Periods\<close>

definition rt_select_next_task :: "task_system \<Rightarrow> rt_runqueues \<Rightarrow> u8 \<Rightarrow> taskref option \<times> rt_runqueues" where
  "rt_select_next_task s rqs apic_id =
     (case rt_get_runqueue rqs apic_id of
        None \<Rightarrow> (None, rqs)
      | Some rq \<Rightarrow>
          (let (chosen, idle) = scan_runnable s 0 (map rt_task (rt_queue rq)) None in
           case option_or chosen idle of
             None \<Rightarrow> (None, rqs)
           | Some i \<Rightarrow> (let (t, rq) = rt_update_and_reinsert rq i in (t, amap_modify rqs apic_id (\<lambda>_. rq)))))"

section \<open>Lemmas on the scans\<close>

definition ready :: "task_system \<Rightarrow> taskref \<Rightarrow> bool" where
  "ready s t \<longleftrightarrow> \<not> is_an_idle_task (tasks s t) \<and> is_runnable s t"

lemma find_index_Some: "find_index P xs = Some n \<longleftrightarrow> n < length xs \<and> P (xs ! n) \<and> (\<forall>j<n. \<not> P (xs ! j))"
proof (induction xs arbitrary: n)
  case (Cons x xs)
  then show ?case by (cases n) (auto simp: nth_Cons less_Suc_eq_0_disj split: nat.split)
qed simp

lemma find_index_None: "find_index P xs = None \<longleftrightarrow> (\<forall>x\<in>set xs. \<not> P x)"
  by (induction xs) auto

lemma find_index_map: "find_index P (map f xs) = find_index (P \<circ> f) xs"
  by (induction xs) auto

lemma find_index_append:
  "find_index P xs = Some p \<Longrightarrow> find_index P (xs @ ys) = Some p"
  by (auto simp: find_index_Some nth_append)

lemma find_index_filter:
  assumes "find_index P xs = Some p" and "\<And>x. P x \<Longrightarrow> Q x"
  shows "\<exists>p'\<le>p. find_index P (filter Q xs) = Some p'"
  using assms(1)
proof (induction xs arbitrary: p)
  case (Cons x xs)
  show ?case
  proof (cases "P x")
    case False
    then obtain k where "find_index P xs = Some k" "p = Suc k" using Cons.prems by auto
    with Cons.IH obtain p' where "p' \<le> k" "find_index P (filter Q xs) = Some p'" by blast
    then show ?thesis using \<open>p = Suc k\<close> False by auto
  qed (use Cons.prems assms(2) in auto)
qed simp

lemma find_index_find: "find_index P xs = Some p \<Longrightarrow> find P xs = Some (xs ! p)"
  by (auto simp: find_index_Some find_Some_iff intro!: exI [of _ p])

lemma find_filter: "(\<And>x. P x \<Longrightarrow> Q x) \<Longrightarrow> find P (filter Q xs) = find P xs"
  by (induction xs) auto

lemma scan_runnable_chosen: "fst (scan_runnable s i ts idle) = map_option (\<lambda>n. n + i) (find_index (ready s) ts)"
  by (induction ts arbitrary: i idle) (auto simp: ready_def option.map_comp comp_def)

lemma scan_runnable_idle:
  assumes "find_index (ready s) ts = None" and "snd (scan_runnable s i ts idle) = Some k"
  shows "idle = Some k \<or> (i \<le> k \<and> k < i + length ts \<and> is_an_idle_task (tasks s (ts ! (k - i))))"
  using assms
proof (induction ts arbitrary: i idle)
  case (Cons t ts)
  show ?case
  proof (cases "is_an_idle_task (tasks s t)")
    case True
    then show ?thesis
      using Cons.IH [of "Suc i" "Some i"] Cons.prems by (auto simp: ready_def nth_Cons' Suc_diff_Suc)
  next
    case False
    then show ?thesis
      using Cons.IH [of "Suc i" idle] Cons.prems by (auto simp: ready_def nth_Cons' Suc_diff_Suc split: if_splits)
  qed
qed simp

lemma least_busy_Some:
  "least_busy len rqs (Some (c, rq, len rq)) = Some (c', rq', n) \<Longrightarrow>
   n = len rq' \<and> (c', rq') \<in> insert (c, rq) (set rqs) \<and> (\<forall>(d, r)\<in>insert (c, rq) (set rqs). len rq' \<le> len r)"
proof (induction rqs arbitrary: c rq)
  case (Cons x rqs)
  obtain d r where x: "x = (d, r)" by force
  show ?case
  proof (cases "len r < len rq")
    case True
    then show ?thesis using Cons.IH [of d r] Cons.prems x by auto
  next
    case False
    then show ?thesis using Cons.IH [of c rq] Cons.prems x by auto
  qed
qed auto

lemma least_busy_total: "\<exists>y. least_busy len rqs (Some x) = Some y"
  by (induction rqs arbitrary: x) (auto simp: Let_def)

lemma least_busy_None:
  assumes "rqs \<noteq> []"
  shows "\<exists>c rq. least_busy len rqs None = Some (c, rq, len rq) \<and> (c, rq) \<in> set rqs
    \<and> (\<forall>(c', rq')\<in>set rqs. len rq \<le> len rq')"
proof -
  obtain d r rest where rqs: "rqs = (d, r) # rest" using assms by (cases rqs) auto
  obtain c rq n where "least_busy len rest (Some (d, r, len r)) = Some (c, rq, n)"
    using least_busy_total [of len rest "(d, r, len r)"] by auto
  from least_busy_Some [OF this] this show ?thesis
    by (intro exI [of _ c] exI [of _ rq]) (auto simp: rqs)
qed

end
