(* ===== verification/RoundRobin.thy ===== *)
theory RoundRobin
  imports Schedulers
begin

text \<open>
  Bounded waiting of the round-robin scheduler. The events of a trace are the selections of all CPUs,
  tasks being added to and removed from queues, and arbitrary changes of the tasks' states by the rest
  of the system.
\<close>

section \<open>Traces\<close>

datatype rr_event =
    RrSelect u8 | RrAddAny taskref | RrAddTo u8 taskref | RrRemove u8 taskref | RrEnv task_system

fun rr_exec :: "task_system \<times> rr_runqueues \<Rightarrow> rr_event \<Rightarrow> (u8 \<times> taskref option) list \<times> (task_system \<times> rr_runqueues)" where
  "rr_exec (s, rqs) (RrSelect c) = (let (t, rqs) = rr_select_next_task s rqs c in ([(c, t)], (s, rqs)))"
| "rr_exec (s, rqs) (RrAddAny t) = ([], (s, snd (rr_add_task_to_any_runqueue rqs t)))"
| "rr_exec (s, rqs) (RrAddTo c t) = ([], (s, snd (rr_add_task_to_specific_runqueue rqs c t)))"
| "rr_exec (s, rqs) (RrRemove c t) = ([], (s, amap_modify rqs c (\<lambda>rq. rr_remove_task rq t)))"
| "rr_exec (s, rqs) (RrEnv s') = ([], (s', rqs))"

fun rr_trace :: "task_system \<times> rr_runqueues \<Rightarrow> rr_event list \<Rightarrow> (u8 \<times> taskref option) list" where
  "rr_trace st [] = []"
| "rr_trace st (e # es) = (let (out, st) = rr_exec st e in out @ rr_trace st es)"

text \<open>Events that leave task \<open>w\<close> ready and in the queue of CPU \<open>c\<close>.\<close>

fun keeps_ready :: "u8 \<Rightarrow> taskref \<Rightarrow> rr_event \<Rightarrow> bool" where
  "keeps_ready c w (RrRemove c' t) \<longleftrightarrow> c' \<noteq> c \<or> t \<noteq> w"
| "keeps_ready c w (RrEnv s) \<longleftrightarrow> ready s w"
| "keeps_ready c w _ \<longleftrightarrow> True"

definition selections :: "u8 \<Rightarrow> (u8 \<times> taskref option) list \<Rightarrow> nat" where
  "selections c out = length (filter (\<lambda>(c', _). c' = c) out)"

definition waits_at :: "task_system \<times> rr_runqueues \<Rightarrow> u8 \<Rightarrow> taskref \<Rightarrow> nat \<Rightarrow> bool" where
  "waits_at st c w p \<longleftrightarrow> ready (fst st) w
     \<and> (\<exists>rq. amap_get (snd st) c = Some rq \<and> find_index (\<lambda>x. rr_task x = w) (rr_queue rq) = Some p)"

section \<open>One event\<close>

lemma find_index_swap_remove:
  assumes "find_index P xs = Some p" and "i < p"
  shows "find_index P (tl (xs[i := hd xs]) @ [xs ! i]) = Some (p - 1)"
proof -
  have p: "p < length xs" "P (xs ! p)" "\<And>j. j < p \<Longrightarrow> \<not> P (xs ! j)"
    using assms(1) by (auto simp: find_index_Some)
  have len: "length (tl (xs[i := hd xs])) = length xs - 1" by simp
  have nth: "tl (xs[i := hd xs]) ! j = (if Suc j = i then xs ! 0 else xs ! Suc j)" if "Suc j < length xs" for j
    using that p(1) by (cases xs; cases i) (auto simp: nth_list_update)
  have "find_index P (tl (xs[i := hd xs])) = Some (p - 1)"
    unfolding find_index_Some len
    using p assms(2) by (auto simp: nth)
  then show ?thesis by (rule find_index_append)
qed

lemma rr_select_waits:
  assumes "waits_at (s, rqs) c w p"
  shows "fst (rr_select_next_task s rqs c) = Some w
    \<or> (\<exists>p'<p. waits_at (s, snd (rr_select_next_task s rqs c)) c w p')"
proof -
  obtain rq where rq: "amap_get rqs c = Some rq" "find_index (\<lambda>x. rr_task x = w) (rr_queue rq) = Some p" "ready s w"
    using assms by (auto simp: waits_at_def)
  let ?q = "rr_queue rq"
  have p: "p < length ?q" "rr_task (?q ! p) = w"
    using rq(2) by (auto simp: find_index_Some)
  then have "find_index (ready s) (map rr_task ?q) \<noteq> None"
    using rq(3) by (auto simp: find_index_None intro!: bexI [of _ "?q ! p"])
  then obtain i where i: "find_index (ready s) (map rr_task ?q) = Some i" by blast
  then have il: "i < length ?q" "i \<le> p"
    using p rq(3) by (auto simp: find_index_Some not_less [symmetric])
  have sel: "rr_select_next_task s rqs c =
      (Some (rr_task (?q ! i)), amap_modify rqs c (\<lambda>_. rq\<lparr>rr_queue := tl (?q[i := hd ?q]) @ [?q ! i]\<rparr>))"
    using i il rq(1) scan_runnable_chosen [of s 0 "map rr_task ?q" None]
    by (simp add: rr_select_next_task_def rr_get_runqueue_def option_or_def rr_move_to_end_def swap_remove_front_def split_beta)
  show ?thesis
  proof (cases "i = p")
    case True
    then show ?thesis using sel p by simp
  next
    case False
    then have "i < p" using il by simp
    from find_index_swap_remove [OF rq(2) this] show ?thesis
      using sel rq(1,3) \<open>i < p\<close> by (auto simp: waits_at_def intro!: exI [of _ "p - 1"])
  qed
qed

lemma rr_select_other: "c' \<noteq> c \<Longrightarrow> amap_get (snd (rr_select_next_task s rqs c')) c = amap_get rqs c"
  by (simp add: rr_select_next_task_def split_beta Let_def split: option.split)

lemma waits_at_modify:
  assumes "waits_at (s, rqs) c w p"
    and "\<And>rq. amap_get rqs c = Some rq \<Longrightarrow> c' = c \<Longrightarrow> find_index (\<lambda>x. rr_task x = w) (rr_queue rq) = Some p \<Longrightarrow>
           \<exists>p'\<le>p. find_index (\<lambda>x. rr_task x = w) (rr_queue (f rq)) = Some p'"
  shows "\<exists>p'\<le>p. waits_at (s, amap_modify rqs c' f) c w p'"
  using assms by (auto simp: waits_at_def)

lemma rr_exec_waits:
  assumes "waits_at st c w p" and "keeps_ready c w e"
  shows "(c, Some w) \<in> set (fst (rr_exec st e))
    \<or> (\<exists>p'. p' + selections c (fst (rr_exec st e)) \<le> p \<and> waits_at (snd (rr_exec st e)) c w p')"
proof -
  obtain s rqs where st: "st = (s, rqs)" by force
  have add: "\<exists>p'\<le>p. waits_at (s, amap_modify rqs c' (\<lambda>rq. rr_add_task rq t)) c w p'" for c' t
    using assms(1) unfolding st
    by (intro waits_at_modify) (auto simp: rr_add_task_def dest: find_index_append)
  have keep: "\<exists>p'\<le>p. waits_at (s, rqs) c w p'"
    using assms(1) st by blast
  show ?thesis
  proof (cases e)
    case (RrSelect c')
    show ?thesis
    proof (cases "c' = c")
      case True
      then show ?thesis
        using rr_select_waits [of s rqs c w p] assms(1) RrSelect st
        by (auto simp: selections_def split_beta Suc_le_eq)
    next
      case False
      then show ?thesis
        using assms(1) RrSelect st rr_select_other [of c' c s rqs] by (auto simp: selections_def split_beta waits_at_def)
    qed
  next
    case (RrAddAny t)
    then show ?thesis
      using add keep st
      by (auto simp: selections_def rr_add_task_to_any_runqueue_def split: option.split list.split)
  next
    case (RrAddTo c' t)
    then show ?thesis
      using add keep st by (auto simp: selections_def rr_add_task_to_specific_runqueue_def split: option.split)
  next
    case (RrRemove c' t)
    have "\<exists>p'\<le>p. waits_at (s, amap_modify rqs c' (\<lambda>rq. rr_remove_task rq t)) c w p'"
    proof (rule waits_at_modify [OF assms(1) [unfolded st]])
      fix rq :: rr_runqueue
      assume "c' = c" and w: "find_index (\<lambda>x. rr_task x = w) (rr_queue rq) = Some p"
      then have "t \<noteq> w" using assms(2) RrRemove by simp
      then show "\<exists>p'\<le>p. find_index (\<lambda>x. rr_task x = w) (rr_queue (rr_remove_task rq t)) = Some p'"
        using find_index_filter [OF w, of "\<lambda>x. rr_task x \<noteq> t"] by (simp add: rr_remove_task_def)
    qed
    then show ?thesis using RrRemove st by (auto simp: selections_def)
  next
    case (RrEnv s')
    then show ?thesis using assms st by (auto simp: selections_def waits_at_def)
  qed
qed

section \<open>Properties\<close>

definition example_queues :: rr_runqueues where
  "example_queues =
     [(0, \<lparr>rr_core = 0, rr_queue = map rr_taskref_new [1, 2, 3]\<rparr>), (1, \<lparr>rr_core = 1, rr_queue = []\<rparr>)]"

text \<open>
  (C4) Bounded waiting: a task that stays runnable and in the queue of a CPU, with \<open>p\<close> entries before it, is
  among the next \<open>p + 1\<close> tasks that the round-robin scheduler selects on that CPU. Meanwhile other CPUs
  may select, tasks may be added to and removed from all queues, and other tasks may block, exit or
  become runnable at any moment.
\<close>
theorem rr_bounded_waiting:
  assumes "waits_at st c w p" and "\<forall>e\<in>set es. keeps_ready c w e"
    and "p < selections c (rr_trace st es)"
  shows "(c, Some w) \<in> set (rr_trace st es)"
  using assms
proof (induction es arbitrary: st p)
  case Nil
  then show ?case by (simp add: selections_def)
next
  case (Cons e es)
  have tr: "rr_trace st (e # es) = fst (rr_exec st e) @ rr_trace (snd (rr_exec st e)) es"
    by (simp add: split_beta)
  have sel: "selections c (rr_trace st (e # es)) =
      selections c (fst (rr_exec st e)) + selections c (rr_trace (snd (rr_exec st e)) es)"
    unfolding tr by (simp add: selections_def)
  have "keeps_ready c w e" using Cons.prems(2) by simp
  from rr_exec_waits [OF Cons.prems(1) this] show ?case
  proof
    assume "(c, Some w) \<in> set (fst (rr_exec st e))"
    then show ?thesis unfolding tr by simp
  next
    assume "\<exists>p'. p' + selections c (fst (rr_exec st e)) \<le> p \<and> waits_at (snd (rr_exec st e)) c w p'"
    then obtain p' where p': "p' + selections c (fst (rr_exec st e)) \<le> p" "waits_at (snd (rr_exec st e)) c w p'"
      by blast
    have "p' < selections c (rr_trace (snd (rr_exec st e)) es)"
      using p'(1) Cons.prems(3) sel by linarith
    with Cons.IH [OF p'(2)] Cons.prems(2) show ?thesis unfolding tr by simp
  qed
qed

theorem rr_bounded_waiting_witness:
  "(0, Some 3) \<in> set (rr_trace (example_tasks, example_queues)
     [RrSelect 0, RrAddTo 0 4, RrEnv (snd (block example_tasks 2)), RrSelect 1, RrRemove 0 1, RrSelect 0, RrSelect 0])"
proof (rule rr_bounded_waiting [where p = 2])
  have ready: "ready example_tasks 3" "ready (snd (block example_tasks 2)) 3"
    by (simp_all add: ready_def is_runnable_def is_suspended_def runstate_def block_def compare_exchange_def
      example_tasks_def task_new_internal_def)
  then show "waits_at (example_tasks, example_queues) 0 3 2"
    by (simp add: waits_at_def example_queues_def rr_taskref_new_def)
  from ready show "\<forall>e\<in>set [RrSelect 0, RrAddTo 0 4, RrEnv (snd (block example_tasks 2)), RrSelect 1, RrRemove 0 1, RrSelect 0, RrSelect 0].
      keeps_ready 0 3 e"
    by simp
qed (simp add: selections_def split_beta)

text \<open>
  \<open>add_task_to_any_runqueue\<close> succeeds as soon as there is a queue. It appends the task to one queue, the
  shortest one, and leaves the others as they are.
\<close>
lemma rr_add_any_least_busy:
  assumes "amap_ok rqs" and "rqs \<noteq> []"
  shows "\<exists>c rq. amap_get rqs c = Some rq
    \<and> rr_add_task_to_any_runqueue rqs t = (Ok (), amap_modify rqs c (\<lambda>rq. rr_add_task rq t))
    \<and> (\<forall>c' rq'. amap_get rqs c' = Some rq' \<longrightarrow> length (rr_queue rq) \<le> length (rr_queue rq'))"
proof -
  have "\<exists>c rq. least_busy (\<lambda>rq. length (rr_queue rq)) rqs None = Some (c, rq, length (rr_queue rq)) \<and> (c, rq) \<in> set rqs
      \<and> (\<forall>(c', rq')\<in>set rqs. length (rr_queue rq) \<le> length (rr_queue rq'))"
    using assms(2) by (intro least_busy_None)
  then obtain c rq where "least_busy (\<lambda>rq. length (rr_queue rq)) rqs None = Some (c, rq, length (rr_queue rq))"
    and "(c, rq) \<in> set rqs" and "\<forall>(c', rq')\<in>set rqs. length (rr_queue rq) \<le> length (rr_queue rq')"
    by blast
  then show ?thesis
    using assms(1)
    by (intro exI [of _ c] exI [of _ rq])
      (auto simp: amap_get_iff rr_add_task_to_any_runqueue_def rr_get_least_busy_runqueue_def amap_iter_def)
qed

end
