(* ===== verification/Spawn.thy ===== *)
theory Spawn
  imports RoundRobin
begin

text \<open>
  Spawning, scheduling and ending tasks: \<^verbatim>\<open>src/kernel/spawn/src/lib.rs\<close> and \<^verbatim>\<open>src/kernel/scheduler/src/lib.rs\<close>
  in the default build, with the round-robin scheduler. The state adds to the tasks and the run queues
  the next free address for a task, and which tasks still have the stack that \<open>setup_context_trampoline\<close>
  prepared.

  Left out: the allocation of a kernel stack, the entry function and its argument on that stack, crate
  replacement, and destructors of other thread-local variables. \<open>TASKLIST\<close>, the run queues and the task
  states are changed in the order of the code, each function on a CPU as one step.
\<close>

section \<open>State\<close>

record kernel =
  ktasks :: task_system
  runqueues :: rr_runqueues
  next_addr :: nat
  fresh_stack :: "taskref \<Rightarrow> bool"

record task_builder =
  pin_on_core :: "u8 option"
  blocked :: bool
  idle :: bool
  restart :: "any_value option"

definition kernel_boot :: kernel where
  "kernel_boot =
     \<lparr>ktasks = \<lparr>tasks = (\<lambda>_. fst (task_new_internal \<lparr>tasks = undefined, tasklist = Map.empty, taskid_counter = 0,
                                   tls_current = Map.empty, cpu_tls = Map.empty, woken = []\<rparr>)),
                tasklist = Map.empty, taskid_counter = 0, tls_current = Map.empty, cpu_tls = Map.empty, woken = []\<rparr>,
      runqueues = amap_new, next_addr = 0, fresh_stack = (\<lambda>_. False)\<rparr>"

section \<open>Creating tasks\<close>

definition builder_new :: task_builder where
  "builder_new = \<lparr>pin_on_core = None, blocked = False, idle = False, restart = None\<rparr>"

definition builder_idle :: "task_builder \<Rightarrow> u8 \<Rightarrow> task_builder" where
  "builder_idle b core = b\<lparr>idle := True, pin_on_core := Some core\<rparr>"

text \<open>\<open>block_initing_task\<close> and \<open>make_inited_task_runnable\<close> on a task that is not shared yet.\<close>

definition leave_initing :: "bool \<Rightarrow> task \<Rightarrow> (task, string) result" where
  "leave_initing blk tk =
     (if task_runstate tk = Initing then Ok (tk\<lparr>task_runstate := (if blk then Blocked else Runnable)\<rparr>)
      else if blk then Err ''BUG: newly-spawned blocked task was not in the Initing runstate''
      else Err ''BUG: newly-spawned task was not in the Initing runstate'')"

definition alloc_task :: "kernel \<Rightarrow> task \<Rightarrow> taskref \<times> kernel" where
  "alloc_task k tk =
     (next_addr k, k\<lparr>ktasks := taskref_create (ktasks k) (next_addr k) tk, next_addr := Suc (next_addr k),
                     fresh_stack := (fresh_stack k)(next_addr k := True)\<rparr>)"

definition spawn :: "kernel \<Rightarrow> task_builder \<Rightarrow> (taskref, string) result \<times> kernel" where
  "spawn k b =
     (let (tk, s) = task_new_internal (ktasks k);
          k = k\<lparr>ktasks := s\<rparr>;
          tk = tk\<lparr>restart_info := restart b, is_an_idle_task := idle b\<rparr>
      in case leave_initing (blocked b) tk of
           Inl e \<Rightarrow> (Err e, k)
         | Inr tk \<Rightarrow>
             (let (t, k) = alloc_task k tk;
                  s = ktasks k;
                  existing = tasklist s (task_id tk);
                  k = k\<lparr>ktasks := s\<lparr>tasklist := (tasklist s)(task_id tk \<mapsto> t)\<rparr>\<rparr>
              in if existing \<noteq> None then (Err ''BUG: TASKLIST a contained a task with the new task's ID'', k)
                 else
                   (let (r, rqs) = (case pin_on_core b of
                                      Some core \<Rightarrow> rr_add_task_to_specific_runqueue (runqueues k) core t
                                    | None \<Rightarrow> rr_add_task_to_any_runqueue (runqueues k) t);
                        k = k\<lparr>runqueues := rqs\<rparr>
                    in (map_sum id (\<lambda>_. t) r, k))))"

definition create_idle_task :: "kernel \<Rightarrow> u8 \<Rightarrow> any_value \<Rightarrow> (taskref, string) result \<times> kernel" where
  "create_idle_task k apic_id entry = spawn k ((builder_idle builder_new apic_id)\<lparr>restart := Some entry\<rparr>)"

text \<open>\<open>spawn::init\<close>: the first task of a CPU.\<close>

definition init_cpu :: "kernel \<Rightarrow> u8 \<Rightarrow> (taskref, string) result \<times> kernel" where
  "init_cpu k apic_id =
     (case rr_init (runqueues k) apic_id of
        (Inl e, rqs) \<Rightarrow> (Err e, k\<lparr>runqueues := rqs\<rparr>)
      | (Inr _, rqs) \<Rightarrow>
          (let t = next_addr k; k = k\<lparr>runqueues := rqs, next_addr := Suc t\<rparr> in
           case bootstrap_task (ktasks k) t apic_id of
             (Inl e, s) \<Rightarrow> (Err e, k\<lparr>ktasks := s\<rparr>)
           | (Inr t, s) \<Rightarrow>
               (let (r, rqs) = rr_add_task_to_specific_runqueue (runqueues k) apic_id t
                in (map_sum id (\<lambda>_. t) r, k\<lparr>ktasks := s, runqueues := rqs\<rparr>))))"

section \<open>Scheduling\<close>

definition schedule :: "kernel \<Rightarrow> u8 \<Rightarrow> bool \<Rightarrow> usize \<Rightarrow> (bool \<times> kernel) panics" where
  "schedule k cpu_id preemption_was_enabled old_sp =
     (if \<not> preemption_was_enabled then Some (False, k)
      else
        (case rr_select_next_task (ktasks k) (runqueues k) cpu_id of
           (None, rqs) \<Rightarrow> Some (False, k\<lparr>runqueues := rqs\<rparr>)
         | (Some next_task, rqs) \<Rightarrow>
             (let k = k\<lparr>runqueues := rqs\<rparr> in
              do {
                (did_switch, s) \<leftarrow> task_switch (ktasks k) next_task cpu_id old_sp (fresh_stack k next_task);
                Some (did_switch, k\<lparr>ktasks := s,
                  fresh_stack := (if did_switch then (fresh_stack k)(next_task := False) else fresh_stack k)\<rparr>)
              })))"

section \<open>Ending tasks\<close>

definition remove_current_task_from_runqueue :: "kernel \<Rightarrow> u8 \<Rightarrow> taskref \<Rightarrow> kernel" where
  "remove_current_task_from_runqueue k cpu t =
     k\<lparr>runqueues := amap_modify (runqueues k) cpu (\<lambda>rq. rr_remove_task rq t)\<rparr>"

definition task_cleanup_final_internal :: "kernel \<Rightarrow> u8 \<Rightarrow> taskref \<Rightarrow> kernel" where
  "task_cleanup_final_internal k cpu t =
     (let k = remove_current_task_from_runqueue k cpu t in k\<lparr>ktasks := reap_if_orphaned (ktasks k) t\<rparr>)"

definition task_cleanup_final :: "kernel \<Rightarrow> u8 \<Rightarrow> taskref \<Rightarrow> usize \<Rightarrow> (bool \<times> kernel) panics" where
  "task_cleanup_final k cpu t old_sp = schedule (task_cleanup_final_internal k cpu t) cpu True old_sp"

text \<open>The shared parts of the success and failure cleanup; an error of the exit is only logged.\<close>

definition cleanup_exit :: "kernel \<Rightarrow> taskref \<Rightarrow> exit_value \<Rightarrow> kernel panics" where
  "cleanup_exit k t val =
     (case internal_exit (ktasks k) t val of
        (Some _, s) \<Rightarrow> Some (k\<lparr>ktasks := s\<rparr>)
      | (None, _) \<Rightarrow> None)"

definition task_cleanup_success :: "kernel \<Rightarrow> u8 \<Rightarrow> taskref \<Rightarrow> any_value \<Rightarrow> usize \<Rightarrow> (bool \<times> kernel) panics" where
  "task_cleanup_success k cpu t v old_sp =
     do { k \<leftarrow> cleanup_exit k t (Completed v); task_cleanup_final k cpu t old_sp }"

definition task_cleanup_failure :: "kernel \<Rightarrow> u8 \<Rightarrow> taskref \<Rightarrow> kill_reason \<Rightarrow> usize \<Rightarrow> (bool \<times> kernel) panics" where
  "task_cleanup_failure k cpu t reason old_sp =
     do { k \<leftarrow> cleanup_exit k t (Killed reason); task_cleanup_final k cpu t old_sp }"

text \<open>A restartable task is spawned again before it is removed; \<open>expect\<close> panics when that fails.\<close>

definition respawn :: "kernel \<Rightarrow> taskref \<Rightarrow> kernel panics" where
  "respawn k t =
     (case restart_info (tasks (ktasks k) t) of
        Some info \<Rightarrow>
          (let b = builder_new\<lparr>restart := Some info\<rparr>;
               b = (case task_pinned_core (ktasks k) t of Some core \<Rightarrow> b\<lparr>pin_on_core := Some core\<rparr> | None \<Rightarrow> b)
           in case spawn k b of (Inr _, k) \<Rightarrow> Some k | (Inl _, _) \<Rightarrow> None)
      | None \<Rightarrow> Some k)"

definition task_restartable_cleanup_final :: "kernel \<Rightarrow> u8 \<Rightarrow> taskref \<Rightarrow> usize \<Rightarrow> (bool \<times> kernel) panics" where
  "task_restartable_cleanup_final k cpu t old_sp =
     do { k \<leftarrow> respawn k t; schedule (task_cleanup_final_internal k cpu t) cpu True old_sp }"

definition task_restartable_cleanup_success :: "kernel \<Rightarrow> u8 \<Rightarrow> taskref \<Rightarrow> any_value \<Rightarrow> usize \<Rightarrow> (bool \<times> kernel) panics" where
  "task_restartable_cleanup_success k cpu t v old_sp =
     do { k \<leftarrow> cleanup_exit k t (Completed v); task_restartable_cleanup_final k cpu t old_sp }"

definition task_restartable_cleanup_failure ::
  "kernel \<Rightarrow> u8 \<Rightarrow> taskref \<Rightarrow> kill_reason \<Rightarrow> usize \<Rightarrow> (bool \<times> kernel) panics" where
  "task_restartable_cleanup_failure k cpu t reason old_sp =
     do { k \<leftarrow> cleanup_exit k t (Killed reason); task_restartable_cleanup_final k cpu t old_sp }"

text \<open>\<open>BootstrapTaskRef::finish\<close>.\<close>

definition bootstrap_finish :: "kernel \<Rightarrow> u8 \<Rightarrow> taskref \<Rightarrow> kernel panics" where
  "bootstrap_finish k cpu t =
     (let k = remove_current_task_from_runqueue k cpu t in
      case internal_exit (ktasks k) t (Completed 0) of
        (Some (Inr _), s) \<Rightarrow> Some (k\<lparr>ktasks := s\<rparr>)
      | _ \<Rightarrow> None)"

end
