(* ===== verification/SchedSystem.thy ===== *)
theory SchedSystem
  imports Spawn
begin

text \<open>
  The tasks, the run queues, the scheduler and the spawn functions together, as a transition system whose
  steps are the calls that CPUs make in any order. The invariant relates the CPUs' current tasks, the
  thread-local variables, the task list and the queues.
\<close>

section \<open>Invariant\<close>

definition in_queue :: "rr_runqueues \<Rightarrow> u8 \<Rightarrow> taskref \<Rightarrow> bool" where
  "in_queue rqs c t \<longleftrightarrow> (\<exists>rq. amap_get rqs c = Some rq \<and> t \<in> rr_task ` set (rr_queue rq))"

text \<open>The tasks: each CPU runs one task, whose \<open>CURRENT_TASK\<close> is set; a task that has not run yet is in the
  task list, so that it can find itself there.\<close>

definition tasks_ok :: "task_system \<Rightarrow> nat \<Rightarrow> (taskref \<Rightarrow> bool) \<Rightarrow> bool" where
  "tasks_ok s n fresh \<longleftrightarrow>
     (\<forall>c t. cpu_tls s c = Some t \<longleftrightarrow> t < n \<and> running_on_cpu (tasks s t) = Some c)
   \<and> (\<forall>c t. cpu_tls s c = Some t \<longrightarrow> tls_current s t = Some t \<and> \<not> fresh t)
   \<and> (\<forall>t<n. \<not> has_exited s t \<longrightarrow>
         (if fresh t then tls_current s t = None \<and> tasklist s (task_id (tasks s t)) = Some t else tls_current s t = Some t))
   \<and> inj_on (\<lambda>t. task_id (tasks s t)) {..<n} \<and> (\<forall>t<n. task_id (tasks s t) < taskid_counter s)
   \<and> (\<forall>t\<ge>n. tls_current s t = None \<and> \<not> fresh t)"

text \<open>The queues: a task is in the queue of one CPU, and runs on no other. An idle task that has exited is not
  in a queue, except for the tasks of \<open>X\<close>, which are about to be removed.\<close>

definition queues_ok :: "taskref set \<Rightarrow> task_system \<Rightarrow> nat \<Rightarrow> rr_runqueues \<Rightarrow> bool" where
  "queues_ok X s n rqs \<longleftrightarrow>
     (\<forall>c c' t. in_queue rqs c t \<longrightarrow> in_queue rqs c' t \<longrightarrow> c = c')
   \<and> (\<forall>c t. in_queue rqs c t \<longrightarrow> t < n \<and> (is_an_idle_task (tasks s t) \<longrightarrow> has_exited s t \<longrightarrow> t \<in> X)
         \<and> (\<forall>c'. running_on_cpu (tasks s t) = Some c' \<longrightarrow> c' = c))
   \<and> (\<forall>c. amap_get rqs c \<noteq> None \<longrightarrow> cpu_tls s c \<noteq> None)"

definition kinv :: "taskref set \<Rightarrow> kernel \<Rightarrow> bool" where
  "kinv X k \<longleftrightarrow> tasks_ok (ktasks k) (next_addr k) (fresh_stack k) \<and> queues_ok X (ktasks k) (next_addr k) (runqueues k)"

section \<open>Selection\<close>

lemma rr_select_some:
  assumes "fst (rr_select_next_task s rqs c) = Some t"
  shows "in_queue rqs c t \<and> (ready s t \<or> is_an_idle_task (tasks s t))"
proof -
  obtain rq where rq: "amap_get rqs c = Some rq"
    using assms by (cases "amap_get rqs c") (auto simp: rr_select_next_task_def rr_get_runqueue_def)
  let ?q = "rr_queue rq" and ?ts = "map rr_task (rr_queue rq)"
  let ?sc = "scan_runnable s 0 ?ts None"
  have fstsc: "fst ?sc = find_index (ready s) ?ts"
    using scan_runnable_chosen [of s 0 ?ts None] by (simp add: option.map_ident)
  obtain i where i: "option_or (fst ?sc) (snd ?sc) = Some i" "fst (rr_move_to_end rq i) = Some t"
    using assms rq by (auto simp: rr_select_next_task_def rr_get_runqueue_def split_beta Let_def split: option.splits)
  then have it: "i < length ?q" "t = rr_task (?q ! i)"
    by (auto simp: rr_move_to_end_def swap_remove_front_def split: if_splits)
  then have "in_queue rqs c t" using rq by (auto simp: in_queue_def)
  moreover have "ready s t \<or> is_an_idle_task (tasks s t)"
  proof (cases "find_index (ready s) ?ts")
    case None
    then have "snd ?sc = Some i" using i(1) fstsc by (simp add: option_or_def)
    with scan_runnable_idle [OF None this] it show ?thesis by auto
  next
    case (Some k)
    then have "k = i" using i(1) fstsc by (simp add: option_or_def)
    then show ?thesis using Some it by (simp add: find_index_Some)
  qed
  ultimately show ?thesis by blast
qed

lemma set_swap_remove:
  assumes "i < length xs"
  shows "set (tl (xs[i := hd xs]) @ [xs ! i]) = set xs"
proof (cases i)
  case 0
  then show ?thesis using assms by (cases xs) auto
next
  case (Suc j)
  then obtain x ys where xs: "xs = x # ys" and j: "j < length ys" using assms by (cases xs) auto
  have "set ys = set (take j ys) \<union> insert (ys ! j) (set (drop (Suc j) ys))"
    using id_take_nth_drop [OF j] by (metis set_append list.simps(15))
  then have "set (ys[j := x] @ [ys ! j]) = insert x (set ys)"
    using j by (auto simp: upd_conv_take_nth_drop)
  then show ?thesis using Suc xs by simp
qed

lemma in_queue_modify:
  "in_queue (amap_modify rqs c f) c' t \<longleftrightarrow>
     (if c' = c then \<exists>rq. amap_get rqs c = Some rq \<and> t \<in> rr_task ` set (rr_queue (f rq)) else in_queue rqs c' t)"
  by (auto simp: in_queue_def)

lemma rr_select_queue:
  "in_queue (snd (rr_select_next_task s rqs c)) c' t = in_queue rqs c' t
   \<and> (amap_get (snd (rr_select_next_task s rqs c)) c' = None \<longleftrightarrow> amap_get rqs c' = None)"
proof -
  have "set (rr_queue (snd (rr_move_to_end rq i))) = set (rr_queue rq)" for rq i
    using set_swap_remove [of i "rr_queue rq"] by (auto simp: rr_move_to_end_def swap_remove_front_def)
  then show ?thesis
    by (auto simp: rr_select_next_task_def rr_get_runqueue_def in_queue_def Let_def split_beta split: option.split)
qed

lemma queues_ok_cong:
  assumes "queues_ok X s n rqs" and "\<And>c t. in_queue rqs' c t = in_queue rqs c t"
    and "\<And>c. amap_get rqs' c = None \<longleftrightarrow> amap_get rqs c = None"
  shows "queues_ok X s n rqs'"
  using assms unfolding queues_ok_def by (metis (no_types, lifting))

section \<open>Switching\<close>

text \<open>What a switch from \<open>cur\<close> to \<open>nxt\<close> on CPU \<open>c\<close> does to the tasks.\<close>

definition switched :: "task_system \<Rightarrow> task_system \<Rightarrow> u8 \<Rightarrow> taskref \<Rightarrow> taskref \<Rightarrow> bool" where
  "switched s s' c cur nxt \<longleftrightarrow>
     (\<forall>t. task_id (tasks s' t) = task_id (tasks s t) \<and> runstate s' t = runstate s t
        \<and> is_an_idle_task (tasks s' t) = is_an_idle_task (tasks s t)
        \<and> running_on_cpu (tasks s' t) = (if t = nxt then Some c else if t = cur then None else running_on_cpu (tasks s t)))
   \<and> tasklist s' = tasklist s \<and> taskid_counter s' = taskid_counter s
   \<and> cpu_tls s' = (cpu_tls s)(c := Some nxt)
   \<and> tls_current s' = (if has_exited s cur then (tls_current s)(cur := None) else tls_current s)(nxt := Some nxt)"

lemma task_switch_switched:
  assumes ok: "tasks_ok s n fresh" and cur: "cpu_tls s c = Some cur" and nx: "nxt < n" "\<not> has_exited s nxt"
    and ne: "nxt \<noteq> cur"
  shows "\<exists>s'. task_switch s nxt c sp (fresh nxt) = Some (True, s') \<and> switched s s' c cur nxt"
proof -
  have cur': "cur < n" "tls_current s cur = Some cur" "running_on_cpu (tasks s cur) = Some c"
    using ok cur unfolding tasks_ok_def by blast+
  have "task_id (tasks s cur) \<noteq> task_id (tasks s nxt)"
    using ok ne nx(1) cur'(1) unfolding tasks_ok_def inj_on_def by (metis lessThan_iff)
  moreover have "if fresh nxt then tls_current s nxt = None \<and> tasklist s (task_id (tasks s nxt)) = Some nxt
      else tls_current s nxt = Some nxt"
    using ok nx unfolding tasks_ok_def by blast
  ultimately show ?thesis
    using cur cur' ne
    by (cases "fresh nxt"; cases "has_exited s cur")
      (auto simp: task_switch_def task_switch_inner_def Let_def set_as_current_task_def resume_task_switch_def
        task_wrapper_begin_def init_current_task_def with_current_task_def post_context_switch_action_def
        switched_def has_exited_def runstate_def fun_eq_iff)
qed

lemma switchedD:
  assumes "switched s s' c cur nxt"
  shows "task_id (tasks s' t) = task_id (tasks s t)" and "has_exited s' t = has_exited s t"
    and "is_an_idle_task (tasks s' t) = is_an_idle_task (tasks s t)"
    and "running_on_cpu (tasks s' t) = (if t = nxt then Some c else if t = cur then None else running_on_cpu (tasks s t))"
    and "tasklist s' = tasklist s" and "taskid_counter s' = taskid_counter s"
    and "cpu_tls s' = (cpu_tls s)(c := Some nxt)"
    and "tls_current s' t = (if t = nxt then Some nxt else if t = cur \<and> has_exited s cur then None else tls_current s t)"
  using assms by (auto simp: switched_def has_exited_def)

lemma tasks_okD:
  assumes "tasks_ok s n fresh"
  shows "cpu_tls s c = Some t \<longleftrightarrow> t < n \<and> running_on_cpu (tasks s t) = Some c"
    and "cpu_tls s c = Some t \<Longrightarrow> tls_current s t = Some t \<and> \<not> fresh t"
    and "t < n \<Longrightarrow> \<not> has_exited s t \<Longrightarrow>
      (if fresh t then tls_current s t = None \<and> tasklist s (task_id (tasks s t)) = Some t else tls_current s t = Some t)"
    and "inj_on (\<lambda>t. task_id (tasks s t)) {..<n}" and "t < n \<Longrightarrow> task_id (tasks s t) < taskid_counter s"
    and "n \<le> t \<Longrightarrow> tls_current s t = None \<and> \<not> fresh t"
  using assms by (simp_all add: tasks_ok_def)

lemma tasks_okI:
  assumes "\<And>c t. cpu_tls s c = Some t \<longleftrightarrow> t < n \<and> running_on_cpu (tasks s t) = Some c"
    and "\<And>c t. cpu_tls s c = Some t \<Longrightarrow> tls_current s t = Some t \<and> \<not> fresh t"
    and "\<And>t. t < n \<Longrightarrow> \<not> has_exited s t \<Longrightarrow>
      (if fresh t then tls_current s t = None \<and> tasklist s (task_id (tasks s t)) = Some t else tls_current s t = Some t)"
    and "inj_on (\<lambda>t. task_id (tasks s t)) {..<n}" and "\<And>t. t < n \<Longrightarrow> task_id (tasks s t) < taskid_counter s"
    and "\<And>t. n \<le> t \<Longrightarrow> tls_current s t = None \<and> \<not> fresh t"
  shows "tasks_ok s n fresh"
  unfolding tasks_ok_def using assms by (intro conjI allI impI) simp_all

lemma switched_tasks_ok:
  assumes ok: "tasks_ok s n fresh" and cur: "cpu_tls s c = Some cur" and nx: "nxt < n" "\<not> has_exited s nxt"
    and ne: "nxt \<noteq> cur" and idle: "running_on_cpu (tasks s nxt) = None" and sw: "switched s s' c cur nxt"
  shows "tasks_ok s' n (fresh(nxt := False))"
proof (rule tasks_okI)
  note D = tasks_okD [OF ok] and S = switchedD [OF sw]
  have cur': "cur < n" "running_on_cpu (tasks s cur) = Some c"
    using D(1) cur by blast+
  show "cpu_tls s' d = Some t \<longleftrightarrow> t < n \<and> running_on_cpu (tasks s' t) = Some d" for d t
  proof (cases "d = c")
    case True
    have "t = cur" if "t < n" "running_on_cpu (tasks s t) = Some c" using D(1) [of c t] that cur by simp
    then show ?thesis using True nx(1) by (auto simp: S)
  next
    case False
    then show ?thesis using D(1) [of d t] cur' idle by (auto simp: S)
  qed
  show "tls_current s' t = Some t \<and> \<not> (fresh(nxt := False)) t" if "cpu_tls s' d = Some t" for d t
  proof (cases "d = c")
    case True
    then show ?thesis using that by (simp add: S)
  next
    case False
    then have "cpu_tls s d = Some t" using that by (simp add: S)
    moreover have "t \<noteq> cur" using calculation D(1) [of d t] cur' False by auto
    ultimately show ?thesis using D(2) [of d t] by (simp add: S)
  qed
  show "if (fresh(nxt := False)) t then tls_current s' t = None \<and> tasklist s' (task_id (tasks s' t)) = Some t
      else tls_current s' t = Some t" if "t < n" "\<not> has_exited s' t" for t
    using D(3) [of t] that by (auto simp: S)
  show "inj_on (\<lambda>t. task_id (tasks s' t)) {..<n}" using D(4) by (simp add: S)
  show "task_id (tasks s' t) < taskid_counter s'" if "t < n" for t using D(5) that by (simp add: S)
  show "tls_current s' t = None \<and> \<not> (fresh(nxt := False)) t" if "n \<le> t" for t
    using D(6) [of t] that nx(1) by (auto simp: S)
qed

lemma queues_okD:
  assumes "queues_ok X s n rqs"
  shows "in_queue rqs c t \<Longrightarrow> in_queue rqs c' t \<Longrightarrow> c = c'" and "in_queue rqs c t \<Longrightarrow> t < n"
    and "in_queue rqs c t \<Longrightarrow> running_on_cpu (tasks s t) = Some c' \<Longrightarrow> c' = c"
  using assms unfolding queues_ok_def by simp_all

lemma queues_ok_drop:
  assumes "queues_ok X s n rqs" and "\<And>d. \<not> in_queue rqs d t"
  shows "queues_ok (X - {t}) s n rqs"
proof -
  have "\<forall>d u. in_queue rqs d u \<longrightarrow> u \<noteq> t" using assms(2) by auto
  then show ?thesis using assms(1) unfolding queues_ok_def by fastforce
qed

lemma switched_queues_ok:
  assumes "queues_ok X s n rqs" and "in_queue rqs c nxt" and "switched s s' c cur nxt"
  shows "queues_ok X s' n rqs"
  using assms(1,2) unfolding queues_ok_def
  by (auto simp: switchedD [OF assms(3)])

lemma schedule_kinv:
  assumes "kinv {} k"
  shows "\<exists>r k'. schedule k c pe sp = Some (r, k') \<and> kinv {} k'"
proof (cases "pe")
  case True
  let ?s = "ktasks k" and ?n = "next_addr k" and ?f = "fresh_stack k"
  obtain r rqs where sel: "rr_select_next_task ?s (runqueues k) c = (r, rqs)" by force
  have iq: "in_queue rqs d t = in_queue (runqueues k) d t" "amap_get rqs d = None \<longleftrightarrow> amap_get (runqueues k) d = None" for d t
    using rr_select_queue [of ?s "runqueues k" c d t] sel by simp_all
  have ok: "tasks_ok ?s ?n ?f" and q: "queues_ok {} ?s ?n (runqueues k)"
    using assms by (auto simp: kinv_def)
  have q': "queues_ok {} ?s ?n rqs"
    by (rule queues_ok_cong [OF q]) (auto simp: iq)
  show ?thesis
  proof (cases r)
    case None
    then show ?thesis using True ok q' sel by (auto simp: schedule_def kinv_def)
  next
    case (Some t)
    have t: "in_queue (runqueues k) c t" "ready ?s t \<or> is_an_idle_task (tasks ?s t)"
      using rr_select_some [of ?s "runqueues k" c t] sel Some by auto
    then have tn: "t < ?n" "\<not> has_exited ?s t" "\<And>d. running_on_cpu (tasks ?s t) = Some d \<Longrightarrow> d = c"
      using q unfolding queues_ok_def by (auto simp: ready_def is_runnable_def has_exited_def)
    obtain cur where cur: "cpu_tls ?s c = Some cur"
      using t(1) q unfolding queues_ok_def in_queue_def by fastforce
    have cur': "tls_current ?s cur = Some cur" "running_on_cpu (tasks ?s cur) = Some c"
      using ok cur unfolding tasks_ok_def by blast+
    show ?thesis
    proof (cases "t = cur")
      case same: True
      then show ?thesis
        using True Some sel cur cur' ok q' by (auto simp: schedule_def task_switch_def task_switch_inner_def kinv_def)
    next
      case False
      have idle: "running_on_cpu (tasks ?s t) = None"
        using tn(1) tn(3) tasks_okD(1) [OF ok, of c t] cur False by (cases "running_on_cpu (tasks ?s t)") auto
      obtain s' where s': "task_switch ?s t c sp (?f t) = Some (True, s')" "switched ?s s' c cur t"
        using task_switch_switched [OF ok cur tn(1,2) False] by blast
      have "in_queue rqs c t" using t(1) by (simp add: iq)
      then have "kinv {} (k\<lparr>runqueues := rqs, ktasks := s', fresh_stack := ?f(t := False)\<rparr>)"
        using switched_tasks_ok [OF ok cur tn(1,2) False idle s'(2)] switched_queues_ok [OF q' _ s'(2)]
        by (simp add: kinv_def)
      then show ?thesis
        using True Some sel s'(1) by (auto simp: schedule_def)
    qed
  qed
qed (use assms in \<open>auto simp: schedule_def\<close>)

section \<open>Operations on tasks\<close>

lemma apply_op_same:
  "task_id (tasks (snd (apply_op s t op)) u) = task_id (tasks s u)
   \<and> is_an_idle_task (tasks (snd (apply_op s t op)) u) = is_an_idle_task (tasks s u)
   \<and> taskid_counter (snd (apply_op s t op)) = taskid_counter s"
  by (cases op) (auto simp: task_op_defs Let_def split: option.splits)

lemma apply_op_exited:
  assumes "has_exited s u"
  shows "has_exited (snd (apply_op s t op)) u"
proof (cases "u = t")
  case True
  then show ?thesis using assms apply_op_runstate [of s t op] by (auto simp: has_exited_def next_runstate_def)
next
  case False
  then show ?thesis using assms by (simp add: has_exited_def runstate_def apply_op_other)
qed

lemma apply_op_not_exit:
  assumes "u \<noteq> t \<or> (\<forall>v. op \<noteq> Exit v)"
  shows "has_exited (snd (apply_op s t op)) u = has_exited s u"
proof (cases "u = t")
  case True
  then show ?thesis
    using assms by (cases op; cases "task_runstate (tasks s t)") (auto simp: task_op_defs runstate_def split: option.splits)
next
  case False
  then show ?thesis by (simp add: has_exited_def runstate_def apply_op_other)
qed

lemma apply_op_tasklist:
  "tasklist (snd (apply_op s t op)) = tasklist s
   \<or> (has_exited s t \<and> tasklist (snd (apply_op s t op)) = (tasklist s)(task_id (tasks s t) := None))"
  by (cases op) (auto simp: task_op_defs Let_def split: option.splits)

lemma apply_op_tasks_ok:
  assumes ok: "tasks_ok s n fresh" and t: "t < n"
  shows "tasks_ok (snd (apply_op s t op)) n fresh"
proof (rule tasks_okI)
  note D = tasks_okD [OF ok]
  let ?s = "snd (apply_op s t op)"
  show "cpu_tls ?s c = Some u \<longleftrightarrow> u < n \<and> running_on_cpu (tasks ?s u) = Some c" for c u
    using D(1) by (simp add: apply_op_frame apply_op_running)
  show "tls_current ?s u = Some u \<and> \<not> fresh u" if "cpu_tls ?s c = Some u" for c u
    using D(2) that by (simp add: apply_op_frame)
  show "if fresh u then tls_current ?s u = None \<and> tasklist ?s (task_id (tasks ?s u)) = Some u else tls_current ?s u = Some u"
    if u: "u < n" "\<not> has_exited ?s u" for u
  proof -
    have live: "\<not> has_exited s u" using u(2) apply_op_exited by blast
    have "tasklist ?s (task_id (tasks s u)) = tasklist s (task_id (tasks s u))"
      using apply_op_tasklist [of s t op] inj_onD [OF D(4), of u t] live u(1) t by auto
    then show ?thesis
      using D(3) [OF u(1) live] by (simp add: apply_op_frame apply_op_same)
  qed
  show "inj_on (\<lambda>t. task_id (tasks ?s t)) {..<n}" using D(4) by (simp add: apply_op_same)
  show "task_id (tasks ?s u) < taskid_counter ?s" if "u < n" for u using D(5) that by (simp add: apply_op_same)
  show "tls_current ?s u = None \<and> \<not> fresh u" if "n \<le> u" for u using D(6) that by (simp add: apply_op_frame)
qed

lemma apply_op_queues_ok:
  assumes "queues_ok X s n rqs" and "t \<in> X' \<or> (\<forall>v. op \<noteq> Exit v) \<or> \<not> is_an_idle_task (tasks s t)" and "X \<subseteq> X'"
  shows "queues_ok X' (snd (apply_op s t op)) n rqs"
proof -
  have "is_an_idle_task (tasks s u) \<Longrightarrow> has_exited (snd (apply_op s t op)) u \<Longrightarrow> u \<in> X' \<or> has_exited s u" for u
    using assms(2) apply_op_not_exit [of u t op s] by auto
  then show ?thesis
    using assms(1,3) unfolding queues_ok_def by (simp add: apply_op_same apply_op_running apply_op_frame) blast
qed

lemma kinv_op:
  assumes "kinv X k" and "t < next_addr k" and "t \<in> X' \<or> (\<forall>v. op \<noteq> Exit v) \<or> \<not> is_an_idle_task (tasks (ktasks k) t)" and "X \<subseteq> X'"
  shows "kinv X' (k\<lparr>ktasks := snd (apply_op (ktasks k) t op)\<rparr>)"
  using assms apply_op_tasks_ok [of "ktasks k"] apply_op_queues_ok [of X "ktasks k"] by (simp add: kinv_def)

section \<open>New tasks\<close>

lemma add_queues_ok:
  assumes q: "queues_ok X s n rqs" and same: "\<And>t. t < n \<Longrightarrow> tasks s' t = tasks s t"
    and new: "\<not> has_exited s' n" "running_on_cpu (tasks s' n) = None \<or> running_on_cpu (tasks s' n) = Some c"
    and cpu: "\<And>d. cpu_tls s d \<noteq> None \<Longrightarrow> cpu_tls s' d \<noteq> None"
  shows "queues_ok X s' (Suc n) (amap_modify rqs c (\<lambda>rq. rr_add_task rq n))"
proof -
  have iq: "in_queue (amap_modify rqs c (\<lambda>rq. rr_add_task rq n)) d t \<longleftrightarrow> in_queue rqs d t \<or> (d = c \<and> t = n \<and> amap_get rqs c \<noteq> None)" for d t
    by (auto simp: in_queue_def rr_add_task_def rr_taskref_new_def)
  have ex: "t < n \<Longrightarrow> has_exited s' t = has_exited s t" for t
    by (simp add: has_exited_def runstate_def same)
  have old: "in_queue rqs d t \<Longrightarrow> t < n" for d t
    using q by (auto simp: queues_ok_def)
  show ?thesis
    unfolding queues_ok_def iq
  proof (intro conjI allI impI)
    fix d d' t
    assume "in_queue rqs d t \<or> d = c \<and> t = n \<and> amap_get rqs c \<noteq> None"
      and "in_queue rqs d' t \<or> d' = c \<and> t = n \<and> amap_get rqs c \<noteq> None"
    then show "d = d'" using q old by (auto simp: queues_ok_def)
  next
    fix d t
    assume *: "in_queue rqs d t \<or> d = c \<and> t = n \<and> amap_get rqs c \<noteq> None"
    then show "t < Suc n" using old [of d t] by auto
    show "t \<in> X" if "is_an_idle_task (tasks s' t)" "has_exited s' t"
      using * that new(1) old [of d t] ex same q by (auto simp: queues_ok_def)
    show "d' = d" if "running_on_cpu (tasks s' t) = Some d'" for d'
      using * that new(2) old [of d t] same q by (auto simp: queues_ok_def)
  next
    fix d
    assume "amap_get (amap_modify rqs c (\<lambda>rq. rr_add_task rq n)) d \<noteq> None"
    then have "amap_get rqs d \<noteq> None" by (auto split: if_splits)
    then show "cpu_tls s' d \<noteq> None" using q cpu by (auto simp: queues_ok_def)
  qed
qed

lemma grow_queues_ok:
  assumes "queues_ok X s n rqs" and "\<And>t. t < n \<Longrightarrow> tasks s' t = tasks s t" and "\<And>d. cpu_tls s d \<noteq> None \<Longrightarrow> cpu_tls s' d \<noteq> None"
  shows "queues_ok X s' (Suc n) rqs"
proof -
  have "t < n \<Longrightarrow> has_exited s' t = has_exited s t" for t
    by (simp add: has_exited_def runstate_def assms(2))
  then show ?thesis
    using assms unfolding queues_ok_def by (metis (no_types, lifting) less_Suc_eq)
qed

lemma word_less_Suc_self: "c \<noteq> (- 1 :: usize) \<Longrightarrow> c < c + 1"
proof -
  assume "c \<noteq> - 1"
  then have "unat c \<noteq> unat (- 1 :: usize)" by (simp only: word_unat_eq_iff not_False_eq_True)
  then have "unat c \<noteq> 18446744073709551615" by (simp add: unsigned_minus_1_eq_mask mask_eq_exp_minus_1)
  then show ?thesis
    using unsigned_less [of c, where 'a = nat] by (simp add: word_less_nat_alt unat_word_ariths(1))
qed

lemma counter_less_Suc: "c \<noteq> (- 1 :: usize) \<Longrightarrow> x < c \<Longrightarrow> x < c + 1"
  using word_less_Suc_self [of c] by simp

lemma add_tasks_ok:
  assumes ok: "tasks_ok s n fresh" and no_wrap: "taskid_counter s \<noteq> - 1"
    and tk: "task_id tk = taskid_counter s" "running_on_cpu tk = None"
    and s': "tasks s' = (tasks s)(n := tk)" "taskid_counter s' = taskid_counter s + 1"
      "tasklist s' = (tasklist s)(task_id tk \<mapsto> n)" "tls_current s' = tls_current s" "cpu_tls s' = cpu_tls s"
  shows "tasks_ok s' (Suc n) (fresh(n := True))"
proof (rule tasks_okI)
  note D = tasks_okD [OF ok]
  have ids: "\<forall>t<n. task_id (tasks s t) \<noteq> taskid_counter s" using D(5) by force
  have ex: "has_exited s' t = has_exited s t" if "t < n" for t using that by (simp add: has_exited_def runstate_def s')
  show "cpu_tls s' c = Some t \<longleftrightarrow> t < Suc n \<and> running_on_cpu (tasks s' t) = Some c" for c t
    using D(1) [of c t] tk(2) by (auto simp: s')
  show "tls_current s' t = Some t \<and> \<not> (fresh(n := True)) t" if "cpu_tls s' c = Some t" for c t
    using D(1,2) [of c t] that by (auto simp: s')
  show "if (fresh(n := True)) t then tls_current s' t = None \<and> tasklist s' (task_id (tasks s' t)) = Some t
      else tls_current s' t = Some t" if "t < Suc n" "\<not> has_exited s' t" for t
    using D(3) [of t] D(6) [of n] that ids ex [of t] tk(1) by (cases "t = n") (auto simp: s')
  show "inj_on (\<lambda>t. task_id (tasks s' t)) {..<Suc n}"
    using D(4) ids tk(1) by (auto simp: s' lessThan_Suc inj_on_def)
  show "task_id (tasks s' t) < taskid_counter s'" if "t < Suc n" for t
    using D(5) [of t] that tk(1) no_wrap counter_less_Suc [of "taskid_counter s"]
    by (cases "t = n") (auto simp: s' word_less_Suc_self)
  show "tls_current s' t = None \<and> \<not> (fresh(n := True)) t" if "Suc n \<le> t" for t
    using D(6) [of t] that by (simp add: s')
qed

lemma spawn_cases:
  obtains (stored) rqs where
    "snd (spawn k b) = k\<lparr>ktasks := (ktasks k)\<lparr>tasks := (tasks (ktasks k))(next_addr k := tasks (ktasks (snd (spawn k b))) (next_addr k)),
        tasklist := (tasklist (ktasks k))(taskid_counter (ktasks k) \<mapsto> next_addr k), taskid_counter := taskid_counter (ktasks k) + 1\<rparr>,
      next_addr := Suc (next_addr k), fresh_stack := (fresh_stack k)(next_addr k := True), runqueues := rqs\<rparr>"
    "rqs = runqueues k \<or> (\<exists>c. rqs = amap_modify (runqueues k) c (\<lambda>rq. rr_add_task rq (next_addr k)))"
    "task_id (tasks (ktasks (snd (spawn k b))) (next_addr k)) = taskid_counter (ktasks k)"
    "running_on_cpu (tasks (ktasks (snd (spawn k b))) (next_addr k)) = None"
    "pinned_core (tasks (ktasks (snd (spawn k b))) (next_addr k)) = None"
    "is_an_idle_task (tasks (ktasks (snd (spawn k b))) (next_addr k)) = idle b"
    "\<not> has_exited (ktasks (snd (spawn k b))) (next_addr k)"
proof -
  have add: "snd (rr_add_task_to_any_runqueue rqs t) = rqs \<or> (\<exists>c. snd (rr_add_task_to_any_runqueue rqs t) = amap_modify rqs c (\<lambda>rq. rr_add_task rq t))"
    for rqs t by (auto simp: rr_add_task_to_any_runqueue_def split: option.split list.split)
  have add': "snd (rr_add_task_to_specific_runqueue rqs c t) = rqs \<or> (\<exists>d. snd (rr_add_task_to_specific_runqueue rqs c t) = amap_modify rqs d (\<lambda>rq. rr_add_task rq t))"
    for rqs c t by (auto simp: rr_add_task_to_specific_runqueue_def split: option.split)
  note defs = spawn_def task_new_internal_def leave_initing_def alloc_task_def taskref_create_def Let_def split_beta
    has_exited_def runstate_def
  let ?rqs = "snd (case pin_on_core b of Some core \<Rightarrow> rr_add_task_to_specific_runqueue (runqueues k) core (next_addr k)
    | None \<Rightarrow> rr_add_task_to_any_runqueue (runqueues k) (next_addr k))"
  have added: "?rqs = runqueues k \<or> (\<exists>c. ?rqs = amap_modify (runqueues k) c (\<lambda>rq. rr_add_task rq (next_addr k)))"
    using add [of "runqueues k" "next_addr k"] add' [of "runqueues k" _ "next_addr k"]
    by (cases "pin_on_core b") (simp_all only: option.case)
  show ?thesis
  proof (rule stored [of "if tasklist (ktasks k) (taskid_counter (ktasks k)) = None then ?rqs else runqueues k"])
    show "(if tasklist (ktasks k) (taskid_counter (ktasks k)) = None then ?rqs else runqueues k) = runqueues k
      \<or> (\<exists>c. (if tasklist (ktasks k) (taskid_counter (ktasks k)) = None then ?rqs else runqueues k)
            = amap_modify (runqueues k) c (\<lambda>rq. rr_add_task rq (next_addr k)))"
      using added by simp
  qed (cases "pin_on_core b"; simp add: defs)+
qed

lemma spawn_kinv:
  assumes "kinv X k" and "taskid_counter (ktasks k) \<noteq> - 1"
  shows "kinv X (snd (spawn k b))"
proof (cases rule: spawn_cases [of k b])
  case (stored rqs)
  let ?s = "ktasks (snd (spawn k b))" and ?n = "next_addr k"
  have s: "tasks ?s = (tasks (ktasks k))(?n := tasks ?s ?n)" "taskid_counter ?s = taskid_counter (ktasks k) + 1"
    "tasklist ?s = (tasklist (ktasks k))(task_id (tasks ?s ?n) \<mapsto> ?n)" "tls_current ?s = tls_current (ktasks k)" "cpu_tls ?s = cpu_tls (ktasks k)"
    unfolding stored(3) by (subst stored(1), simp)+
  have k: "next_addr (snd (spawn k b)) = Suc ?n" "fresh_stack (snd (spawn k b)) = (fresh_stack k)(?n := True)"
    "runqueues (snd (spawn k b)) = rqs"
    by (subst stored(1), simp)+
  have ok: "tasks_ok (ktasks k) ?n (fresh_stack k)" and q: "queues_ok X (ktasks k) ?n (runqueues k)"
    using assms(1) by (auto simp: kinv_def)
  have old: "t < ?n \<Longrightarrow> tasks ?s t = tasks (ktasks k) t" for t
    by (subst s(1)) simp
  have "queues_ok X ?s (Suc ?n) rqs"
    using stored(2)
  proof (elim disjE exE)
    assume "rqs = runqueues k"
    then show ?thesis using grow_queues_ok [OF q old] s(5) by simp
  next
    fix c
    assume "rqs = amap_modify (runqueues k) c (\<lambda>rq. rr_add_task rq ?n)"
    then show ?thesis
      using add_queues_ok [OF q, of ?s c] old stored(4,7) s(5) by simp
  qed
  with add_tasks_ok [OF ok assms(2) stored(3,4) s] show ?thesis
    by (simp add: kinv_def k)
qed

text \<open>The state of the tasks after \<open>bootstrap_task\<close>.\<close>

definition booted :: "task_system \<Rightarrow> nat \<Rightarrow> u8 \<Rightarrow> task_system" where
  "booted s n c =
     s\<lparr>tasks := (tasks s)(n := (fst (task_new_internal s))\<lparr>task_runstate := Runnable, running_on_cpu := Some c,
         pinned_core := Some c, joinable := True\<rparr>),
       taskid_counter := taskid_counter s + 1, tls_current := (tls_current s)(n := Some n),
       cpu_tls := (cpu_tls s)(c := Some n), tasklist := (tasklist s)(taskid_counter s \<mapsto> n)\<rparr>"

lemma bootstrap_task_eq:
  assumes "tls_current s n = None"
  shows "snd (bootstrap_task s n c) = booted s n c"
    and "fst (bootstrap_task s n c) = Ok t \<Longrightarrow> t = n"
  using assms
  by (auto simp: bootstrap_task_def task_new_internal_def taskref_create_def set_as_current_task_def
      init_current_task_def booted_def Let_def split: if_splits)

lemma init_cpu_eq:
  assumes "tls_current (ktasks k) (next_addr k) = None" and "amap_get (runqueues k) c = None"
  shows "\<exists>rqs. snd (init_cpu k c) = k\<lparr>next_addr := Suc (next_addr k), ktasks := booted (ktasks k) (next_addr k) c, runqueues := rqs\<rparr>
      \<and> (rqs = snd (amap_insert (runqueues k) c \<lparr>rr_core = c, rr_queue = []\<rparr>)
        \<or> rqs = amap_modify (snd (amap_insert (runqueues k) c \<lparr>rr_core = c, rr_queue = []\<rparr>)) c (\<lambda>rq. rr_add_task rq (next_addr k)))"
proof -
  obtain rqs where ins: "amap_insert (runqueues k) c \<lparr>rr_core = c, rr_queue = []\<rparr> = (None, rqs)"
    using assms(2) amap_insert_old [of "runqueues k" c "\<lparr>rr_core = c, rr_queue = []\<rparr>"] by (metis prod.collapse)
  obtain r where b: "bootstrap_task (ktasks k) (next_addr k) c = (r, booted (ktasks k) (next_addr k) c)"
    using bootstrap_task_eq(1) [OF assms(1), of c] by (metis prod.collapse)
  then have "r = Ok t \<Longrightarrow> t = next_addr k" for t
    using bootstrap_task_eq(2) [OF assms(1), of c t] by simp
  then show ?thesis
    using ins b amap_insert_get [of "runqueues k" c "\<lparr>rr_core = c, rr_queue = []\<rparr>" c]
    by (intro exI [of _ "case r of Inl _ \<Rightarrow> rqs | Inr _ \<Rightarrow> amap_modify rqs c (\<lambda>rq. rr_add_task rq (next_addr k))"], cases r)
      (simp_all add: init_cpu_def rr_init_def Let_def rr_add_task_to_specific_runqueue_def rr_get_runqueue_def)
qed

lemma booted_tasks_ok:
  assumes ok: "tasks_ok s n fresh" and no_wrap: "taskid_counter s \<noteq> - 1" and c: "cpu_tls s c = None"
  shows "tasks_ok (booted s n c) (Suc n) fresh"
proof (rule tasks_okI)
  let ?s = "booted s n c"
  note D = tasks_okD [OF ok]
  have ids: "\<forall>t<n. task_id (tasks s t) \<noteq> taskid_counter s" using D(5) by force
  have new: "task_id (tasks ?s n) = taskid_counter s" "running_on_cpu (tasks ?s n) = Some c"
    by (simp_all add: booted_def task_new_internal_def)
  have old: "t \<noteq> n \<Longrightarrow> tasks ?s t = tasks s t" for t by (simp add: booted_def)
  have f: "taskid_counter ?s = taskid_counter s + 1" "tls_current ?s = (tls_current s)(n := Some n)"
    "cpu_tls ?s = (cpu_tls s)(c := Some n)" "tasklist ?s = (tasklist s)(taskid_counter s \<mapsto> n)"
    by (simp_all add: booted_def)
  have ex: "has_exited ?s t = has_exited s t" if "t < n" for t using that by (simp add: has_exited_def runstate_def old)
  show "cpu_tls ?s d = Some t \<longleftrightarrow> t < Suc n \<and> running_on_cpu (tasks ?s t) = Some d" for d t
    using D(1) [of d t] c new old [of t] by (cases "t = n"; cases "d = c") (auto simp: f)
  show "tls_current ?s t = Some t \<and> \<not> fresh t" if "cpu_tls ?s d = Some t" for d t
  proof (cases "d = c")
    case True
    then have t: "t = n" using that by (simp add: f)
    show ?thesis unfolding t using D(6) [of n] by (simp add: f)
  next
    case False
    then show ?thesis using that D(1,2) [of d t] by (simp add: f)
  qed
  show "if fresh t then tls_current ?s t = None \<and> tasklist ?s (task_id (tasks ?s t)) = Some t else tls_current ?s t = Some t"
    if "t < Suc n" "\<not> has_exited ?s t" for t
    using D(3) [of t] D(6) [of n] that ids ex [of t] old [of t] by (cases "t = n") (auto simp: f)
  have "inj_on (\<lambda>t. task_id (tasks ?s t)) {..<n}"
    using D(4) by (simp add: inj_on_def old)
  then show "inj_on (\<lambda>t. task_id (tasks ?s t)) {..<Suc n}"
    using ids new(1) by (auto simp: lessThan_Suc old)
  show "task_id (tasks ?s t) < taskid_counter ?s" if "t < Suc n" for t
    using D(5) [of t] that new(1) old [of t] no_wrap counter_less_Suc [of "taskid_counter s"]
    by (cases "t = n") (auto simp: f word_less_Suc_self)
  show "tls_current ?s t = None \<and> \<not> fresh t" if "Suc n \<le> t" for t
    using D(6) [of t] that by (simp add: f)
qed

lemma init_cpu_kinv:
  assumes inv: "kinv X k" and no_wrap: "taskid_counter (ktasks k) \<noteq> - 1" and c: "cpu_tls (ktasks k) c = None"
  shows "kinv X (snd (init_cpu k c))"
proof -
  let ?s = "ktasks k" and ?n = "next_addr k"
  let ?rqs = "snd (amap_insert (runqueues k) c \<lparr>rr_core = c, rr_queue = []\<rparr>)" and ?s' = "booted (ktasks k) (next_addr k) c"
  have ok: "tasks_ok ?s ?n (fresh_stack k)" and q: "queues_ok X ?s ?n (runqueues k)"
    using inv by (auto simp: kinv_def)
  have none: "amap_get (runqueues k) c = None" using q c by (auto simp: queues_ok_def)
  have iq: "in_queue ?rqs d t = in_queue (runqueues k) d t" for d t
    using none by (auto simp: in_queue_def)
  let ?s0 = "?s\<lparr>cpu_tls := (cpu_tls ?s)(c := Some ?n)\<rparr>"
  have q0: "queues_ok X ?s0 ?n ?rqs"
    using q unfolding queues_ok_def iq by (auto simp: has_exited_def runstate_def)
  have old: "t < ?n \<Longrightarrow> tasks ?s' t = tasks ?s0 t" for t by (simp add: booted_def)
  have cpu: "cpu_tls ?s0 d \<noteq> None \<Longrightarrow> cpu_tls ?s' d \<noteq> None" for d by (simp add: booted_def)
  have new: "\<not> has_exited ?s' ?n" "running_on_cpu (tasks ?s' ?n) = None \<or> running_on_cpu (tasks ?s' ?n) = Some c"
    by (simp_all add: booted_def task_new_internal_def has_exited_def runstate_def)
  obtain rqs where rqs: "snd (init_cpu k c) = k\<lparr>next_addr := Suc ?n, ktasks := ?s', runqueues := rqs\<rparr>"
    "rqs = ?rqs \<or> rqs = amap_modify ?rqs c (\<lambda>rq. rr_add_task rq ?n)"
    using init_cpu_eq [OF _ none] tasks_okD(6) [OF ok, of ?n] by auto
  have "queues_ok X ?s' (Suc ?n) rqs"
    using rqs(2) grow_queues_ok [OF q0 old cpu] add_queues_ok [OF q0 old new cpu] by blast
  then show ?thesis
    using booted_tasks_ok [OF ok no_wrap c] by (simp add: kinv_def rqs(1))
qed

section \<open>The transition system\<close>

lemma remove_kinv:
  assumes inv: "kinv X k" and run: "cpu_tls (ktasks k) c = Some t"
  shows "kinv (X - {t}) (remove_current_task_from_runqueue k c t)"
proof -
  have ok: "tasks_ok (ktasks k) (next_addr k) (fresh_stack k)" and q: "queues_ok X (ktasks k) (next_addr k) (runqueues k)"
    using inv by (auto simp: kinv_def)
  let ?rqs = "amap_modify (runqueues k) c (\<lambda>rq. rr_remove_task rq t)"
  have "in_queue (runqueues k) d t \<Longrightarrow> d = c" for d
    using queues_okD(3) [OF q, of d t c] run tasks_okD(1) [OF ok, of c t] by simp
  then have "in_queue ?rqs d u \<longleftrightarrow> in_queue (runqueues k) d u \<and> u \<noteq> t" for d u
    by (auto simp: in_queue_modify rr_remove_task_def in_queue_def)
  then have "queues_ok (X - {t}) (ktasks k) (next_addr k) ?rqs"
    using q unfolding queues_ok_def by (auto split: if_splits)
  then show ?thesis using ok by (simp add: remove_current_task_from_runqueue_def kinv_def)
qed

lemma running_addr: "kinv X k \<Longrightarrow> cpu_tls (ktasks k) c = Some t \<Longrightarrow> t < next_addr k"
  using tasks_okD(1) [of "ktasks k" "next_addr k"] by (auto simp: kinv_def)

lemma internal_exit_op: "snd (internal_exit s t v) = snd (apply_op s t (Exit v))"
  by (simp add: apply_op_def)

lemma cleanup_exit_kinv:
  assumes inv: "kinv X k" and run: "cpu_tls (ktasks k) c = Some t"
  shows "\<exists>k'. cleanup_exit k t v = Some k' \<and> kinv (insert t X) k' \<and> cpu_tls (ktasks k') c = Some t
    \<and> taskid_counter (ktasks k') = taskid_counter (ktasks k)"
proof -
  let ?k = "k\<lparr>ktasks := snd (internal_exit (ktasks k) t v)\<rparr>"
  have "running_on_cpu (tasks (ktasks k) t) \<noteq> None"
    using inv run tasks_okD(1) [of "ktasks k" "next_addr k" "fresh_stack k" c t] by (simp add: kinv_def)
  then have "fst (internal_exit (ktasks k) t v) \<noteq> None"
    by (auto simp: internal_exit_def is_running_def Let_def split: option.split)
  then have "cleanup_exit k t v = Some ?k"
    by (cases "internal_exit (ktasks k) t v") (auto simp: cleanup_exit_def)
  moreover have "kinv (insert t X) ?k"
    unfolding internal_exit_op by (rule kinv_op [OF inv running_addr [OF inv run]]) auto
  ultimately show ?thesis
    using run by (simp add: internal_exit_op apply_op_frame apply_op_same)
qed

lemma cleanup_final_kinv:
  assumes inv: "kinv {t} k" and run: "cpu_tls (ktasks k) c = Some t"
  shows "kinv {} (task_cleanup_final_internal k c t)"
proof -
  let ?k = "remove_current_task_from_runqueue k c t"
  have "kinv {} ?k" using remove_kinv [OF inv run] by simp
  moreover have "t < next_addr ?k"
    using running_addr [OF inv run] by (simp add: remove_current_task_from_runqueue_def)
  ultimately have "kinv {} (?k\<lparr>ktasks := snd (apply_op (ktasks ?k) t ReapIfOrphaned)\<rparr>)"
    by (rule kinv_op) auto
  then show ?thesis by (simp add: task_cleanup_final_internal_def apply_op_def Let_def)
qed

lemma cleanup_kinv:
  assumes "kinv {} k" and "cpu_tls (ktasks k) c = Some t"
  shows "\<exists>r k'. (do { k \<leftarrow> cleanup_exit k t v; task_cleanup_final k c t sp }) = Some (r, k') \<and> kinv {} k'"
proof -
  obtain k1 where k1: "cleanup_exit k t v = Some k1" "kinv {t} k1" "cpu_tls (ktasks k1) c = Some t"
    using cleanup_exit_kinv [OF assms, of v] by blast
  from schedule_kinv [OF cleanup_final_kinv [OF k1(2,3)], of c True sp] k1(1) show ?thesis
    by (auto simp: task_cleanup_final_def)
qed

lemma spawn_cpu: "cpu_tls (ktasks (snd (spawn k b))) = cpu_tls (ktasks k)"
proof (cases rule: spawn_cases [of k b])
  case (stored rqs)
  show ?thesis by (subst stored(1)) simp
qed

lemma respawn_kinv:
  assumes "kinv X k" and "taskid_counter (ktasks k) \<noteq> - 1" and "respawn k t = Some k'" and "cpu_tls (ktasks k) c = Some u"
  shows "kinv X k' \<and> cpu_tls (ktasks k') c = Some u"
proof (cases "restart_info (tasks (ktasks k) t)")
  case (Some info)
  define b where "b = (case task_pinned_core (ktasks k) t of
      Some core \<Rightarrow> builder_new\<lparr>restart := Some info, pin_on_core := Some core\<rparr> | None \<Rightarrow> builder_new\<lparr>restart := Some info\<rparr>)"
  have "respawn k t = (case spawn k b of (Inr _, k) \<Rightarrow> Some k | (Inl _, _) \<Rightarrow> None)"
    by (simp add: respawn_def Some b_def Let_def split: option.split)
  then have "k' = snd (spawn k b)"
    using assms(3) by (auto split: prod.splits sum.splits)
  then show ?thesis
    using spawn_kinv [OF assms(1,2)] assms(4) by (simp add: spawn_cpu)
qed (use assms in \<open>simp add: respawn_def\<close>)

text \<open>The steps: a CPU is started once; a task spawns another one, until the identifiers run out; a CPU calls
  the scheduler; the current task of a CPU ends; a bootstrap task finishes; any task changes the state of
  any task, except that idle tasks are not killed.\<close>

inductive kstep :: "kernel \<Rightarrow> kernel \<Rightarrow> bool" where
  init: "cpu_tls (ktasks k) c = None \<Longrightarrow> taskid_counter (ktasks k) \<noteq> - 1 \<Longrightarrow> kstep k (snd (init_cpu k c))"
| spawn: "taskid_counter (ktasks k) \<noteq> - 1 \<Longrightarrow> kstep k (snd (spawn k b))"
| schedule: "schedule k c pe sp = Some (r, k') \<Longrightarrow> kstep k k'"
| success: "cpu_tls (ktasks k) c = Some t \<Longrightarrow> task_cleanup_success k c t v sp = Some (r, k') \<Longrightarrow> kstep k k'"
| failure: "cpu_tls (ktasks k) c = Some t \<Longrightarrow> task_cleanup_failure k c t reason sp = Some (r, k') \<Longrightarrow> kstep k k'"
| restart_success: "cpu_tls (ktasks k) c = Some t \<Longrightarrow> taskid_counter (ktasks k) \<noteq> - 1 \<Longrightarrow>
    task_restartable_cleanup_success k c t v sp = Some (r, k') \<Longrightarrow> kstep k k'"
| restart_failure: "cpu_tls (ktasks k) c = Some t \<Longrightarrow> taskid_counter (ktasks k) \<noteq> - 1 \<Longrightarrow>
    task_restartable_cleanup_failure k c t reason sp = Some (r, k') \<Longrightarrow> kstep k k'"
| finish: "cpu_tls (ktasks k) c = Some t \<Longrightarrow> bootstrap_finish k c t = Some k' \<Longrightarrow> kstep k k'"
| op: "t < next_addr k \<Longrightarrow> (\<forall>v. op \<noteq> Exit v) \<or> \<not> is_an_idle_task (tasks (ktasks k) t) \<Longrightarrow>
    kstep k (k\<lparr>ktasks := snd (apply_op (ktasks k) t op)\<rparr>)"

inductive reachable :: "kernel \<Rightarrow> bool" where
  boot: "reachable kernel_boot"
| step: "reachable k \<Longrightarrow> kstep k k' \<Longrightarrow> reachable k'"

lemma restart_kinv:
  assumes inv: "kinv {} k" and run: "cpu_tls (ktasks k) c = Some t" and no_wrap: "taskid_counter (ktasks k) \<noteq> - 1"
    and r: "(do { k \<leftarrow> cleanup_exit k t v; task_restartable_cleanup_final k c t sp }) = Some (r, k')"
  shows "kinv {} k'"
proof -
  obtain k1 where k1: "cleanup_exit k t v = Some k1" "kinv {t} k1" "cpu_tls (ktasks k1) c = Some t"
    "taskid_counter (ktasks k1) = taskid_counter (ktasks k)"
    using cleanup_exit_kinv [OF inv run, of v] by blast
  then obtain k2 where k2: "respawn k1 t = Some k2"
    using r by (cases "respawn k1 t") (auto simp: task_restartable_cleanup_final_def)
  then have "kinv {t} k2" "cpu_tls (ktasks k2) c = Some t"
    using respawn_kinv [OF k1(2) _ k2 k1(3)] k1(4) no_wrap by auto
  from schedule_kinv [OF cleanup_final_kinv [OF this], of c True sp] k1(1) k2 r show ?thesis
    by (auto simp: task_restartable_cleanup_final_def)
qed

lemma finish_kinv:
  assumes inv: "kinv {} k" and run: "cpu_tls (ktasks k) c = Some t" and r: "bootstrap_finish k c t = Some k'"
  shows "kinv {} k'"
proof -
  let ?k = "remove_current_task_from_runqueue k c t"
  have k: "kinv {} ?k" using remove_kinv [OF inv run] by simp
  have t: "t < next_addr ?k"
    using running_addr [OF inv run] by (simp add: remove_current_task_from_runqueue_def)
  have q: "\<not> in_queue (runqueues ?k) d t" for d
    using kinv_def inv queues_okD(3) [of "{}" "ktasks k" "next_addr k" "runqueues k" d t c]
      run tasks_okD(1) [of "ktasks k" "next_addr k" "fresh_stack k" c t]
    by (auto simp: remove_current_task_from_runqueue_def in_queue_modify rr_remove_task_def kinv_def)
  have k': "k' = ?k\<lparr>ktasks := snd (apply_op (ktasks ?k) t (Exit (Completed 0)))\<rparr>"
    using r by (auto simp: bootstrap_finish_def Let_def apply_op_def split: prod.splits option.splits sum.splits)
  have "kinv {t} k'" unfolding k' by (rule kinv_op [OF k t]) auto
  then show ?thesis
    using queues_ok_drop [of "{t}" "ktasks k'" "next_addr k'" "runqueues k'" t] q by (simp add: kinv_def k')
qed

lemma kstep_kinv: "kstep k k' \<Longrightarrow> kinv {} k \<Longrightarrow> kinv {} k'"
proof (induction rule: kstep.induct)
  case (schedule k c pe sp r k')
  then show ?case using schedule_kinv [of k c pe sp] by auto
next
  case (success k c t v sp r k')
  then show ?case using cleanup_kinv [of k c t "Completed v" sp] by (auto simp: task_cleanup_success_def)
next
  case (failure k c t reason sp r k')
  then show ?case using cleanup_kinv [of k c t "Killed reason" sp] by (auto simp: task_cleanup_failure_def)
next
  case (op t k op)
  then show ?case by (intro kinv_op) auto
qed (auto simp: init_cpu_kinv spawn_kinv finish_kinv task_restartable_cleanup_success_def task_restartable_cleanup_failure_def
  intro: restart_kinv)

lemma reachable_kinv: "reachable k \<Longrightarrow> kinv {} k"
proof (induction rule: reachable.induct)
  case boot
  show ?case
    by (simp add: kernel_boot_def kinv_def tasks_ok_def queues_ok_def in_queue_def amap_new_def)
qed (rule kstep_kinv)

section \<open>Properties\<close>

definition example_kernel :: kernel where
  "example_kernel = snd (spawn (snd (init_cpu kernel_boot 0)) builder_new)"

lemma example_reachable: "reachable example_kernel" "reachable (snd (init_cpu kernel_boot 0))"
proof -
  have "kstep kernel_boot (snd (init_cpu kernel_boot 0))"
    by (rule kstep.init) (simp_all add: kernel_boot_def)
  then show r: "reachable (snd (init_cpu kernel_boot 0))"
    using reachable.boot reachable.step by blast
  have "kstep (snd (init_cpu kernel_boot 0)) example_kernel"
    unfolding example_kernel_def
    by (rule kstep.spawn) (simp add: init_cpu_def rr_init_def amap_insert_def kernel_boot_def amap_new_def bootstrap_task_def task_new_internal_def
      taskref_create_def set_as_current_task_def init_current_task_def rr_add_task_to_specific_runqueue_def rr_get_runqueue_def Let_def)
  with r show "reachable example_kernel" by (rule reachable.step)
qed

text \<open>
  (C3) In every reachable state of the tasks, the run queues and the scheduler, no task is current on two
  CPUs. The task that is current on a CPU records that CPU as the one it runs on, finds itself in
  \<open>CURRENT_TASK\<close>, and waits in the run queue of no other CPU.
\<close>
theorem task_on_one_cpu:
  assumes "reachable k" and "cpu_tls (ktasks k) c = Some t"
  shows "running_on_cpu (tasks (ktasks k) t) = Some c \<and> with_current_task (ktasks k) c = Some t
    \<and> (\<forall>c'. cpu_tls (ktasks k) c' = Some t \<longrightarrow> c' = c) \<and> (\<forall>c'. in_queue (runqueues k) c' t \<longrightarrow> c' = c)"
proof -
  have ok: "tasks_ok (ktasks k) (next_addr k) (fresh_stack k)" and q: "queues_ok {} (ktasks k) (next_addr k) (runqueues k)"
    using reachable_kinv [OF assms(1)] by (auto simp: kinv_def)
  have "with_current_task (ktasks k) c = Some t"
    using tasks_okD(2) [OF ok assms(2)] assms(2) by (simp add: with_current_task_def)
  then show ?thesis
    using tasks_okD(1) [OF ok, of _ t] queues_okD(3) [OF q, of _ t c] assms(2) by auto
qed

theorem task_on_one_cpu_witness: "with_current_task (ktasks (snd (init_cpu kernel_boot 0))) 0 = Some 0"
proof -
  have "cpu_tls (ktasks (snd (init_cpu kernel_boot 0))) 0 = Some 0"
    by (simp add: init_cpu_def rr_init_def amap_insert_def kernel_boot_def amap_new_def bootstrap_task_def task_new_internal_def
      taskref_create_def set_as_current_task_def init_current_task_def rr_add_task_to_specific_runqueue_def rr_get_runqueue_def Let_def)
  from task_on_one_cpu [OF example_reachable(2) this] show ?thesis by simp
qed



text \<open>
  A task spawned with \<open>pin_on_core\<close> does not record the core: \<open>pinned_core\<close> stays \<open>None\<close>. When a restartable
  task ends, the task spawned in its place is therefore not pinned, and it is not an idle task even if the
  task that ended was one; so the CPU of an idle task that failed loses its idle task.
\<close>
lemma restarted_task_not_idle:
  assumes "restart_info (tasks (ktasks k) t) \<noteq> None" and "respawn k t = Some k'"
  shows "pinned_core (tasks (ktasks (snd (spawn k b))) (next_addr k)) = None
    \<and> \<not> is_an_idle_task (tasks (ktasks k') (next_addr k)) \<and> pinned_core (tasks (ktasks k') (next_addr k)) = None"
proof -
  have spawned: "pinned_core (tasks (ktasks (snd (spawn k b))) (next_addr k)) = None
      \<and> is_an_idle_task (tasks (ktasks (snd (spawn k b))) (next_addr k)) = idle b" for b
    by (cases rule: spawn_cases [of k b]) blast
  obtain info where info: "restart_info (tasks (ktasks k) t) = Some info" using assms(1) by blast
  define b' where "b' = (case task_pinned_core (ktasks k) t of
      Some core \<Rightarrow> builder_new\<lparr>restart := Some info, pin_on_core := Some core\<rparr> | None \<Rightarrow> builder_new\<lparr>restart := Some info\<rparr>)"
  have "respawn k t = (case spawn k b' of (Inr _, k) \<Rightarrow> Some k | (Inl _, _) \<Rightarrow> None)"
    by (simp add: respawn_def info b'_def Let_def split: option.split)
  then have "k' = snd (spawn k b')"
    using assms(2) by (auto split: prod.splits sum.splits)
  moreover have "\<not> idle b'" by (simp add: b'_def builder_new_def split: option.split)
  ultimately show ?thesis using spawned [of b] spawned [of b'] by simp
qed

end
