(* ===== verification/TokenPriority.thy ===== *)
theory TokenPriority
  imports Schedulers
begin

text \<open>
  The token-based priority scheduler. Every epoch gives each ready task at least one token and a selection
  takes one, so a ready task waits for at most the tokens of one epoch and one turn of the queue.
\<close>

section \<open>Selection in the queue of one CPU\<close>

text \<open>The parts of the selection that concern one queue, without the map of queues.\<close>

definition eligible :: "task_system \<Rightarrow> prio_taskref \<Rightarrow> bool" where
  "eligible s x \<longleftrightarrow> ready s (prio_task x) \<and> tokens_remaining x \<noteq> 0"

definition unpinned :: "task_system \<Rightarrow> u8 \<Rightarrow> prio_taskref list \<Rightarrow> bool" where
  "unpinned s c q \<longleftrightarrow> (\<forall>x\<in>set q. ready s (prio_task x) \<longrightarrow> \<not> pinned_elsewhere s c (prio_task x))"

definition move_end :: "prio_taskref list \<Rightarrow> nat \<Rightarrow> usize \<Rightarrow> prio_taskref list" where
  "move_end q i tokens =
     take i q @ drop (Suc i) q @ [prio_increment_context_switches ((q ! i)\<lparr>tokens_remaining := tokens\<rparr>)]"

lemma prio_update_move_end:
  "i < length (prio_queue rq) \<Longrightarrow>
   prio_update_and_move_to_end rq i k = (Some (prio_task (prio_queue rq ! i)), rq\<lparr>prio_queue := move_end (prio_queue rq) i k\<rparr>)"
  by (simp add: prio_update_and_move_to_end_def remove_at_def move_end_def prio_increment_context_switches_def)

lemma scan_tokens_unpinned:
  assumes "unpinned s c q"
  shows "\<exists>idle'. scan_tokens s c i q idle = Some (map_option (\<lambda>n. n + i) (find_index (eligible s) q), idle')
    \<and> (\<forall>k. idle' = Some k \<longrightarrow> idle = Some k \<or> (i \<le> k \<and> k < i + length q \<and> is_an_idle_task (tasks s (prio_task (q ! (k - i))))))"
  using assms
proof (induction q arbitrary: i idle)
  case (Cons x q)
  have unp: "unpinned s c q" using Cons.prems by (simp add: unpinned_def)
  have shift: "k - i = Suc (k - Suc i)" if "Suc i \<le> k" for k using that by simp
  show ?case
  proof (cases "is_an_idle_task (tasks s (prio_task x))")
    case True
    obtain idle' where "scan_tokens s c (Suc i) q (Some i) = Some (map_option (\<lambda>n. n + Suc i) (find_index (eligible s) q), idle')"
      and id: "\<And>k. idle' = Some k \<Longrightarrow> Some i = Some k \<or> (Suc i \<le> k \<and> k < Suc i + length q \<and> is_an_idle_task (tasks s (prio_task (q ! (k - Suc i)))))"
      using Cons.IH [OF unp, of "Suc i" "Some i"] by auto
    moreover have "\<not> eligible s x" using True by (simp add: eligible_def ready_def)
    ultimately show ?thesis
      using True shift by (intro exI [of _ idle']) (auto simp: option.map_comp comp_def dest!: id)
  next
    case False
    show ?thesis
    proof (cases "eligible s x")
      case True
      then show ?thesis
        using Cons.prems by (auto simp: eligible_def ready_def unpinned_def)
    next
      case ne: False
      obtain idle' where "scan_tokens s c (Suc i) q idle = Some (map_option (\<lambda>n. n + Suc i) (find_index (eligible s) q), idle')"
        and id: "\<And>k. idle' = Some k \<Longrightarrow> idle = Some k \<or> (Suc i \<le> k \<and> k < Suc i + length q \<and> is_an_idle_task (tasks s (prio_task (q ! (k - Suc i)))))"
        using Cons.IH [OF unp, of "Suc i" idle] by auto
      moreover have "scan_tokens s c i (x # q) idle = scan_tokens s c (Suc i) q idle"
        using ne False Cons.prems by (auto simp: eligible_def ready_def unpinned_def)
      ultimately show ?thesis
        using ne shift by (intro exI [of _ idle']) (auto simp: option.map_comp comp_def dest!: id)
    qed
  qed
qed simp

lemma select_priority_eligible:
  assumes "amap_get rqs c = Some rq" and "unpinned s c (prio_queue rq)"
    and "find_index (eligible s) (prio_queue rq) = Some i"
  shows "select_next_task_priority s rqs c =
    (Some \<lparr>ntr_taskref = Some (prio_task (prio_queue rq ! i)), ntr_idle_task = False\<rparr>,
     amap_modify rqs c (\<lambda>_. rq\<lparr>prio_queue := move_end (prio_queue rq) i (saturating_sub (tokens_remaining (prio_queue rq ! i)) 1)\<rparr>))"
proof -
  have "i < length (prio_queue rq)" using assms(3) by (simp add: find_index_Some)
  moreover obtain idle where "scan_tokens s c 0 (prio_queue rq) None = Some (Some i, idle)"
    using scan_tokens_unpinned [OF assms(2), of 0 None] assms(3) by auto
  ultimately show ?thesis
    by (simp add: select_next_task_priority_def prio_get_runqueue_def assms(1) option_or_def prio_update_move_end)
qed

text \<open>When no task has tokens, either nothing changes or an idle task moves to the end, and a new epoch begins.\<close>

lemma select_priority_none:
  assumes "amap_get rqs c = Some rq" and "unpinned s c (prio_queue rq)"
    and "find_index (eligible s) (prio_queue rq) = None"
  shows "select_next_task_priority s rqs c = (None, rqs)
    \<or> (\<exists>k t. k < length (prio_queue rq) \<and> is_an_idle_task (tasks s (prio_task (prio_queue rq ! k)))
        \<and> select_next_task_priority s rqs c =
            (Some \<lparr>ntr_taskref = t, ntr_idle_task = True\<rparr>, amap_modify rqs c (\<lambda>_. rq\<lparr>prio_queue := move_end (prio_queue rq) k 0\<rparr>)))"
proof -
  obtain idle where sc: "scan_tokens s c 0 (prio_queue rq) None = Some (None, idle)"
    and id: "\<And>k. idle = Some k \<Longrightarrow> k < length (prio_queue rq) \<and> is_an_idle_task (tasks s (prio_task (prio_queue rq ! k)))"
    using scan_tokens_unpinned [OF assms(2), of 0 None] assms(3) by auto
  show ?thesis
  proof (cases idle)
    case None
    then show ?thesis
      by (simp add: select_next_task_priority_def prio_get_runqueue_def assms(1) option_or_def sc)
  next
    case (Some k)
    with id [of k] show ?thesis
      by (auto simp: select_next_task_priority_def prio_get_runqueue_def assms(1) option_or_def sc prio_update_move_end)
  qed
qed

section \<open>A new epoch\<close>

lemma total_priorities_unpinned:
  "unpinned s c q \<Longrightarrow> 0 < tot \<Longrightarrow> \<exists>tot'. total_priorities s c q tot = Some tot' \<and> 0 < tot'"
proof (induction q arbitrary: tot)
  case (Cons x q)
  have unp: "unpinned s c q" using Cons.prems by (simp add: unpinned_def)
  have "0 < saturating_add (saturating_add tot 1) (ucast (priority x) :: usize)"
    using Cons.prems(2) by (simp add: word_less_nat_alt unat_saturating_add unat_gt_0)
  then show ?case
    using Cons unp by (auto simp: unpinned_def ready_def)
qed simp

definition fresh_tokens :: "task_system \<Rightarrow> prio_taskref \<Rightarrow> prio_taskref \<Rightarrow> bool" where
  "fresh_tokens s x y \<longleftrightarrow>
     (if ready s (prio_task x) then prio_task y = prio_task x \<and> 0 < tokens_remaining y else y = x)"

lemma saturating_mul_ge: "0 < b \<Longrightarrow> a \<le> saturating_mul a b"
proof (cases "uint a * uint b < 2 ^ 64")
  case True
  assume "0 < b"
  then have "1 \<le> uint b" by (simp add: word_less_def)
  then have "uint a * 1 \<le> uint a * uint b" by (intro mult_left_mono) simp_all
  moreover have "uint (a * b) = uint a * uint b"
    using True uint_mult_lem [of a b] by simp
  ultimately show ?thesis
    using True by (simp add: saturating_mul_def word_le_def)
qed (simp add: saturating_mul_def word_order.extremum)

lemma epoch_tokens_pos:
  assumes "0 < tot" "tot \<le> epoch"
  shows "0 < saturating_mul epoch (saturating_add (ucast (p :: u8)) 1) div (tot :: usize)"
proof -
  have "0 < saturating_add (ucast p) (1 :: usize)"
    by (simp add: word_less_nat_alt unat_saturating_add)
  then have "tot \<le> saturating_mul epoch (saturating_add (ucast p) 1)"
    using saturating_mul_ge assms(2) order_trans by blast
  then show ?thesis
    using assms(1) by (simp add: word_less_nat_alt unat_div_distrib word_le_nat_alt div_greater_zero_iff)
qed

lemma give_tokens_fresh:
  assumes "unpinned s c q" "0 < tot" "tot \<le> epoch"
  shows "fst (give_tokens s c epoch tot q) \<and> list_all2 (fresh_tokens s) q (snd (give_tokens s c epoch tot q))"
  using assms(1)
proof (induction q)
  case (Cons x q)
  have unp: "unpinned s c q" using Cons.prems by (simp add: unpinned_def)
  show ?case
    using Cons.IH [OF unp] Cons.prems epoch_tokens_pos [OF assms(2,3), of "priority x"]
    by (auto simp: unpinned_def ready_def fresh_tokens_def)
qed simp

lemma assign_tokens_fresh:
  assumes "amap_get rqs c = Some rq" and "unpinned s c (prio_queue rq)"
  shows "\<exists>q. assign_tokens s rqs c = (True, amap_modify rqs c (\<lambda>_. rq\<lparr>prio_queue := q\<rparr>))
    \<and> list_all2 (fresh_tokens s) (prio_queue rq) q"
proof -
  obtain tot where tot: "total_priorities s c (prio_queue rq) 1 = Some tot" "0 < tot"
    using total_priorities_unpinned [OF assms(2), of 1] by auto
  let ?g = "give_tokens s c (max tot 100) tot (prio_queue rq)"
  have "fst ?g" "list_all2 (fresh_tokens s) (prio_queue rq) (snd ?g)"
    using give_tokens_fresh [OF assms(2) tot(2), of "max tot 100"] by auto
  moreover have "assign_tokens s rqs c = (fst ?g, amap_modify rqs c (\<lambda>_. rq\<lparr>prio_queue := snd ?g\<rparr>))"
    by (simp add: assign_tokens_def prio_get_runqueue_def assms(1) tot(1) Let_def split_beta)
  ultimately show ?thesis
    by (intro exI [of _ "snd ?g"]) simp
qed

section \<open>Waiting\<close>

definition tokens_sum :: "prio_taskref list \<Rightarrow> nat" where
  "tokens_sum q = (\<Sum>x\<leftarrow>q. unat (tokens_remaining x))"

definition index_of :: "taskref \<Rightarrow> prio_taskref list \<Rightarrow> nat option" where
  "index_of w q = find_index (\<lambda>x. prio_task x = w) q"

text \<open>An upper bound on the selections before \<open>w\<close> is selected.\<close>

definition wait_bound :: "taskref \<Rightarrow> prio_taskref list \<Rightarrow> nat" where
  "wait_bound w q =
     (case index_of w q of
        Some p \<Rightarrow> if tokens_remaining (q ! p) \<noteq> 0 then p else tokens_sum q + length q
      | None \<Rightarrow> 0)"

lemma move_end_length [simp]: "i < length q \<Longrightarrow> length (move_end q i k) = length q"
  by (simp add: move_end_def)

definition same_tasks :: "prio_taskref list \<Rightarrow> prio_taskref list \<Rightarrow> bool" where
  "same_tasks q q' \<longleftrightarrow> prio_task ` set q = prio_task ` set q'"

lemma same_tasks_trans: "same_tasks q1 q2 \<Longrightarrow> same_tasks q2 q3 \<Longrightarrow> same_tasks q1 q3"
  by (simp add: same_tasks_def)

lemma move_end_tasks: "i < length q \<Longrightarrow> same_tasks (move_end q i k) q"
proof -
  assume "i < length q"
  then have "q = take i q @ q ! i # drop (Suc i) q" by (rule id_take_nth_drop)
  then have "set q = set (take i q) \<union> insert (q ! i) (set (drop (Suc i) q))"
    by (metis set_append list.simps(15))
  then show ?thesis
    by (auto simp: same_tasks_def move_end_def prio_increment_context_switches_def)
qed

lemma move_end_sum:
  assumes "i < length q"
  shows "tokens_sum (move_end q i k) + unat (tokens_remaining (q ! i)) = tokens_sum q + unat k"
proof -
  have q: "q = take i q @ q ! i # drop (Suc i) q" using assms by (rule id_take_nth_drop)
  have "tokens_sum q = tokens_sum (take i q @ q ! i # drop (Suc i) q)" by (subst q [symmetric]) (rule refl)
  then show ?thesis
    by (simp add: move_end_def tokens_sum_def prio_increment_context_switches_def)
qed

lemma move_end_before:
  assumes "index_of w q = Some p" and "i < p"
  shows "index_of w (move_end q i k) = Some (p - 1) \<and> move_end q i k ! (p - 1) = q ! p"
proof -
  have p: "p < length q" "prio_task (q ! p) = w" "\<And>j. j < p \<Longrightarrow> prio_task (q ! j) \<noteq> w"
    using assms(1) by (auto simp: index_of_def find_index_Some)
  have nth: "move_end q i k ! j = (if j < i then q ! j else q ! Suc j)" if "Suc j < length q" for j
    using that assms(2) p(1) by (auto simp: move_end_def nth_append min_def)
  show ?thesis
    using p assms(2) by (auto simp: index_of_def find_index_Some nth)
qed

lemma move_end_after:
  assumes "index_of w q = Some p" and "p < i" and "i < length q"
  shows "index_of w (move_end q i k) = Some p \<and> move_end q i k ! p = q ! p"
  using assms by (auto simp: index_of_def find_index_Some move_end_def nth_append)

lemma fresh_tokens_waits:
  assumes "list_all2 (fresh_tokens s) q q'" and "index_of w q = Some p" and "ready s w"
  shows "index_of w q' = Some p \<and> tokens_remaining (q' ! p) \<noteq> 0 \<and> same_tasks q' q"
proof -
  have tasks: "map prio_task q' = map prio_task q"
    using assms(1) by (induction rule: list_all2_induct) (auto simp: fresh_tokens_def split: if_splits)
  then have "index_of w q' = Some p"
    using assms(2) find_index_map [of "\<lambda>t. t = w" prio_task q] find_index_map [of "\<lambda>t. t = w" prio_task q']
    by (simp add: index_of_def comp_def)
  moreover have p: "p < length q" "prio_task (q ! p) = w"
    using assms(2) by (auto simp: index_of_def find_index_Some)
  moreover have "fresh_tokens s (q ! p) (q' ! p)"
    using list_all2_nthD [OF assms(1) p(1)] .
  ultimately show ?thesis
    using assms(3) arg_cong [OF tasks, of set] by (auto simp: fresh_tokens_def same_tasks_def simp del: image_eqI)
qed

lemma wait_bound_less: "index_of w q = Some p \<Longrightarrow> wait_bound w q \<le> tokens_sum q + length q"
  by (auto simp: wait_bound_def) (auto simp: index_of_def find_index_Some)

lemma unpinned_tasks: "same_tasks q q' \<Longrightarrow> unpinned s c q = unpinned s c q'"
proof -
  assume "same_tasks q q'"
  moreover have "unpinned s c q = (\<forall>t\<in>prio_task ` set q. ready s t \<longrightarrow> \<not> pinned_elsewhere s c t)" for q
    by (auto simp: unpinned_def)
  ultimately show ?thesis by (simp only: same_tasks_def)
qed

text \<open>What a selection that does not choose \<open>w\<close> leaves behind: \<open>w\<close> waits in the queue, for fewer selections.\<close>

definition waits_less :: "taskref \<Rightarrow> nat \<Rightarrow> prio_taskref list \<Rightarrow> prio_taskref list \<Rightarrow> bool" where
  "waits_less w n q q' \<longleftrightarrow> same_tasks q' q \<and> index_of w q' \<noteq> None \<and> wait_bound w q' < n"

lemma select_priority_with_tokens:
  assumes "amap_get rqs c = Some rq" and "unpinned s c (prio_queue rq)" and "ready s w"
    and "index_of w (prio_queue rq) = Some p" and "tokens_remaining (prio_queue rq ! p) \<noteq> 0"
  shows "\<exists>t rq'. select_next_task_priority s rqs c =
      (Some \<lparr>ntr_taskref = Some t, ntr_idle_task = False\<rparr>, amap_modify rqs c (\<lambda>_. rq'))
    \<and> (t = w \<or> waits_less w p (prio_queue rq) (prio_queue rq'))"
proof -
  let ?q = "prio_queue rq"
  have p: "p < length ?q" "prio_task (?q ! p) = w"
    using assms(4) by (auto simp: index_of_def find_index_Some)
  then have el: "eligible s (?q ! p)" using assms(3,5) by (simp add: eligible_def)
  then obtain i where i: "find_index (eligible s) ?q = Some i"
    using p by (cases "find_index (eligible s) ?q") (auto simp: find_index_None)
  then have il: "i \<le> p" "i < length ?q"
    using el p by (auto simp: find_index_Some not_less [symmetric])
  let ?q' = "move_end ?q i (saturating_sub (tokens_remaining (?q ! i)) 1)"
  have "prio_task (?q ! i) = w \<or> waits_less w p ?q ?q'"
  proof (cases "i = p")
    case False
    then have "i < p" using il(1) by simp
    from move_end_before [OF assms(4) this] show ?thesis
      using \<open>i < p\<close> assms(5) move_end_tasks [OF il(2)] by (simp add: waits_less_def wait_bound_def)
  qed (use p in simp)
  then show ?thesis
    using select_priority_eligible [OF assms(1,2) i]
    by (intro exI [of _ "prio_task (?q ! i)"] exI [of _ "rq\<lparr>prio_queue := ?q'\<rparr>"]) simp
qed

lemma select_priority_no_tokens:
  assumes "amap_get rqs c = Some rq" and "unpinned s c (prio_queue rq)" and "ready s w"
    and "index_of w (prio_queue rq) = Some p" and "find_index (eligible s) (prio_queue rq) = None"
  shows "\<exists>rq1 p1. amap_get (snd (select_next_task_priority s rqs c)) c = Some rq1 \<and> index_of w (prio_queue rq1) = Some p1
      \<and> length (prio_queue rq1) = length (prio_queue rq) \<and> same_tasks (prio_queue rq1) (prio_queue rq)
      \<and> (case fst (select_next_task_priority s rqs c) of Some r \<Rightarrow> ntr_idle_task r | None \<Rightarrow> True)"
  using select_priority_none [OF assms(1,2,5)]
proof (elim disjE exE conjE)
  let ?q = "prio_queue rq"
  fix k t
  assume k: "k < length ?q" and idle: "is_an_idle_task (tasks s (prio_task (?q ! k)))"
    and sel: "select_next_task_priority s rqs c =
      (Some \<lparr>ntr_taskref = t, ntr_idle_task = True\<rparr>, amap_modify rqs c (\<lambda>_. rq\<lparr>prio_queue := move_end ?q k 0\<rparr>))"
  have "k \<noteq> p" using idle assms(3,4) by (auto simp: ready_def index_of_def find_index_Some)
  then obtain p1 where "index_of w (move_end ?q k 0) = Some p1"
    using move_end_before [OF assms(4), of k 0] move_end_after [OF assms(4) _ k, of 0] by (cases "k < p") auto
  then show ?thesis
    using sel k assms(1) move_end_tasks [OF k, of 0] by simp
qed (use assms(1,4) in \<open>simp add: same_tasks_def\<close>)

text \<open>The second selection, after the tokens of a new epoch.\<close>

lemma new_epoch_waits:
  assumes "amap_get rqs c = Some rq" and "unpinned s c (prio_queue rq)" and "ready s w"
    and "index_of w (prio_queue rq) = Some p"
  shows "\<exists>t rq'. select_next_task_priority s (snd (assign_tokens s rqs c)) c =
      (Some \<lparr>ntr_taskref = Some t, ntr_idle_task = False\<rparr>, amap_modify (snd (assign_tokens s rqs c)) c (\<lambda>_. rq'))
    \<and> amap_get (snd (assign_tokens s rqs c)) c \<noteq> None
    \<and> (t = w \<or> waits_less w p (prio_queue rq) (prio_queue rq'))"
proof -
  let ?rqs = "snd (assign_tokens s rqs c)"
  obtain q2 where q2: "?rqs = amap_modify rqs c (\<lambda>_. rq\<lparr>prio_queue := q2\<rparr>)" "list_all2 (fresh_tokens s) (prio_queue rq) q2"
    using assign_tokens_fresh [OF assms(1,2)] by auto
  have fresh: "index_of w q2 = Some p" "tokens_remaining (q2 ! p) \<noteq> 0" "same_tasks q2 (prio_queue rq)"
    using fresh_tokens_waits [OF q2(2) assms(4,3)] by auto
  have get: "amap_get ?rqs c = Some (rq\<lparr>prio_queue := q2\<rparr>)"
    using q2(1) assms(1) by simp
  have unp: "unpinned s c (prio_queue (rq\<lparr>prio_queue := q2\<rparr>))"
    using assms(2) unpinned_tasks [OF fresh(3)] by simp
  from select_priority_with_tokens [OF get unp assms(3)] fresh(1,2)
  obtain t rq' where "select_next_task_priority s ?rqs c =
      (Some \<lparr>ntr_taskref = Some t, ntr_idle_task = False\<rparr>, amap_modify ?rqs c (\<lambda>_. rq'))"
    and "t = w \<or> waits_less w p q2 (prio_queue rq')"
    by fastforce
  moreover have "waits_less w p q2 q' \<Longrightarrow> waits_less w p (prio_queue rq) q'" for q'
    using same_tasks_trans [OF _ fresh(3)] by (auto simp: waits_less_def)
  ultimately show ?thesis
    using get by blast
qed

lemma waits_less_mono: "waits_less w n q q' \<Longrightarrow> n \<le> m \<Longrightarrow> same_tasks q q0 \<Longrightarrow> waits_less w m q0 q'"
  using same_tasks_trans by (auto simp: waits_less_def)

lemma prio_select_waits:
  assumes rq: "amap_get rqs c = Some rq" and unp: "unpinned s c (prio_queue rq)" and w: "ready s w"
    and p: "index_of w (prio_queue rq) = Some p"
  shows "fst (prio_select_next_task s rqs c) = Some w
    \<or> (\<exists>rq'. amap_get (snd (prio_select_next_task s rqs c)) c = Some rq'
        \<and> waits_less w (wait_bound w (prio_queue rq)) (prio_queue rq) (prio_queue rq'))"
proof (cases "tokens_remaining (prio_queue rq ! p) = 0")
  case False
  then have "wait_bound w (prio_queue rq) = p" using p by (simp add: wait_bound_def)
  then show ?thesis
    using select_priority_with_tokens [OF rq unp w p False] rq by (auto simp: prio_select_next_task_def)
next
  case zero: True
  let ?q = "prio_queue rq"
  have bound: "wait_bound w ?q = tokens_sum ?q + length ?q" using p zero by (simp add: wait_bound_def)
  show ?thesis
  proof (cases "find_index (eligible s) ?q")
    case (Some i)
    then have i: "i < length ?q" "tokens_remaining (?q ! i) \<noteq> 0" "i \<noteq> p"
      using zero by (auto simp: find_index_Some eligible_def)
    let ?k = "saturating_sub (tokens_remaining (?q ! i)) 1"
    have "tokens_sum (move_end ?q i ?k) < tokens_sum ?q"
    proof -
      have "0 < unat (tokens_remaining (?q ! i))" using i(2) by (simp add: unat_gt_0)
      moreover have "unat ?k = unat (tokens_remaining (?q ! i)) - 1" by (simp add: unat_saturating_sub)
      ultimately show ?thesis using move_end_sum [OF i(1), of ?k] by linarith
    qed
    moreover have "\<exists>p'. index_of w (move_end ?q i ?k) = Some p' \<and> move_end ?q i ?k ! p' = ?q ! p"
      using move_end_before [OF p, of i ?k] move_end_after [OF p _ i(1), of ?k] i(3) by (cases "i < p") auto
    ultimately have "waits_less w (wait_bound w ?q) ?q (move_end ?q i ?k)"
      using zero i(1) move_end_tasks [OF i(1)] unfolding bound by (auto simp: waits_less_def wait_bound_def)
    then show ?thesis
      using select_priority_eligible [OF rq unp Some] rq by (simp add: prio_select_next_task_def)
  next
    case None
    let ?r = "select_next_task_priority s rqs c"
    obtain rq1 p1 where rq1: "amap_get (snd ?r) c = Some rq1" "index_of w (prio_queue rq1) = Some p1"
      "length (prio_queue rq1) = length ?q" "same_tasks (prio_queue rq1) ?q"
      and idle: "case fst ?r of Some r \<Rightarrow> ntr_idle_task r | None \<Rightarrow> True"
      using select_priority_no_tokens [OF rq unp w p None] by blast
    have again: "prio_select_next_task s rqs c =
        (let (r, rqs) = select_next_task_priority s (snd (assign_tokens s (snd ?r) c)) c in (Option.bind r ntr_taskref, rqs))"
      using idle by (simp add: prio_select_next_task_def split_beta Let_def split: option.splits)
    have unp1: "unpinned s c (prio_queue rq1)" using unp unpinned_tasks [OF rq1(4)] by simp
    have "p1 \<le> wait_bound w ?q" using rq1(2,3) by (auto simp: bound index_of_def find_index_Some)
    then show ?thesis
      using new_epoch_waits [OF rq1(1) unp1 w rq1(2)] waits_less_mono [OF _ _ rq1(4), of w p1 _ "wait_bound w ?q"]
      unfolding again by auto
  qed
qed

section \<open>Traces\<close>

datatype prio_event =
    PrioSelect u8 | PrioAddAny taskref | PrioAddTo u8 taskref | PrioRemove u8 taskref
  | PrioSetPriority taskref u8 | PrioEnv task_system

fun prio_exec ::
  "task_system \<times> prio_runqueues \<Rightarrow> prio_event \<Rightarrow> (u8 \<times> taskref option) list \<times> (task_system \<times> prio_runqueues)" where
  "prio_exec (s, rqs) (PrioSelect c) = (let (t, rqs) = prio_select_next_task s rqs c in ([(c, t)], (s, rqs)))"
| "prio_exec (s, rqs) (PrioAddAny t) = ([], (s, snd (prio_add_task_to_any_runqueue rqs t)))"
| "prio_exec (s, rqs) (PrioAddTo c t) = ([], (s, snd (prio_add_task_to_specific_runqueue rqs c t)))"
| "prio_exec (s, rqs) (PrioRemove c t) = ([], (s, amap_modify rqs c (\<lambda>rq. prio_remove_task rq t)))"
| "prio_exec (s, rqs) (PrioSetPriority t p) = ([], (s, set_priority rqs t p))"
| "prio_exec (s, rqs) (PrioEnv s') = ([], (s', rqs))"

fun prio_trace :: "task_system \<times> prio_runqueues \<Rightarrow> prio_event list \<Rightarrow> (u8 \<times> taskref option) list" where
  "prio_trace st [] = []"
| "prio_trace st (e # es) = (let (out, st) = prio_exec st e in out @ prio_trace st es)"

text \<open>Events that leave \<open>w\<close> ready in the queue of CPU \<open>c\<close>, and that queue without tasks pinned to other CPUs:
  only tasks of the set \<open>A\<close> are added to the queues, and none of them is pinned elsewhere.\<close>

definition may_run :: "task_system \<Rightarrow> u8 \<Rightarrow> taskref \<Rightarrow> taskref set \<Rightarrow> bool" where
  "may_run s c w A \<longleftrightarrow> ready s w \<and> (\<forall>t\<in>A. \<not> pinned_elsewhere s c t)"

fun prio_keeps :: "u8 \<Rightarrow> taskref \<Rightarrow> taskref set \<Rightarrow> prio_event \<Rightarrow> bool" where
  "prio_keeps c w A (PrioAddAny t) \<longleftrightarrow> t \<in> A"
| "prio_keeps c w A (PrioAddTo c' t) \<longleftrightarrow> t \<in> A"
| "prio_keeps c w A (PrioRemove c' t) \<longleftrightarrow> c' \<noteq> c \<or> t \<noteq> w"
| "prio_keeps c w A (PrioEnv s) \<longleftrightarrow> may_run s c w A"
| "prio_keeps c w A _ \<longleftrightarrow> True"

fun is_add :: "prio_event \<Rightarrow> bool" where
  "is_add (PrioAddAny t) = True"
| "is_add (PrioAddTo c t) = True"
| "is_add _ = False"

definition prio_waits :: "task_system \<times> prio_runqueues \<Rightarrow> u8 \<Rightarrow> taskref \<Rightarrow> taskref set \<Rightarrow> nat \<Rightarrow> bool" where
  "prio_waits st c w A n \<longleftrightarrow> may_run (fst st) c w A
     \<and> (\<exists>rq. amap_get (snd st) c = Some rq \<and> prio_task ` set (prio_queue rq) \<subseteq> A
         \<and> index_of w (prio_queue rq) \<noteq> None \<and> wait_bound w (prio_queue rq) \<le> n)"

lemma prio_waits_modify:
  assumes "prio_waits (s, rqs) c w A n"
    and "\<And>rq. prio_task ` set (prio_queue rq) \<subseteq> A \<Longrightarrow> index_of w (prio_queue rq) \<noteq> None \<Longrightarrow> wait_bound w (prio_queue rq) \<le> n \<Longrightarrow> c' = c \<Longrightarrow>
           prio_task ` set (prio_queue (f rq)) \<subseteq> A \<and> index_of w (prio_queue (f rq)) \<noteq> None \<and> wait_bound w (prio_queue (f rq)) \<le> n + k"
  shows "prio_waits (s, amap_modify rqs c' f) c w A (n + k)"
  using assms by (cases "c' = c") (auto simp: prio_waits_def)

lemma index_of_append: "index_of w q = Some p \<Longrightarrow> index_of w (q @ q') = Some p"
  by (simp add: index_of_def find_index_append)

lemma prio_task_new [simp]: "prio_task (prio_taskref_new t) = t"
  by (simp add: prio_taskref_new_def)

lemma wait_bound_add:
  assumes "index_of w q \<noteq> None"
  shows "index_of w (q @ [prio_taskref_new t]) \<noteq> None \<and> wait_bound w (q @ [prio_taskref_new t]) \<le> wait_bound w q + 11"
proof -
  obtain p where p: "index_of w q = Some p" using assms by blast
  then have "p < length q" by (simp add: index_of_def find_index_Some)
  then show ?thesis
    using index_of_append [OF p, of "[prio_taskref_new t]"] p
    by (simp add: wait_bound_def nth_append tokens_sum_def prio_taskref_new_def INITIAL_TOKENS_def)
qed

lemma wait_bound_remove:
  assumes "index_of w q \<noteq> None" and "t \<noteq> w"
  shows "index_of w (filter (\<lambda>x. prio_task x \<noteq> t) q) \<noteq> None \<and> wait_bound w (filter (\<lambda>x. prio_task x \<noteq> t) q) \<le> wait_bound w q"
proof -
  let ?q = "filter (\<lambda>x. prio_task x \<noteq> t) q"
  obtain p where p: "index_of w q = Some p" using assms by blast
  have imp: "prio_task x = w \<Longrightarrow> prio_task x \<noteq> t" for x using assms(2) by simp
  obtain p' where p': "p' \<le> p" "index_of w ?q = Some p'"
    using find_index_filter [OF p [unfolded index_of_def], of "\<lambda>x. prio_task x \<noteq> t"] imp by (auto simp: index_of_def)
  have "?q ! p' = q ! p"
    using find_index_find [OF p [unfolded index_of_def]] find_index_find [OF p'(2) [unfolded index_of_def]]
      find_filter [of "\<lambda>x. prio_task x = w" "\<lambda>x. prio_task x \<noteq> t" q, OF imp] by simp
  moreover have "tokens_sum ?q \<le> tokens_sum q"
    by (induction q) (auto simp: tokens_sum_def)
  ultimately show ?thesis
    using p p' by (auto simp: wait_bound_def intro: add_mono length_filter_le)
qed

lemma index_of_length: "index_of w q = Some p \<Longrightarrow> p < length q"
  by (simp add: index_of_def find_index_Some)

lemma wait_bound_set_priority:
  "index_of w (map (\<lambda>x. if prio_task x = t then x\<lparr>priority := k\<rparr> else x) q) = index_of w q
   \<and> wait_bound w (map (\<lambda>x. if prio_task x = t then x\<lparr>priority := k\<rparr> else x) q) = wait_bound w q"
proof -
  let ?f = "\<lambda>x :: prio_taskref. if prio_task x = t then x\<lparr>priority := k\<rparr> else x"
  have "(\<lambda>x. prio_task x = w) \<circ> ?f = (\<lambda>x. prio_task x = w)" by (auto simp: fun_eq_iff)
  then have ix: "index_of w (map ?f q) = index_of w q" by (simp only: index_of_def find_index_map)
  have "tokens_sum (map ?f q) = tokens_sum q"
    unfolding tokens_sum_def by (induction q) auto
  then show ?thesis
    using ix index_of_length [of w q] by (auto simp: wait_bound_def split: option.split)
qed

lemma prio_waits_add:
  assumes "prio_waits (s, rqs) c w A n" and "t \<in> A"
  shows "prio_waits (s, amap_modify rqs c' (\<lambda>rq. prio_add_task rq t)) c w A (n + 11)"
proof (rule prio_waits_modify [OF assms(1)])
  fix rq :: prio_runqueue
  assume "prio_task ` set (prio_queue rq) \<subseteq> A" "index_of w (prio_queue rq) \<noteq> None" "wait_bound w (prio_queue rq) \<le> n"
  with wait_bound_add [of w "prio_queue rq" t]
  show "prio_task ` set (prio_queue (prio_add_task rq t)) \<subseteq> A \<and> index_of w (prio_queue (prio_add_task rq t)) \<noteq> None
      \<and> wait_bound w (prio_queue (prio_add_task rq t)) \<le> n + 11"
    using assms(2) by (simp add: prio_add_task_def)
qed

lemma prio_waits_remove:
  assumes "prio_waits (s, rqs) c w A n" and "c' \<noteq> c \<or> t \<noteq> w"
  shows "prio_waits (s, amap_modify rqs c' (\<lambda>rq. prio_remove_task rq t)) c w A (n + 0)"
proof (rule prio_waits_modify [OF assms(1)])
  fix rq :: prio_runqueue
  assume "prio_task ` set (prio_queue rq) \<subseteq> A" "index_of w (prio_queue rq) \<noteq> None" "wait_bound w (prio_queue rq) \<le> n" "c' = c"
  with wait_bound_remove [of w "prio_queue rq" t]
  show "prio_task ` set (prio_queue (prio_remove_task rq t)) \<subseteq> A \<and> index_of w (prio_queue (prio_remove_task rq t)) \<noteq> None
      \<and> wait_bound w (prio_queue (prio_remove_task rq t)) \<le> n + 0"
    using assms(2) by (auto simp: prio_remove_task_def)
qed

lemma prio_select_other: "c' \<noteq> c \<Longrightarrow> amap_get (snd (prio_select_next_task s rqs c')) c = amap_get rqs c"
proof -
  assume ne: "c' \<noteq> c"
  have sel: "amap_get (snd (select_next_task_priority s rqs c')) c = amap_get rqs c" for rqs
    using ne by (simp add: select_next_task_priority_def split_beta Let_def split: option.split)
  have asg: "amap_get (snd (assign_tokens s rqs c')) c = amap_get rqs c" for rqs
    using ne by (simp add: assign_tokens_def split_beta Let_def split: option.split)
  show ?thesis
    by (simp add: prio_select_next_task_def split_beta Let_def sel asg split: option.split)
qed

lemma prio_select_trace:
  assumes "prio_waits (s, rqs) c w A n"
  shows "fst (prio_select_next_task s rqs c) = Some w
    \<or> (\<exists>n'<n. prio_waits (s, snd (prio_select_next_task s rqs c)) c w A n')"
proof -
  obtain rq p where rq: "amap_get rqs c = Some rq" "prio_task ` set (prio_queue rq) \<subseteq> A" "index_of w (prio_queue rq) = Some p"
    "wait_bound w (prio_queue rq) \<le> n" and run: "may_run s c w A"
    using assms by (auto simp: prio_waits_def)
  have "unpinned s c (prio_queue rq)" "ready s w"
    using rq(2) run by (auto simp: unpinned_def may_run_def)
  from prio_select_waits [OF rq(1) this rq(3)] show ?thesis
  proof (elim disjE exE conjE)
    fix rq'
    assume rq': "amap_get (snd (prio_select_next_task s rqs c)) c = Some rq'"
      and less: "waits_less w (wait_bound w (prio_queue rq)) (prio_queue rq) (prio_queue rq')"
    have "prio_waits (s, snd (prio_select_next_task s rqs c)) c w A (wait_bound w (prio_queue rq'))"
      using rq' less rq(2) run by (auto simp: prio_waits_def waits_less_def same_tasks_def)
    moreover have "wait_bound w (prio_queue rq') < n"
      using less rq(4) by (simp add: waits_less_def)
    ultimately show ?thesis by blast
  qed blast
qed

lemma prio_exec_waits:
  assumes "prio_waits st c w A n" and "prio_keeps c w A e"
  shows "(c, Some w) \<in> set (fst (prio_exec st e))
    \<or> (\<exists>n'. n' + length (filter (\<lambda>(c', _). c' = c) (fst (prio_exec st e))) \<le> n + (if is_add e then 11 else 0)
        \<and> prio_waits (snd (prio_exec st e)) c w A n')"
proof -
  obtain s rqs where st: "st = (s, rqs)" by force
  note w = assms(1) [unfolded st]
  have add: "t \<in> A \<Longrightarrow> prio_waits (s, amap_modify rqs c' (\<lambda>rq. prio_add_task rq t)) c w A (n + 11)" for c' t
    by (rule prio_waits_add [OF w])
  have keep: "prio_waits (s, rqs) c w A (n + 11)"
    using w by (auto simp: prio_waits_def)
  show ?thesis
  proof (cases e)
    case (PrioSelect c')
    show ?thesis
    proof (cases "c' = c")
      case True
      then show ?thesis
        using prio_select_trace [OF w] PrioSelect st by (auto simp: split_beta)
    next
      case False
      then show ?thesis
        using w PrioSelect st prio_select_other [of c' c s rqs] by (auto simp: split_beta prio_waits_def)
    qed
  next
    case (PrioAddAny t)
    then show ?thesis
      using add [of t] keep st assms(2)
      by (auto simp: prio_add_task_to_any_runqueue_def intro!: exI [of _ "n + 11"] split: option.split list.split)
  next
    case (PrioAddTo c' t)
    then show ?thesis
      using add [of t] keep st assms(2)
      by (auto simp: prio_add_task_to_specific_runqueue_def intro!: exI [of _ "n + 11"] split: option.split)
  next
    case (PrioRemove c' t)
    have "prio_waits (s, amap_modify rqs c' (\<lambda>rq. prio_remove_task rq t)) c w A (n + 0)"
      by (rule prio_waits_remove [OF w]) (use assms(2) PrioRemove in auto)
    then show ?thesis using PrioRemove st by (auto intro!: exI [of _ n])
  next
    case (PrioSetPriority t k)
    then show ?thesis
      using w st by (auto simp: prio_waits_def set_priority_def rq_set_priority_def set_priority_internal_def wait_bound_set_priority image_subset_iff
        intro!: exI [of _ n])
  next
    case (PrioEnv s')
    then show ?thesis using assms st by (auto simp: prio_waits_def intro!: exI [of _ n])
  qed
qed

section \<open>Properties\<close>

definition example_prio_queues :: prio_runqueues where
  "example_prio_queues =
     [(0, \<lparr>prio_core = 0, prio_queue = map (\<lambda>t. (prio_taskref_new t)\<lparr>tokens_remaining := if t = 1 then 1 else 0\<rparr>) [1, 2]\<rparr>)]"

text \<open>
  (C7) Bounded waiting under priorities: a task that stays runnable in the queue of a CPU is selected
  there before the tokens of the current epoch and one turn of the queue are used up, whatever its
  priority; each task that is added to a queue meanwhile costs at most 11 selections more. Other tasks may
  block, exit and wake up, and priorities may change, but no task of the queue may be pinned to another
  CPU.
\<close>
theorem prio_bounded_waiting:
  assumes "may_run s c w A" and "amap_get rqs c = Some rq" and "prio_task ` set (prio_queue rq) \<subseteq> A"
    and "w \<in> prio_task ` set (prio_queue rq)" and "\<forall>e\<in>set es. prio_keeps c w A e"
    and "tokens_sum (prio_queue rq) + length (prio_queue rq) + 11 * length (filter is_add es)
      < length (filter (\<lambda>(c', _). c' = c) (prio_trace (s, rqs) es))"
  shows "(c, Some w) \<in> set (prio_trace (s, rqs) es)"
proof -
  have trace: "(c, Some w) \<in> set (prio_trace st es)"
    if "prio_waits st c w A n" and "\<forall>e\<in>set es. prio_keeps c w A e"
      and "n + 11 * length (filter is_add es) < length (filter (\<lambda>(c', _). c' = c) (prio_trace st es))" for st n
    using that
  proof (induction es arbitrary: st n)
    case (Cons e es)
    have tr: "prio_trace st (e # es) = fst (prio_exec st e) @ prio_trace (snd (prio_exec st e)) es"
      by (simp add: split_beta)
    have "prio_keeps c w A e" using Cons.prems(2) by simp
    from prio_exec_waits [OF Cons.prems(1) this] show ?case
    proof (elim disjE exE conjE)
      fix n'
      assume n': "n' + length (filter (\<lambda>(c', _). c' = c) (fst (prio_exec st e))) \<le> n + (if is_add e then 11 else 0)"
        and "prio_waits (snd (prio_exec st e)) c w A n'"
      moreover have "n' + 11 * length (filter is_add es) < length (filter (\<lambda>(c', _). c' = c) (prio_trace (snd (prio_exec st e)) es))"
        using n' Cons.prems(3) unfolding tr by (auto split: if_splits)
      ultimately show ?thesis
        using Cons.IH [of "snd (prio_exec st e)" n'] Cons.prems(2) unfolding tr by simp
    qed (unfold tr, simp)
  qed simp
  have "index_of w (prio_queue rq) \<noteq> None"
    using assms(4) by (auto simp: index_of_def find_index_None)
  then obtain p where "index_of w (prio_queue rq) = Some p" by blast
  then have "prio_waits (s, rqs) c w A (tokens_sum (prio_queue rq) + length (prio_queue rq))"
    using assms(1-3) wait_bound_less by (auto simp: prio_waits_def)
  from trace [OF this assms(5,6)] show ?thesis .
qed

lemma example_prio_run: "may_run example_tasks 0 2 {1, 2, 3}"
  by (simp add: may_run_def pinned_elsewhere_def task_pinned_core_def ready_def is_runnable_def is_suspended_def
    runstate_def example_tasks_def task_new_internal_def)

lemma prio_trace_selects: "length (filter (\<lambda>(c', _). c' = c) (prio_trace st (replicate n (PrioSelect c)))) = n"
proof (induction n arbitrary: st)
  case (Suc n)
  then show ?case by (cases st) (simp add: split_beta)
qed simp

theorem prio_bounded_waiting_witness:
  "(0, Some 2) \<in> set (prio_trace (example_tasks, example_prio_queues) (PrioAddTo 0 3 # replicate 15 (PrioSelect 0)))"
proof (rule prio_bounded_waiting [OF example_prio_run])
  show "amap_get example_prio_queues 0 = Some (snd (hd example_prio_queues))"
    by (simp add: example_prio_queues_def)
  show "2 \<in> prio_task ` set (prio_queue (snd (hd example_prio_queues)))"
    by (simp add: example_prio_queues_def)
  show "prio_task ` set (prio_queue (snd (hd example_prio_queues))) \<subseteq> {1, 2, 3}"
    by (simp add: example_prio_queues_def)
  show "tokens_sum (prio_queue (snd (hd example_prio_queues))) + length (prio_queue (snd (hd example_prio_queues)))
      + 11 * length (filter is_add (PrioAddTo 0 3 # replicate 15 (PrioSelect 0)))
      < length (filter (\<lambda>(c', _). c' = 0) (prio_trace (example_tasks, example_prio_queues) (PrioAddTo 0 3 # replicate 15 (PrioSelect 0))))"
    by (simp add: example_prio_queues_def tokens_sum_def prio_trace_selects)
qed simp

end
