(* ===== verification/RateMonotonic.thy ===== *)
theory RateMonotonic
  imports Schedulers "HOL-Library.Multiset"
begin

text \<open>
  The rate-monotonic scheduler: every operation keeps the queues sorted by period, aperiodic tasks last,
  so the first runnable task is one with the shortest period.
\<close>

section \<open>Insertion\<close>

text \<open>The order of the periods: an aperiodic task comes after all periodic ones.\<close>

definition rank :: "rt_taskref \<Rightarrow> nat" where
  "rank x = (case period x of Some p \<Rightarrow> unat p | None \<Rightarrow> 2 ^ 64)"

abbreviation by_period :: "rt_taskref list \<Rightarrow> bool" where
  "by_period q \<equiv> sorted (map rank q)"

lemma has_smaller_period_rank: "has_smaller_period x y \<longleftrightarrow> rank x < rank y"
proof -
  have "unat p < 2 ^ 64" for p :: usize
    using unsigned_less [of p, where 'a = nat] by simp
  then show ?thesis
    by (auto simp: has_smaller_period_def rank_def word_less_nat_alt less_le_not_le [of "_ :: nat"] split: option.split)
qed

text \<open>The reference: after the tasks with the same or a shorter period, before the others.\<close>

definition stable_insert :: "rt_taskref \<Rightarrow> rt_taskref list \<Rightarrow> rt_taskref list" where
  "stable_insert x q = filter (\<lambda>y. rank y \<le> rank x) q @ x # filter (\<lambda>y. rank x < rank y) q"

lemma rank_aperiodic: "period x = None \<Longrightarrow> rank y \<le> rank x"
  using unsigned_less [of "_ :: usize", where 'a = nat]
  by (auto simp: rank_def less_imp_le split: option.split)

lemma take_sorted_split:
  assumes "by_period q" and "i < length q" and "rank x < rank (q ! i)" and "\<forall>j<i. \<not> rank x < rank (q ! j)"
  shows "filter (\<lambda>y. rank y \<le> rank x) q = take i q" and "filter (\<lambda>y. rank x < rank y) q = drop i q"
proof -
  have q: "q = take i q @ drop i q" by simp
  have before: "\<forall>y\<in>set (take i q). rank y \<le> rank x"
    using assms(2,4) by (auto simp: in_set_conv_nth not_less)
  have after: "\<forall>y\<in>set (drop i q). rank x < rank y"
  proof
    fix y
    assume "y \<in> set (drop i q)"
    then obtain j where "j < length q - i" "y = q ! (i + j)" by (auto simp: in_set_conv_nth)
    then have "rank (q ! i) \<le> rank y"
      using sorted_nth_mono [OF assms(1), of i "i + j"] assms(2) by simp
    then show "rank x < rank y" using assms(3) by simp
  qed
  show "filter (\<lambda>y. rank y \<le> rank x) q = take i q"
    by (subst q, subst filter_append) (use before after in \<open>auto simp: filter_id_conv filter_empty_conv not_le\<close>)
  show "filter (\<lambda>y. rank x < rank y) q = drop i q"
    by (subst q, subst filter_append) (use before after in \<open>auto simp: filter_id_conv filter_empty_conv not_less\<close>)
qed

lemma insert_stable:
  assumes "by_period q"
  shows "insert_at_proper_location q x = stable_insert x q"
proof (cases "find_index (has_smaller_period x) q")
  case None
  then have "\<forall>y\<in>set q. rank y \<le> rank x"
    by (auto simp: find_index_None has_smaller_period_rank not_less)
  then have "stable_insert x q = q @ [x]"
    by (auto simp: stable_insert_def filter_id_conv filter_empty_conv not_less)
  with None show ?thesis by (simp add: insert_at_proper_location_def split: option.split)
next
  case (Some i)
  then have i: "i < length q" "rank x < rank (q ! i)" "\<forall>j<i. \<not> rank x < rank (q ! j)"
    by (auto simp: find_index_Some has_smaller_period_rank)
  then have "period x \<noteq> None" using rank_aperiodic [of x "q ! i"] by auto
  with Some i take_sorted_split [OF assms i] show ?thesis
    by (auto simp: insert_at_proper_location_def insert_at_def stable_insert_def)
qed

lemma insert_sorted_periods:
  assumes "by_period q"
  shows "by_period (insert_at_proper_location q x)"
  unfolding insert_stable [OF assms]
  using assms by (auto simp: stable_insert_def sorted_append sorted_filter intro: order_trans less_imp_le)

lemma insert_mset: "mset (insert_at_proper_location q x) = add_mset x (mset q)"
  by (auto simp: insert_at_proper_location_def insert_at_def split: option.split)
    (metis append_take_drop_id mset_append)

lemma remove_at_mset: "remove_at q i = Some (x, q') \<Longrightarrow> mset q = add_mset x (mset q')"
  by (auto simp: remove_at_def split: if_splits)
    (metis id_take_nth_drop mset.simps(2) mset_append union_mset_add_mset_right)

lemma remove_at_sorted: "by_period q \<Longrightarrow> remove_at q i = Some (x, q') \<Longrightarrow> by_period q'"
proof -
  assume s: "by_period q" and "remove_at q i = Some (x, q')"
  then have q': "q' = take i q @ drop (Suc i) q" and "i < length q" by (auto simp: remove_at_def split: if_splits)
  then have "q = take i q @ [q ! i] @ drop (Suc i) q" by (simp add: id_take_nth_drop)
  then have "sorted (map rank (take i q @ [q ! i] @ drop (Suc i) q))" using s by simp
  then show ?thesis unfolding q' map_append sorted_append by auto
qed

section \<open>Traces\<close>

datatype rt_event =
    RtSelect u8 | RtAddAny taskref | RtAddTo u8 taskref | RtRemove u8 taskref | RtSetPeriod taskref usize | RtEnv task_system

fun rt_exec :: "task_system \<times> rt_runqueues \<Rightarrow> rt_event \<Rightarrow> task_system \<times> rt_runqueues" where
  "rt_exec (s, rqs) (RtSelect c) = (s, snd (rt_select_next_task s rqs c))"
| "rt_exec (s, rqs) (RtAddAny t) = (s, snd (rt_add_task_to_any_runqueue rqs t))"
| "rt_exec (s, rqs) (RtAddTo c t) = (s, snd (rt_add_task_to_specific_runqueue rqs c t))"
| "rt_exec (s, rqs) (RtRemove c t) = (s, amap_modify rqs c (\<lambda>rq. rt_remove_task rq t))"
| "rt_exec (s, rqs) (RtSetPeriod t p) = (s, set_periodicity rqs t p)"
| "rt_exec (s, rqs) (RtEnv s') = (s', rqs)"

definition rt_run :: "task_system \<times> rt_runqueues \<Rightarrow> rt_event list \<Rightarrow> task_system \<times> rt_runqueues" where
  "rt_run st es = foldl rt_exec st es"

definition rt_inv :: "rt_runqueues \<Rightarrow> bool" where
  "rt_inv rqs \<longleftrightarrow> (\<forall>c rq. amap_get rqs c = Some rq \<longrightarrow> by_period (rt_queue rq))"

lemma rt_inv_modify:
  assumes "rt_inv rqs" and "\<And>rq. by_period (rt_queue rq) \<Longrightarrow> by_period (rt_queue (f rq))"
  shows "rt_inv (amap_modify rqs c f)" and "rt_inv (amap_modify_all rqs f)"
  using assms by (auto simp: rt_inv_def)

lemma rt_add_inv: "by_period (rt_queue rq) \<Longrightarrow> by_period (rt_queue (rt_add_task rq t p))"
  by (simp add: rt_add_task_def insert_sorted_periods)

lemma rt_remove_inv: "by_period (rt_queue rq) \<Longrightarrow> by_period (rt_queue (rt_remove_task rq t))"
  by (simp add: rt_remove_task_def rt_remove_internal_def sorted_filter)

lemma set_periodicity_inv: "by_period (rt_queue rq) \<Longrightarrow> by_period (rt_queue (set_periodicity_internal rq t p))"
  by (auto simp: set_periodicity_internal_def insert_sorted_periods remove_at_sorted split: option.split)

lemma rt_reinsert_inv: "by_period (rt_queue rq) \<Longrightarrow> by_period (rt_queue (snd (rt_update_and_reinsert rq i)))"
  by (auto simp: rt_update_and_reinsert_def insert_sorted_periods remove_at_sorted Let_def split: option.split)

lemma rt_exec_inv: "rt_inv (snd st) \<Longrightarrow> rt_inv (snd (rt_exec st e))"
proof (cases st)
  case (Pair s rqs)
  assume "rt_inv (snd st)"
  then have inv: "rt_inv rqs" using Pair by simp
  show ?thesis
  proof (cases e)
    case (RtSelect c)
    have "rt_inv (amap_modify rqs c (\<lambda>_. snd (rt_update_and_reinsert rq i)))" if "amap_get rqs c = Some rq" for rq i
      using inv that rt_reinsert_inv by (auto simp: rt_inv_def)
    then show ?thesis
      using inv RtSelect Pair
      by (auto simp: rt_select_next_task_def rt_get_runqueue_def Let_def split_beta split: option.split)
  next
    case (RtAddAny t)
    then show ?thesis
      using inv Pair rt_inv_modify(1) [OF inv rt_add_inv]
      by (auto simp: rt_add_task_to_any_runqueue_def split: option.split list.split)
  next
    case (RtAddTo c t)
    then show ?thesis
      using inv Pair rt_inv_modify(1) [OF inv rt_add_inv] by (auto simp: rt_add_task_to_specific_runqueue_def split: option.split)
  next
    case (RtRemove c t)
    then show ?thesis using Pair rt_inv_modify(1) [OF inv rt_remove_inv] by simp
  next
    case (RtSetPeriod t p)
    then show ?thesis using Pair rt_inv_modify(2) [OF inv set_periodicity_inv] by (simp add: set_periodicity_def)
  qed (use inv Pair in simp)
qed

lemma rt_run_inv: "rt_inv (snd st) \<Longrightarrow> rt_inv (snd (rt_run st es))"
  unfolding rt_run_def by (induction es arbitrary: st) (auto simp: rt_exec_inv)

section \<open>Properties\<close>

definition example_rt_queues :: rt_runqueues where
  "example_rt_queues = [(0, \<lparr>rt_core = 0, rt_queue = [rt_taskref_new 1 (Some 10), rt_taskref_new 2 None]\<rparr>)]"

text \<open>
  (C13) Whatever is added, removed, selected and given another period, the realtime scheduler selects a
  ready task whose period is the shortest of all ready tasks in the queue of the CPU. When no task is
  ready it selects an idle task if it selects any.
\<close>
theorem rt_selects_shortest_period:
  assumes "rt_inv rqs0" and "rt_run (s0, rqs0) es = (s, rqs)" and "amap_get rqs c = Some rq"
    and "fst (rt_select_next_task s rqs c) = Some t"
  shows "\<exists>x\<in>set (rt_queue rq). rt_task x = t
    \<and> (if \<exists>y\<in>set (rt_queue rq). ready s (rt_task y)
       then ready s t \<and> (\<forall>y\<in>set (rt_queue rq). ready s (rt_task y) \<longrightarrow> \<not> has_smaller_period y x)
       else is_an_idle_task (tasks s t))"
proof -
  let ?q = "rt_queue rq" and ?ts = "map rt_task (rt_queue rq)"
  have sorted: "by_period ?q"
    using rt_run_inv [of "(s0, rqs0)" es] assms(1-3) by (auto simp: rt_inv_def)
  let ?sc = "scan_runnable s 0 ?ts None"
  have fstsc: "fst ?sc = find_index (ready s) ?ts"
    using scan_runnable_chosen [of s 0 ?ts None] by (simp add: option.map_ident)
  obtain i where i: "option_or (fst ?sc) (snd ?sc) = Some i" "fst (rt_update_and_reinsert rq i) = Some t"
    using assms(3,4) by (auto simp: rt_select_next_task_def rt_get_runqueue_def split_beta Let_def split: option.splits)
  then have it: "i < length ?q" "t = rt_task (?q ! i)"
    by (auto simp: rt_update_and_reinsert_def remove_at_def rt_increment_context_switches_def Let_def split: if_splits)
  show ?thesis
  proof (cases "find_index (ready s) ?ts")
    case None
    then have "snd ?sc = Some i" using i(1) fstsc by (simp add: option_or_def)
    with scan_runnable_idle [OF None this] it None show ?thesis
      by (auto simp: find_index_None intro!: bexI [of _ "?q ! i"])
  next
    case (Some k)
    then have k: "k = i" using i(1) fstsc by (simp add: option_or_def)
    have "rank (?q ! i) \<le> rank y" if y: "y \<in> set ?q" "ready s (rt_task y)" for y
    proof -
      obtain j where j: "j < length ?q" "y = ?q ! j" using y(1) by (auto simp: in_set_conv_nth)
      with Some k y(2) have "i \<le> j" by (auto simp: find_index_Some not_less [symmetric])
      then show ?thesis using sorted_nth_mono [OF sorted] j by simp
    qed
    with Some k it show ?thesis
      by (auto simp: find_index_Some has_smaller_period_rank not_less intro!: bexI [of _ "?q ! i"])
  qed
qed

theorem rt_selects_shortest_period_witness:
  "\<exists>st rq. rt_run (example_tasks, example_rt_queues) [RtSetPeriod 2 5] = st
    \<and> amap_get (snd st) 0 = Some rq \<and> fst (rt_select_next_task (fst st) (snd st) 0) = Some 2
    \<and> (\<exists>x\<in>set (rt_queue rq). rt_task x = 2)"
proof -
  let ?st = "rt_run (example_tasks, example_rt_queues) [RtSetPeriod 2 5]"
  have inv: "rt_inv example_rt_queues"
    by (simp add: rt_inv_def example_rt_queues_def rt_taskref_new_def rank_def)
  have st: "?st = (example_tasks, [(0, \<lparr>rt_core = 0, rt_queue = [rt_taskref_new 2 (Some 5), rt_taskref_new 1 (Some 10)]\<rparr>)])"
    by (simp add: rt_run_def example_rt_queues_def set_periodicity_def amap_modify_all_def set_periodicity_internal_def
      remove_at_def insert_at_proper_location_def insert_at_def rt_taskref_new_def has_smaller_period_def)
  have sel: "fst (rt_select_next_task (fst ?st) (snd ?st) 0) = Some 2"
    unfolding st by (simp add: rt_select_next_task_def rt_get_runqueue_def option_or_def rt_update_and_reinsert_def remove_at_def
      rt_taskref_new_def rt_increment_context_switches_def is_runnable_def is_suspended_def runstate_def example_tasks_def task_new_internal_def)
  from rt_selects_shortest_period [OF inv, of example_tasks "[RtSetPeriod 2 5]" "fst ?st" "snd ?st" 0] sel st show ?thesis
    by (intro exI [of _ ?st] exI [of _ "snd (hd (snd ?st))"]) fastforce
qed

text \<open>
  The loop that finds the place of a task in a sorted queue computes the stable insertion by period:
  after every task with the same or a shorter period, before every task with a longer one, and nothing is
  lost.
\<close>
lemma insert_is_stable_insert:
  assumes "by_period q"
  shows "insert_at_proper_location q x = stable_insert x q \<and> by_period (stable_insert x q)
    \<and> mset (stable_insert x q) = add_mset x (mset q)"
  using insert_stable [OF assms, of x] insert_sorted_periods [OF assms, of x] insert_mset [of q x] by simp

end
