(* ===== verification/WaitQueue.thy ===== *)
theory WaitQueue
  imports Schedulers
begin

text \<open>
  Wait queues: \<^verbatim>\<open>src/kernel/wait_queue/src/lib.rs\<close>. A wait queue is the list of the tasks that wait, the
  first one first. Each critical section of its lock is one step; between the sections a waiting task
  gives up the CPU, so \<open>wait_until\<close> is a sequence of \<open>wait_iteration\<close> steps with other steps in between.
\<close>

section \<open>Guards\<close>

definition wait_guard_new :: "task_system \<Rightarrow> taskref \<Rightarrow> (taskref, runstate) result \<times> task_system" where
  "wait_guard_new s t = map_prod (map_sum id (\<lambda>_. t)) id (block s t)"

definition block_again :: "task_system \<Rightarrow> taskref \<Rightarrow> (runstate, runstate) result \<times> task_system" where
  "block_again s t = block s t"

definition wait_guard_drop :: "task_system \<Rightarrow> taskref \<Rightarrow> task_system panics" where
  "wait_guard_drop s t = (case unblock s t of (Inr _, s) \<Rightarrow> Some s | (Inl _, _) \<Rightarrow> None)"

section \<open>Waiting\<close>

datatype wait_error = NoCurrentTask | Interrupted | Timeout | SpuriousWakeup | CantBlockCurrentTask

type_synonym wait_queue = "taskref list"

definition wq_new :: wait_queue where "wq_new = []"

text \<open>One turn of the loop: the value of the condition under the lock is an argument. \<open>Ok None\<close> means that
  the task is blocked and calls the scheduler.\<close>

definition wait_iteration ::
  "task_system \<Rightarrow> wait_queue \<Rightarrow> u8 \<Rightarrow> 'r option \<Rightarrow> ('r option, wait_error) result \<times> task_system \<times> wait_queue" where
  "wait_iteration s q cpu condition =
     (case condition of
        Some r \<Rightarrow> (Ok (Some r), s, q)
      | None \<Rightarrow>
          (case with_current_task s cpu of
             None \<Rightarrow> (Err NoCurrentTask, s, q)
           | Some t \<Rightarrow>
               (let q = (if t \<in> set q then q else q @ [t]) in
                case block s t of
                  (Inr _, s) \<Rightarrow> (Ok None, s, q)
                | (Inl _, s) \<Rightarrow> (Err CantBlockCurrentTask, s, q))))"

text \<open>In \<open>wait_until_mut\<close> the condition also changes its environment.\<close>

definition wait_iteration_mut ::
  "task_system \<Rightarrow> wait_queue \<Rightarrow> u8 \<Rightarrow> ('e \<Rightarrow> 'r option \<times> 'e) \<Rightarrow> 'e \<Rightarrow>
   ('r option, wait_error) result \<times> task_system \<times> wait_queue \<times> 'e" where
  "wait_iteration_mut s q cpu condition env =
     (let (c, env) = condition env; (r, s, q) = wait_iteration s q cpu c in (r, s, q, env))"

definition wait :: "task_system \<Rightarrow> wait_queue \<Rightarrow> u8 \<Rightarrow> (unit option, wait_error) result \<times> task_system \<times> wait_queue" where
  "wait s q cpu = wait_iteration s q cpu (Some ())"

section \<open>Notifying\<close>

text \<open>The loop of \<open>notify\<close>: it ends because every turn takes a task from the queue.\<close>

function notify :: "task_system \<Rightarrow> wait_queue \<Rightarrow> taskref option \<Rightarrow> bool \<times> task_system \<times> wait_queue" where
  "notify s q task_to_wakeup =
     (case (case task_to_wakeup of
              Some ttw \<Rightarrow> Option.bind (find_index (\<lambda>t. t = ttw) q) (remove_at q)
            | None \<Rightarrow> (case q of t # q \<Rightarrow> Some (t, q) | [] \<Rightarrow> None)) of
        Some (t, q) \<Rightarrow>
          (case unblock s t of
             (Inr _, s) \<Rightarrow> (True, s, q)
           | (Inl _, s) \<Rightarrow> notify s q task_to_wakeup)
      | None \<Rightarrow> (False, s, q))"
  by pat_completeness auto
termination
  by (relation "measure (\<lambda>(s, q, w). length q)")
    (auto simp: remove_at_def bind_eq_Some_conv split: option.splits list.splits if_splits)

definition notify_one :: "task_system \<Rightarrow> wait_queue \<Rightarrow> bool \<times> task_system \<times> wait_queue" where
  "notify_one s q = notify s q None"

definition notify_specific :: "task_system \<Rightarrow> wait_queue \<Rightarrow> taskref \<Rightarrow> bool \<times> task_system \<times> wait_queue" where
  "notify_specific s q t = notify s q (Some t)"

definition notify_all :: "task_system \<Rightarrow> wait_queue \<Rightarrow> task_system \<times> wait_queue" where
  "notify_all s q = (foldl (\<lambda>s t. snd (unblock s t)) s q, [])"

declare notify.simps [simp del]

section \<open>Lemmas\<close>

definition can_unblock :: "task_system \<Rightarrow> taskref \<Rightarrow> bool" where
  "can_unblock s t \<longleftrightarrow> runstate s t = Blocked \<or> runstate s t = Runnable"

lemma runstate_upd: "runstate (upd s t (task_runstate_update (\<lambda>_. r))) u = (if u = t then r else runstate s u)"
  by (simp add: runstate_def)

lemma unblock_eq:
  "unblock s t =
     (if runstate s t = Blocked then (Ok Blocked, upd s t (task_runstate_update (\<lambda>_. Runnable)))
      else if runstate s t = Runnable then (Ok Runnable, upd s t (task_runstate_update (\<lambda>_. Runnable)))
      else (Err (runstate s t), s))"
  by (simp add: unblock_def compare_exchange_def)

lemma unblock_runstate: "runstate (snd (unblock s t)) u = (if u = t \<and> can_unblock s t then Runnable else runstate s u)"
  by (auto simp: unblock_eq can_unblock_def runstate_upd)

lemma unblock_ok: "(\<exists>r. fst (unblock s t) = Ok r) \<longleftrightarrow> can_unblock s t"
  by (auto simp: unblock_eq can_unblock_def)

lemma unblock_failed: "\<not> can_unblock s t \<Longrightarrow> unblock s t = (Err (runstate s t), s)"
  by (auto simp: unblock_eq can_unblock_def)

lemma unblock_done: "can_unblock s t \<Longrightarrow> \<exists>r. unblock s t = (Ok r, snd (unblock s t))"
  by (auto simp: unblock_eq can_unblock_def)

lemma notify_one_eq:
  "notify_one s q =
     (case dropWhile (\<lambda>t. \<not> can_unblock s t) q of
        [] \<Rightarrow> (False, s, [])
      | t # q' \<Rightarrow> (True, snd (unblock s t), q'))"
proof (induction q)
  case Nil
  then show ?case by (simp add: notify_one_def notify.simps)
next
  case (Cons t q)
  show ?case
  proof (cases "can_unblock s t")
    case True
    then obtain r where "unblock s t = (Ok r, snd (unblock s t))" using unblock_done by blast
    then show ?thesis using True by (subst notify_one_def, subst notify.simps) (auto split: prod.split)
  next
    case False
    then show ?thesis
      using Cons.IH unblock_failed [OF False] by (subst notify_one_def, subst notify.simps) (simp add: notify_one_def)
  qed
qed

lemma notify_specific_eq:
  assumes "t \<in> set q" and "can_unblock s t"
  shows "notify_specific s q t = (True, snd (unblock s t), remove1 t q)"
proof -
  have rm: "Option.bind (find_index (\<lambda>u. u = t) q) (remove_at q) = Some (t, remove1 t q)"
    using assms(1)
  proof (induction q)
    case (Cons u q)
    then show ?case
      by (cases "u = t") (auto simp: remove_at_def bind_eq_Some_conv find_index_Some split: if_splits)
  qed simp
  obtain r where "unblock s t = (Ok r, snd (unblock s t))" using unblock_done [OF assms(2)] by blast
  then show ?thesis
    unfolding notify_specific_def by (subst notify.simps) (auto simp: rm split: prod.split)
qed

lemma notify_all_runstate:
  "runstate (fst (notify_all s q)) t = (if t \<in> set q \<and> can_unblock s t then Runnable else runstate s t)"
proof -
  have "runstate (foldl (\<lambda>s t. snd (unblock s t)) s q) t = (if t \<in> set q \<and> can_unblock s t then Runnable else runstate s t)"
  proof (induction q arbitrary: s)
    case (Cons u q)
    have "can_unblock (snd (unblock s u)) t = can_unblock s t"
      by (auto simp: can_unblock_def unblock_runstate)
    then show ?case by (auto simp: Cons.IH unblock_runstate)
  qed simp
  then show ?thesis by (simp add: notify_all_def)
qed

text \<open>Whoever \<open>notify\<close> takes from the queue is not blocked afterwards.\<close>

lemma notify_blocked:
  "notify s q w = (r, s', q') \<Longrightarrow> runstate s' t = Blocked \<Longrightarrow> runstate s t = Blocked \<and> (t \<in> set q \<longrightarrow> t \<in> set q')"
proof (induction s q w arbitrary: r s' q' rule: notify.induct)
  case (1 s q w)
  let ?next = "case w of Some ttw \<Rightarrow> Option.bind (find_index (\<lambda>t. t = ttw) q) (remove_at q)
      | None \<Rightarrow> (case q of t # q \<Rightarrow> Some (t, q) | [] \<Rightarrow> None)"
  show ?case
  proof (cases ?next)
    case None
    then show ?thesis using 1(2,3) by (subst (asm) notify.simps) simp
  next
    case (Some p)
    obtain u q1 where p: "p = (u, q1)" by force
    have q1: "t \<in> set q \<Longrightarrow> t = u \<or> t \<in> set q1"
      using Some p
      by (auto simp: bind_eq_Some_conv remove_at_def split: option.splits list.splits if_splits)
        (metis Un_iff id_take_nth_drop list.set_intros(1) set_ConsD set_append)
    show ?thesis
    proof (cases "can_unblock s u")
      case True
      then obtain x where "unblock s u = (Ok x, snd (unblock s u))" using unblock_done by blast
      then have "s' = snd (unblock s u)" "q' = q1"
        using 1(2) Some p by (subst (asm) notify.simps, auto split: prod.splits)+
      then show ?thesis using 1(3) q1 True by (auto simp: unblock_runstate split: if_splits)
    next
      case False
      then have "notify s q1 w = (r, s', q')"
        using 1(2) Some p unblock_failed [OF False] by (subst (asm) notify.simps) simp
      from "1.IH" [OF Some p [symmetric] unblock_failed [OF False, symmetric] refl this 1(3)] show ?thesis
        using q1 False by (auto simp: can_unblock_def)
    qed
  qed
qed

section \<open>Tasks that wait\<close>

text \<open>\<open>sleeping\<close> holds the tasks that blocked in a turn of \<open>wait_until\<close> on this queue and have not begun the
  next turn. The rest of the system may do anything but block such a task.\<close>

record wq_state =
  wq_tasks :: task_system
  wq_queue :: wait_queue
  sleeping :: "taskref set"

inductive wq_step :: "wq_state \<Rightarrow> wq_state \<Rightarrow> bool" where
  turn: "with_current_task s cpu = Some t \<Longrightarrow> wait_iteration s q cpu (c :: any_value option) = (r, s', q') \<Longrightarrow>
    wq_step \<lparr>wq_tasks = s, wq_queue = q, sleeping = W\<rparr>
      \<lparr>wq_tasks = s', wq_queue = q', sleeping = (if r = Ok None then insert t W else W - {t})\<rparr>"
| notify: "notify s q w = (r, s', q') \<Longrightarrow>
    wq_step \<lparr>wq_tasks = s, wq_queue = q, sleeping = W\<rparr> \<lparr>wq_tasks = s', wq_queue = q', sleeping = W\<rparr>"
| notify_all: "notify_all s q = (s', q') \<Longrightarrow>
    wq_step \<lparr>wq_tasks = s, wq_queue = q, sleeping = W\<rparr> \<lparr>wq_tasks = s', wq_queue = q', sleeping = W\<rparr>"
| env: "\<forall>t\<in>W. runstate s' t = Blocked \<longrightarrow> runstate s t = Blocked \<Longrightarrow>
    wq_step \<lparr>wq_tasks = s, wq_queue = q, sleeping = W\<rparr> \<lparr>wq_tasks = s', wq_queue = q, sleeping = W\<rparr>"

inductive wq_reachable :: "wq_state \<Rightarrow> bool" where
  wq_start: "wq_reachable \<lparr>wq_tasks = s, wq_queue = wq_new, sleeping = {}\<rparr>"
| wq_next: "wq_reachable st \<Longrightarrow> wq_step st st' \<Longrightarrow> wq_reachable st'"

definition wq_inv :: "wq_state \<Rightarrow> bool" where
  "wq_inv st \<longleftrightarrow> (\<forall>t\<in>sleeping st. runstate (wq_tasks st) t = Blocked \<longrightarrow> t \<in> set (wq_queue st))"

lemma block_runstate: "u \<noteq> t \<Longrightarrow> runstate (snd (block s t)) u = runstate s u"
  by (simp add: block_def compare_exchange_def runstate_def)

lemma wait_iteration_cases:
  assumes "wait_iteration s q cpu c = (r, s', q')" and "with_current_task s cpu = Some t"
  shows "set q \<subseteq> set q' \<and> (r = Ok None \<longrightarrow> t \<in> set q') \<and> (\<forall>u. u \<noteq> t \<longrightarrow> runstate s' u = runstate s u)"
proof -
  have "block s t = (Inl e, s1) \<Longrightarrow> u \<noteq> t \<Longrightarrow> runstate s1 u = runstate s u"
    and "block s t = (Inr x, s1) \<Longrightarrow> u \<noteq> t \<Longrightarrow> runstate s1 u = runstate s u" for e x s1 u
    using block_runstate [of u t s] by simp_all
  then show ?thesis
    using assms by (auto simp: wait_iteration_def Let_def split: option.splits prod.splits sum.splits if_splits)
qed

lemma wait_iteration_block:
  assumes "with_current_task s cpu = Some t" and "block s t = (Ok x, s')"
  shows "wait_iteration s q cpu None = (Ok None, s', if t \<in> set q then q else q @ [t])"
  by (simp add: wait_iteration_def assms)

lemma wq_step_inv: "wq_step st st' \<Longrightarrow> wq_inv st \<Longrightarrow> wq_inv st'"
proof (induction rule: wq_step.induct)
  case (turn s cpu t q c r s' q' W)
  then show ?case
    using wait_iteration_cases [OF turn(2,1)] by (auto simp: wq_inv_def split: if_splits) (metis subsetD)+
next
  case (notify s q w r s' q' W)
  then show ?case
    using notify_blocked [OF notify(1)] by (auto simp: wq_inv_def)
next
  case (notify_all s q s' q' W)
  then have s': "s' = fst (notify_all s q)" by simp
  have "t \<in> set q" if "t \<in> W" "runstate s t = Blocked" for t
    using notify_all(2) that by (simp add: wq_inv_def)
  then have "runstate s' t \<noteq> Blocked" if "t \<in> W" for t
    using that unfolding s' notify_all_runstate can_unblock_def by (cases "runstate s t = Blocked") simp_all
  then show ?case by (simp add: wq_inv_def)
next
  case (env W s' s q)
  then show ?case by (simp add: wq_inv_def)
qed

lemma wq_reachable_inv: "wq_reachable st \<Longrightarrow> wq_inv st"
proof (induction rule: wq_reachable.induct)
  case (wq_start s)
  show ?case by (simp add: wq_inv_def)
qed (rule wq_step_inv)

section \<open>Properties\<close>

text \<open>
  (C27) No wakeup is lost: when \<open>notify_one\<close> reports that nobody was waiting, no task sleeps in the queue;
  \<open>notify_all\<close> leaves no task asleep; and \<open>notify_specific\<close> wakes the task if it sleeps there. This holds
  for any interleaving of the turns of waiting tasks with notifications and with the rest of the system.
\<close>
theorem no_lost_wakeup:
  assumes "wq_reachable st" and "s = wq_tasks st" and "q = wq_queue st" and "t \<in> sleeping st" and "runstate s t = Blocked"
  shows "fst (notify_one s q) \<and> runstate (fst (notify_all s q)) t = Runnable
    \<and> (\<exists>s' q'. notify_specific s q t = (True, s', q') \<and> runstate s' t = Runnable)"
proof -
  have t: "t \<in> set q" "can_unblock s t"
    using wq_reachable_inv [OF assms(1)] assms(2-5) by (auto simp: wq_inv_def can_unblock_def)
  have "dropWhile (\<lambda>t. \<not> can_unblock s t) q \<noteq> []" using t by (auto simp: dropWhile_eq_Nil_conv)
  then have "fst (notify_one s q)" by (auto simp: notify_one_eq split: list.split)
  then show ?thesis
    using t by (simp add: notify_all_runstate notify_specific_eq unblock_runstate)
qed

theorem no_lost_wakeup_witness:
  "fst (notify_one (snd (block example_tasks 1)) [1])"
proof -
  let ?s = "snd (block example_tasks 1)"
  have cur: "with_current_task example_tasks 0 = Some 1"
    by (simp add: with_current_task_def example_tasks_def)
  have blk: "block example_tasks 1 = (Ok Runnable, ?s)" "runstate ?s 1 = Blocked"
    by (simp_all add: block_def compare_exchange_def runstate_def example_tasks_def task_new_internal_def)
  have "wait_iteration example_tasks wq_new 0 None = (Ok None :: (any_value option, wait_error) result, ?s, [1])"
    using wait_iteration_block [OF cur blk(1), of wq_new] by (simp add: wq_new_def)
  from wq_next [OF wq_start wq_step.turn [OF cur this]]
  have "wq_reachable \<lparr>wq_tasks = ?s, wq_queue = [1], sleeping = {1}\<rparr>" by simp
  from no_lost_wakeup [OF this, of ?s "[1]" 1] blk(2) show ?thesis by simp
qed

text \<open>
  (C28) The loop of \<open>notify_one\<close> ends, with the result of one search: it discards the tasks at the front that
  cannot be unblocked, makes the next task runnable and no other, and keeps the tasks behind it in order;
  it returns \<open>false\<close> and an empty queue when there is no such task.
\<close>
theorem notify_one_search:
  "case dropWhile (\<lambda>t. \<not> can_unblock s t) q of
     [] \<Rightarrow> notify_one s q = (False, s, [])
   | t # q' \<Rightarrow> \<exists>s'. notify_one s q = (True, s', q') \<and> runstate s' t = Runnable
       \<and> (\<forall>u. u = t \<or> runstate s' u = runstate s u)"
proof (cases "dropWhile (\<lambda>t. \<not> can_unblock s t) q")
  case (Cons t q')
  then have "can_unblock s t" using hd_dropWhile [of "\<lambda>t. \<not> can_unblock s t" q] by simp
  then show ?thesis using Cons by (auto simp: notify_one_eq unblock_runstate)
next
  case Nil
  show ?thesis by (simp only: notify_one_eq Nil list.case)
qed

text \<open>
  A notification can be swallowed: a task that was woken by somebody else while it waited, and then
  found its condition true, stays in the queue. The next \<open>notify_one\<close> removes that entry and returns \<open>true\<close>,
  and the task that does sleep in the queue stays blocked.
\<close>
lemma stale_entry_swallows_notification:
  "\<exists>st s' q'. wq_reachable st \<and> sleeping st = {2} \<and> runstate (wq_tasks st) 2 = Blocked
    \<and> notify_one (wq_tasks st) (wq_queue st) = (True, s', q') \<and> runstate s' 2 = Blocked"
proof -
  let ?s1 = "snd (block example_tasks 1)"
  let ?s2 = "example_tasks\<lparr>tls_current := (tls_current example_tasks)(1 := Some 2)\<rparr>"
  let ?s3 = "snd (block ?s2 2)"
  note ex = example_tasks_def task_new_internal_def
  have cur: "with_current_task example_tasks 0 = Some 1" "with_current_task ?s2 0 = Some 2"
    by (simp_all add: with_current_task_def ex)
  have blk: "block example_tasks 1 = (Ok Runnable, ?s1)" "block ?s2 2 = (Ok Runnable, ?s3)"
    "runstate ?s3 2 = Blocked" "runstate ?s3 1 = Runnable"
    by (simp_all add: block_def compare_exchange_def runstate_def ex)
  have t1: "wait_iteration example_tasks wq_new 0 None = (Ok None :: (any_value option, wait_error) result, ?s1, [1])"
    using wait_iteration_block [OF cur(1) blk(1), of wq_new] by (simp add: wq_new_def)
  have t2: "wait_iteration example_tasks [1] 0 (Some (0 :: any_value)) = (Ok (Some 0), example_tasks, [1])"
    by (simp add: wait_iteration_def)
  have t3: "wait_iteration ?s2 [1] 0 None = (Ok None :: (any_value option, wait_error) result, ?s3, [1, 2])"
    using wait_iteration_block [OF cur(2) blk(2), of "[1]"] by simp
  have "wq_reachable \<lparr>wq_tasks = ?s1, wq_queue = [1], sleeping = {1}\<rparr>"
    using wq_next [OF wq_start wq_step.turn [OF cur(1) t1]] by simp
  from wq_next [OF this wq_step.env [of "{1}" example_tasks]]
  have "wq_reachable \<lparr>wq_tasks = example_tasks, wq_queue = [1], sleeping = {1}\<rparr>" by (simp add: runstate_def ex)
  from wq_next [OF this wq_step.turn [OF cur(1) t2]]
  have "wq_reachable \<lparr>wq_tasks = example_tasks, wq_queue = [1], sleeping = {}\<rparr>" by simp
  from wq_next [OF this wq_step.env [of "{}" ?s2]]
  have "wq_reachable \<lparr>wq_tasks = ?s2, wq_queue = [1], sleeping = {}\<rparr>" by simp
  from wq_next [OF this wq_step.turn [OF cur(2) t3]]
  have "wq_reachable \<lparr>wq_tasks = ?s3, wq_queue = [1, 2], sleeping = {2}\<rparr>" by simp
  moreover have "notify_one ?s3 [1, 2] = (True, snd (unblock ?s3 1), [2])"
    using blk(4) by (simp add: notify_one_eq can_unblock_def)
  moreover have "runstate (snd (unblock ?s3 1)) 2 = Blocked"
    using blk(3) by (simp add: unblock_runstate)
  ultimately show ?thesis
    using blk(3) by (intro exI [of _ "\<lparr>wq_tasks = ?s3, wq_queue = [1, 2], sleeping = {2}\<rparr>"]) auto
qed

end
