(* ===== verification/Sleep.thy ===== *)
theory Sleep
  imports WaitQueue
begin

text \<open>
  Sleeping tasks: \<^verbatim>\<open>src/kernel/sleep/src/lib.rs\<close>, and the instants of \<^verbatim>\<open>src/kernel/time/src/lib.rs\<close>. The binary
  heap is a list in ascending order of the time at which its nodes resume; which of two nodes with the same
  time comes first is open in the source, and no statement depends on it. The time and the length of a tick of the
  clock are arguments. A waker is a name, and waking it is recorded.
\<close>

section \<open>Instants and durations\<close>

text \<open>An instant is a count of ticks, a duration a number of nanoseconds, the length of a tick a number of femtoseconds.\<close>

type_synonym instant = u64
type_synonym duration = nat

abbreviation Instant_MAX :: instant where "Instant_MAX \<equiv> - 1"

definition instant_add :: "u64 \<Rightarrow> instant \<Rightarrow> duration \<Rightarrow> instant panics" where
  "instant_add tick i rhs =
     (let femtos = rhs * 1000000 in
      if tick = 0 then None else checked_add i (of_nat (femtos div unat tick)))"

definition instant_sub :: "u64 \<Rightarrow> instant \<Rightarrow> duration \<Rightarrow> instant panics" where
  "instant_sub tick i rhs =
     (let femtos = rhs * 1000000 in
      if tick = 0 then None else checked_sub i (of_nat (femtos div unat tick)))"

definition checked_duration_since :: "u64 \<Rightarrow> instant \<Rightarrow> instant \<Rightarrow> duration option" where
  "checked_duration_since tick i earlier =
     (case checked_sub i earlier of
        Some ticks \<Rightarrow> Some ((unat ticks * unat tick div 1000000) mod 2 ^ 64)
      | None \<Rightarrow> None)"

definition duration_since :: "u64 \<Rightarrow> instant \<Rightarrow> instant \<Rightarrow> duration" where
  "duration_since tick i earlier = (case checked_duration_since tick i earlier of Some d \<Rightarrow> d | None \<Rightarrow> 0)"

section \<open>The list of delayed tasks\<close>

type_synonym waker = nat

datatype action = Sync taskref | Async waker

record sleeping_task_node =
  resume_time :: instant
  node_action :: action

record sleep_state =
  sl_tasks :: task_system
  delayed_tasklist :: "sleeping_task_node list"
  next_unblock_time :: instant
  woken_wakers :: "waker list"

definition sleep_init :: "task_system \<Rightarrow> sleep_state" where
  "sleep_init s = \<lparr>sl_tasks = s, delayed_tasklist = [], next_unblock_time = Instant_MAX, woken_wakers = []\<rparr>"

fun act :: "action \<Rightarrow> sleep_state \<Rightarrow> sleep_state panics" where
  "act (Sync t) st = (case unblock (sl_tasks st) t of (Inr _, s) \<Rightarrow> Some (st\<lparr>sl_tasks := s\<rparr>) | (Inl _, _) \<Rightarrow> None)"
| "act (Async w) st = Some (st\<lparr>woken_wakers := woken_wakers st @ [w]\<rparr>)"

text \<open>\<open>add_to_delayed_tasklist\<close>: the node is pushed under the lock of the list; the next time is then loaded
  and, if it is later than the node's, overwritten, without a lock.\<close>

definition push_delayed :: "sleeping_task_node \<Rightarrow> sleep_state \<Rightarrow> sleep_state" where
  "push_delayed n st = st\<lparr>delayed_tasklist := insort_key resume_time n (delayed_tasklist st)\<rparr>"

definition update_next :: "instant \<Rightarrow> instant \<Rightarrow> sleep_state \<Rightarrow> sleep_state" where
  "update_next resume loaded st = (if resume < loaded then st\<lparr>next_unblock_time := resume\<rparr> else st)"

definition add_to_delayed_tasklist :: "sleeping_task_node \<Rightarrow> sleep_state \<Rightarrow> sleep_state" where
  "add_to_delayed_tasklist n st =
     (let st = push_delayed n st in update_next (resume_time n) (next_unblock_time st) st)"

definition next_time :: "sleeping_task_node list \<Rightarrow> instant" where
  "next_time ns = (case ns of [] \<Rightarrow> Instant_MAX | n # _ \<Rightarrow> resume_time n)"

definition remove_next_task_from_delayed_tasklist :: "sleep_state \<Rightarrow> sleep_state panics" where
  "remove_next_task_from_delayed_tasklist st =
     (case delayed_tasklist st of
        [] \<Rightarrow> Some st
      | n # rest \<Rightarrow> do {
          st \<leftarrow> act (node_action n) (st\<lparr>delayed_tasklist := rest\<rparr>);
          Some (st\<lparr>next_unblock_time := next_time rest\<rparr>) })"

text \<open>The loop of the timer interrupt.\<close>

partial_function (option) unblock_sleeping_tasks :: "instant \<Rightarrow> sleep_state \<Rightarrow> sleep_state option" where
  "unblock_sleeping_tasks time st =
     (if next_unblock_time st < time then do {
        st \<leftarrow> remove_next_task_from_delayed_tasklist st;
        unblock_sleeping_tasks time st }
      else Some st)"

section \<open>Going to sleep\<close>

text \<open>After \<open>Ok\<close> the task gives up the CPU.\<close>

definition sleep :: "u64 \<Rightarrow> instant \<Rightarrow> u8 \<Rightarrow> duration \<Rightarrow> sleep_state \<Rightarrow> ((unit, runstate) result \<times> sleep_state) panics" where
  "sleep tick now cpu duration st = do {
     resume \<leftarrow> instant_add tick now duration;
     t \<leftarrow> with_current_task (sl_tasks st) cpu;
     let st = add_to_delayed_tasklist \<lparr>resume_time = resume, node_action = Sync t\<rparr> st;
     Some (case block (sl_tasks st) t of
             (Inl e, s) \<Rightarrow> (Err e, st\<lparr>sl_tasks := s\<rparr>)
           | (Inr _, s) \<Rightarrow> (Ok (), st\<lparr>sl_tasks := s\<rparr>))
   }"

text \<open>\<open>sleep\<close> reads the clock again, so the two times are separate arguments.\<close>

definition sleep_until :: "u64 \<Rightarrow> instant \<Rightarrow> instant \<Rightarrow> u8 \<Rightarrow> instant \<Rightarrow> sleep_state \<Rightarrow>
    ((unit, runstate) result \<times> sleep_state) panics" where
  "sleep_until tick now now' cpu resume st =
     (if now < resume then sleep tick now' cpu (duration_since tick resume now) st else Some (Ok (), st))"

definition future_sleep :: "u64 \<Rightarrow> instant \<Rightarrow> duration \<Rightarrow> waker \<Rightarrow> sleep_state \<Rightarrow> sleep_state panics" where
  "future_sleep tick now duration w st = do {
     resume \<leftarrow> instant_add tick now duration;
     Some (add_to_delayed_tasklist \<lparr>resume_time = resume, node_action = Async w\<rparr> st) }"

datatype poll = Pending | Ready

definition future_sleep_until :: "u64 \<Rightarrow> instant \<Rightarrow> instant \<Rightarrow> instant \<Rightarrow> waker \<Rightarrow> sleep_state \<Rightarrow> (poll \<times> sleep_state) panics" where
  "future_sleep_until tick now now' resume w st =
     (case checked_duration_since tick resume now of
        Some d \<Rightarrow> do { st \<leftarrow> future_sleep tick now' d w st; Some (Pending, st) }
      | None \<Rightarrow> Some (Ready, st))"

section \<open>The list and the next time agree when no two of these run at the same time\<close>

definition sl_inv :: "sleep_state \<Rightarrow> bool" where
  "sl_inv st \<longleftrightarrow> sorted (map resume_time (delayed_tasklist st)) \<and> next_unblock_time st = next_time (delayed_tasklist st)"

definition due :: "instant \<Rightarrow> sleep_state \<Rightarrow> sleeping_task_node list" where
  "due time st = filter (\<lambda>n. resume_time n < time) (delayed_tasklist st)"

definition wakers :: "sleeping_task_node list \<Rightarrow> waker list" where
  "wakers ns = List.map_filter (\<lambda>n. case node_action n of Async w \<Rightarrow> Some w | Sync _ \<Rightarrow> None) ns"

definition wakeable :: "task_system \<Rightarrow> sleeping_task_node \<Rightarrow> bool" where
  "wakeable s n = (case node_action n of Sync t \<Rightarrow> can_unblock s t | Async _ \<Rightarrow> True)"

lemma sl_inv_init: "sl_inv (sleep_init s)"
  by (simp add: sl_inv_def sleep_init_def next_time_def)

lemma sl_inv_tasks: "sl_inv (st\<lparr>sl_tasks := s\<rparr>) = sl_inv st"
  by (simp add: sl_inv_def)

lemma next_time_insort:
  "next_time (insort_key resume_time n ns) = (if resume_time n < next_time ns then resume_time n else next_time ns)"
  if "sorted (map resume_time ns)"
  using that by (cases ns) (auto simp: next_time_def min_def word_order.extremum_strict not_less word_order.extremum_unique)

lemma sl_inv_add: "sl_inv st \<Longrightarrow> sl_inv (add_to_delayed_tasklist n st)"
  by (auto simp: sl_inv_def add_to_delayed_tasklist_def push_delayed_def update_next_def Let_def sorted_insort_key
      next_time_insort)

text \<open>One turn of the loop wakes the first node.\<close>

lemma act_ok:
  assumes "wakeable (sl_tasks st) n"
  shows "\<exists>st'. act (node_action n) st = Some st' \<and> delayed_tasklist st' = delayed_tasklist st
    \<and> woken_wakers st' = woken_wakers st @ wakers [n]
    \<and> (\<forall>t. runstate (sl_tasks st') t = (if node_action n = Sync t then Runnable else runstate (sl_tasks st) t))"
proof (cases "node_action n")
  case (Sync t)
  then have t: "can_unblock (sl_tasks st) t" using assms by (simp add: wakeable_def)
  then obtain r where "unblock (sl_tasks st) t = (Ok r, snd (unblock (sl_tasks st) t))" using unblock_done by blast
  then have "act (node_action n) st = Some (st\<lparr>sl_tasks := snd (unblock (sl_tasks st) t)\<rparr>)" by (auto simp: Sync split: prod.splits)
  then show ?thesis using t by (auto simp: Sync unblock_runstate wakers_def map_filter_simps)
qed (simp add: wakers_def map_filter_simps)

lemma wakeable_woken:
  assumes "\<forall>t. runstate s' t = (if a = Sync t then Runnable else runstate s t)" and "wakeable s n"
  shows "wakeable s' n"
  using assms by (auto simp: wakeable_def can_unblock_def split: action.splits)

lemma unblock_loop:
  assumes "sl_inv st" and "\<forall>n\<in>set (due time st). wakeable (sl_tasks st) n"
  shows "\<exists>st'. unblock_sleeping_tasks time st = Some st' \<and> sl_inv st'
    \<and> delayed_tasklist st' = filter (\<lambda>n. time \<le> resume_time n) (delayed_tasklist st)
    \<and> woken_wakers st' = woken_wakers st @ wakers (due time st)
    \<and> (\<forall>t. runstate (sl_tasks st') t =
          (if \<exists>n\<in>set (due time st). node_action n = Sync t then Runnable else runstate (sl_tasks st) t))"
  using assms
proof (induction "delayed_tasklist st" arbitrary: st)
  case Nil
  then have "\<not> next_unblock_time st < time"
    by (simp add: sl_inv_def next_time_def word_order.extremum_strict)
  then show ?case
    using Nil by (subst unblock_sleeping_tasks.simps) (simp add: due_def wakers_def map_filter_simps)
next
  case (Cons n ns)
  note dl = Cons(2) [symmetric]
  have nx: "next_unblock_time st = resume_time n" and so: "\<forall>m\<in>set ns. resume_time n \<le> resume_time m" "sorted (map resume_time ns)"
    using Cons(3) by (auto simp: sl_inv_def next_time_def dl)
  show ?case
  proof (cases "resume_time n < time")
    case False
    then have late: "\<forall>m\<in>set (n # ns). time \<le> resume_time m" using so(1) by auto
    then have "due time st = []" "filter (\<lambda>m. time \<le> resume_time m) (n # ns) = n # ns"
      by (auto simp: due_def dl filter_empty_conv not_less filter_id_conv)
    then show ?thesis
      using False nx Cons(3) by (subst unblock_sleeping_tasks.simps) (simp add: wakers_def map_filter_simps dl)
  next
    case True
    have due: "due time st = n # filter (\<lambda>m. resume_time m < time) ns"
      using True by (simp add: due_def dl)
    obtain st1 where st1: "act (node_action n) (st\<lparr>delayed_tasklist := ns\<rparr>) = Some st1" "delayed_tasklist st1 = ns"
      "woken_wakers st1 = woken_wakers st @ wakers [n]"
      "\<forall>t. runstate (sl_tasks st1) t = (if node_action n = Sync t then Runnable else runstate (sl_tasks st) t)"
      using act_ok [of "st\<lparr>delayed_tasklist := ns\<rparr>" n] Cons(4) due by auto
    define st2 where "st2 = st1\<lparr>next_unblock_time := next_time ns\<rparr>"
    have turn: "remove_next_task_from_delayed_tasklist st = Some st2"
      using st1(1) by (simp add: remove_next_task_from_delayed_tasklist_def dl st2_def)
    have due2: "due time st2 = filter (\<lambda>m. resume_time m < time) ns" by (simp add: due_def st2_def st1(2))
    have "sl_inv st2" "\<forall>m\<in>set (due time st2). wakeable (sl_tasks st2) m"
      using so(2) st1(2) wakeable_woken [OF st1(4)] Cons(4) due due2 by (auto simp: sl_inv_def st2_def)
    from Cons(1) [of st2, OF _ this] obtain st' where st': "unblock_sleeping_tasks time st2 = Some st'" "sl_inv st'"
      "delayed_tasklist st' = filter (\<lambda>n. time \<le> resume_time n) ns"
      "woken_wakers st' = woken_wakers st2 @ wakers (due time st2)"
      "\<forall>t. runstate (sl_tasks st') t =
          (if \<exists>n\<in>set (due time st2). node_action n = Sync t then Runnable else runstate (sl_tasks st2) t)"
      by (auto simp: st2_def st1(2))
    have "unblock_sleeping_tasks time st = Some st'"
      using True nx turn st'(1) by (subst unblock_sleeping_tasks.simps) simp
    moreover have "woken_wakers st' = woken_wakers st @ wakers (due time st)"
      using st'(4) st1(3) by (simp add: st2_def due due2 [unfolded st2_def] wakers_def map_filter_def)
    ultimately show ?thesis
      using st'(2,3,5) st1(4) True due2 by (auto simp: dl due st2_def intro!: exI [of _ st'])
  qed
qed

text \<open>A task that is killed while it sleeps makes the timer interrupt panic when its time comes.\<close>

lemma killed_sleeper_panics:
  assumes "delayed_tasklist st = n # ns" and "node_action n = Sync t" and "runstate (sl_tasks st) t = Exited"
    and "next_unblock_time st < time"
  shows "unblock_sleeping_tasks time st = None"
  using assms unblock_failed [of "sl_tasks st" t]
  by (subst unblock_sleeping_tasks.simps) (simp add: remove_next_task_from_delayed_tasklist_def can_unblock_def)

section \<open>Sleeping without races\<close>

text \<open>The calls run one after the other; the rest of the system does what it likes with the tasks.\<close>

inductive sl_serial :: "sleep_state \<Rightarrow> bool" where
  sl_start: "sl_serial (sleep_init s)"
| sl_sleep: "sl_serial st \<Longrightarrow> sleep tick now cpu d st = Some (r, st') \<Longrightarrow> sl_serial st'"
| sl_sleep_until: "sl_serial st \<Longrightarrow> sleep_until tick now now' cpu i st = Some (r, st') \<Longrightarrow> sl_serial st'"
| sl_future: "sl_serial st \<Longrightarrow> future_sleep tick now d w st = Some st' \<Longrightarrow> sl_serial st'"
| sl_future_until: "sl_serial st \<Longrightarrow> future_sleep_until tick now now' i w st = Some (p, st') \<Longrightarrow> sl_serial st'"
| sl_timer: "sl_serial st \<Longrightarrow> \<forall>n\<in>set (due time st). wakeable (sl_tasks st) n \<Longrightarrow>
    unblock_sleeping_tasks time st = Some st' \<Longrightarrow> sl_serial st'"
| sl_env: "sl_serial st \<Longrightarrow> sl_serial (st\<lparr>sl_tasks := s\<rparr>)"

lemma sleep_inv:
  assumes "sl_inv st" and "sleep tick now cpu d st = Some (r, st')"
  shows "sl_inv st'"
proof -
  obtain i t where it: "instant_add tick now d = Some i" "with_current_task (sl_tasks st) cpu = Some t"
    using assms(2) by (auto simp: sleep_def bind_eq_Some_conv)
  define st1 where "st1 = add_to_delayed_tasklist \<lparr>resume_time = i, node_action = Sync t\<rparr> st"
  obtain b s where "block (sl_tasks st1) t = (b, s)" by force
  then have "st' = st1\<lparr>sl_tasks := s\<rparr>"
    using assms(2) it by (cases b) (auto simp: sleep_def st1_def [symmetric])
  then show ?thesis using assms(1) by (simp add: sl_inv_tasks sl_inv_add st1_def)
qed

lemma future_sleep_inv: "sl_inv st \<Longrightarrow> future_sleep tick now d w st = Some st' \<Longrightarrow> sl_inv st'"
  by (auto simp: future_sleep_def bind_eq_Some_conv sl_inv_add)

lemma sl_serial_inv: "sl_serial st \<Longrightarrow> sl_inv st"
proof (induction rule: sl_serial.induct)
  case (sl_sleep_until st tick now now' cpu i r st')
  then show ?case by (auto simp: sleep_until_def intro: sleep_inv split: if_splits)
next
  case (sl_future_until st tick now now' i w p st')
  then show ?case
    by (auto simp: future_sleep_until_def bind_eq_Some_conv intro: future_sleep_inv split: option.splits)
next
  case (sl_timer st time st')
  then show ?case using unblock_loop [OF sl_timer(4,2)] by auto
qed (auto simp: sl_inv_init sl_inv_tasks intro: sleep_inv future_sleep_inv)



section \<open>Sleeping with races\<close>

text \<open>Several CPUs are inside \<open>add_to_delayed_tasklist\<close> and the timer interrupt comes at any moment. A node is
  pushed with a time that is not before the present.\<close>

datatype add_pc = AddIdle | AddPushed instant | AddLoaded instant instant

record race_state =
  add_pcs :: "u8 \<Rightarrow> add_pc"
  clock :: instant
  race_sleep :: sleep_state

inductive race_reachable :: "race_state \<Rightarrow> bool" where
  race_start: "race_reachable \<lparr>add_pcs = \<lambda>_. AddIdle, clock = 0, race_sleep = sleep_init s\<rparr>"
| race_push: "race_reachable st \<Longrightarrow> add_pcs st c = AddIdle \<Longrightarrow> clock st \<le> resume_time n \<Longrightarrow>
    race_reachable (st\<lparr>add_pcs := (add_pcs st)(c := AddPushed (resume_time n)), race_sleep := push_delayed n (race_sleep st)\<rparr>)"
| race_load: "race_reachable st \<Longrightarrow> add_pcs st c = AddPushed r \<Longrightarrow>
    race_reachable (st\<lparr>add_pcs := (add_pcs st)(c := AddLoaded r (next_unblock_time (race_sleep st)))\<rparr>)"
| race_store: "race_reachable st \<Longrightarrow> add_pcs st c = AddLoaded r l \<Longrightarrow>
    race_reachable (st\<lparr>add_pcs := (add_pcs st)(c := AddIdle), race_sleep := update_next r l (race_sleep st)\<rparr>)"
| race_timer: "race_reachable st \<Longrightarrow> clock st \<le> time \<Longrightarrow> unblock_sleeping_tasks time (race_sleep st) = Some st' \<Longrightarrow>
    race_reachable (st\<lparr>clock := time, race_sleep := st'\<rparr>)"

lemma unblock_spins:
  assumes "delayed_tasklist st = []" and "next_unblock_time st < time"
  shows "unblock_sleeping_tasks time st = None"
proof -
  have "\<not> (delayed_tasklist st = [] \<and> next_unblock_time st < time)" if "unblock_sleeping_tasks time st = Some st'" for st'
    using _ that
  proof (rule unblock_sleeping_tasks.raw_induct [of "\<lambda>time st _. \<not> (delayed_tasklist st = [] \<and> next_unblock_time st < time)"])
    fix f time st st'
    assume IH: "\<And>time st st'. f time st = Some st' \<Longrightarrow> \<not> (delayed_tasklist st = [] \<and> next_unblock_time st < time)"
      and eq: "(if next_unblock_time st < time
        then Option.bind (remove_next_task_from_delayed_tasklist st) (f time) else Some st) = Some st'"
    show "\<not> (delayed_tasklist st = [] \<and> next_unblock_time st < time)"
      using eq IH [of time st st'] by (auto simp: remove_next_task_from_delayed_tasklist_def)
  qed
  then show ?thesis using assms by (cases "unblock_sleeping_tasks time st") auto
qed

text \<open>
  (C40) A timer interrupt between the push and the update of the next time breaks this. The next time is then
  set to the time of a node that is gone. If the list is empty, the interrupt handler never returns: its loop
  turns without changing anything. Otherwise it wakes the first node of the list, here one that should sleep
  until 100, at time 8.
\<close>
theorem sleep_race:
  "(\<exists>st. race_reachable \<lparr>add_pcs = \<lambda>_. AddIdle, clock = 7, race_sleep = st\<rparr>
      \<and> remove_next_task_from_delayed_tasklist st = Some st \<and> unblock_sleeping_tasks 8 st = None)
   \<and> (\<exists>st st'. race_reachable \<lparr>add_pcs = \<lambda>_. AddIdle, clock = 7, race_sleep = st\<rparr>
      \<and> delayed_tasklist st = [\<lparr>resume_time = 100, node_action = Async 2\<rparr>] \<and> \<not> 2 \<in> set (woken_wakers st)
      \<and> unblock_sleeping_tasks 8 st = Some st' \<and> 2 \<in> set (woken_wakers st'))"
proof -
  let ?node = "\<lambda>r w. \<lparr>resume_time = r, node_action = Async w\<rparr>"
  let ?st = "\<lambda>ns i ws. \<lparr>sl_tasks = example_tasks, delayed_tasklist = ns, next_unblock_time = i, woken_wakers = ws\<rparr>"
  let ?idle = "\<lambda>_ :: u8. AddIdle"
  have idle: "?idle(c := AddIdle) = ?idle" for c by auto
  note ev = push_delayed_def update_next_def sleep_init_def
  have r1: "race_reachable \<lparr>add_pcs = ?idle, clock = 0, race_sleep = ?st [?node 5 0] 5 []\<rparr>"
    using race_store [OF race_load [OF race_push [OF race_start [of example_tasks], of 0 "?node 5 0"], of 0 5], of 0 5 Instant_MAX]
    by (simp add: ev idle)
  have timer: "unblock_sleeping_tasks 7 (?st [?node 5 0, ?node 6 1] 5 []) = Some (?st [] Instant_MAX [0, 1])"
    by (simp add: unblock_sleeping_tasks.simps remove_next_task_from_delayed_tasklist_def next_time_def)
  have r2: "race_reachable \<lparr>add_pcs = ?idle(1 := AddPushed 6), clock = 7, race_sleep = ?st [] Instant_MAX [0, 1]\<rparr>"
    using race_timer [OF race_push [OF r1, of 1 "?node 6 1"], of 7] timer by (simp add: ev)
  have r3: "race_reachable \<lparr>add_pcs = ?idle, clock = 7, race_sleep = ?st [] 6 [0, 1]\<rparr>"
    using race_store [OF race_load [OF r2, of 1 6], of 1 6 Instant_MAX] by (simp add: ev idle)
  have r4: "race_reachable \<lparr>add_pcs = ?idle, clock = 7, race_sleep = ?st [?node 100 2] 6 [0, 1]\<rparr>"
    using race_store [OF race_load [OF race_push [OF r3, of 0 "?node 100 2"], of 0 100], of 0 100 6]
    by (simp add: ev idle)
  have "unblock_sleeping_tasks 8 (?st [?node 100 2] 6 [0, 1]) = Some (?st [] Instant_MAX [0, 1, 2])"
    by (simp add: unblock_sleeping_tasks.simps remove_next_task_from_delayed_tasklist_def next_time_def)
  then show ?thesis
    using r3 r4 unblock_spins [of "?st [] 6 [0, 1]" 8]
    by (intro conjI exI [of _ "?st [] 6 [0, 1]"] exI [of _ "?st [?node 100 2] 6 [0, 1]"] exI [of _ "?st [] Instant_MAX [0, 1, 2]"])
      (simp_all add: remove_next_task_from_delayed_tasklist_def)
qed

end
