(* ===== verification/Rendezvous.thy ===== *)
theory Rendezvous
  imports WaitQueue
begin

text \<open>
  The rendezvous channel: \<^verbatim>\<open>src/kernel/rendezvous/src/lib.rs\<close>. \<open>send\<close> and \<open>receive\<close> are sequences of critical
  sections: of the two halves of the slot, of the exchange state, of the two wait queues. Each section is a
  function; the step relation runs the sections of all tasks in any order, with the rest of the system doing
  what it likes to the tasks in between.

  Both halves of the slot point to the same exchange state, so a half is there or it is not.
\<close>

section \<open>The channel\<close>

datatype 'm exchange_state =
    Init
  | WaitingForReceiver taskref 'm
  | WaitingForSender taskref
  | ReceiverFinishedFirst
  | SenderFinishedFirst 'm

record 'm channel =
  sender_slot :: bool
  receiver_slot :: bool
  exchange :: "'m exchange_state"
  waiting_senders :: wait_queue
  waiting_receivers :: wait_queue

definition new_channel :: "'m channel" where
  "new_channel = \<lparr>sender_slot = True, receiver_slot = True, exchange = Init,
     waiting_senders = wq_new, waiting_receivers = wq_new\<rparr>"

text \<open>\<open>take\<close> on the two halves.\<close>

definition try_take_sender_slot :: "'m channel \<Rightarrow> unit option \<times> 'm channel" where
  "try_take_sender_slot c = (if sender_slot c then Some () else None, c\<lparr>sender_slot := False\<rparr>)"

definition try_take_receiver_slot :: "'m channel \<Rightarrow> unit option \<times> 'm channel" where
  "try_take_receiver_slot c = (if receiver_slot c then Some () else None, c\<lparr>receiver_slot := False\<rparr>)"

definition replace_sender_slot :: "'m channel \<Rightarrow> 'm channel" where
  "replace_sender_slot c = c\<lparr>sender_slot := True\<rparr>"

definition replace_receiver_slot :: "'m channel \<Rightarrow> 'm channel" where
  "replace_receiver_slot c = c\<lparr>receiver_slot := True\<rparr>"

text \<open>One turn of \<open>wait_until\<close> in \<open>take_sender_slot\<close> and \<open>take_receiver_slot\<close>.\<close>

definition sender_slot_turn ::
  "task_system \<Rightarrow> 'm channel \<Rightarrow> u8 \<Rightarrow> (unit option, wait_error) result \<times> task_system \<times> 'm channel" where
  "sender_slot_turn s c cpu =
     (let (r, s, q, c) = wait_iteration_mut s (waiting_senders c) cpu try_take_sender_slot c
      in (r, s, c\<lparr>waiting_senders := q\<rparr>))"

definition receiver_slot_turn ::
  "task_system \<Rightarrow> 'm channel \<Rightarrow> u8 \<Rightarrow> (unit option, wait_error) result \<times> task_system \<times> 'm channel" where
  "receiver_slot_turn s c cpu =
     (let (r, s, q, c) = wait_iteration_mut s (waiting_receivers c) cpu try_take_receiver_slot c
      in (r, s, c\<lparr>waiting_receivers := q\<rparr>))"

definition notify_senders :: "task_system \<Rightarrow> 'm channel \<Rightarrow> task_system \<times> 'm channel" where
  "notify_senders s c = (let (_, s, q) = notify_one s (waiting_senders c) in (s, c\<lparr>waiting_senders := q\<rparr>))"

definition notify_receivers :: "task_system \<Rightarrow> 'm channel \<Rightarrow> task_system \<times> 'm channel" where
  "notify_receivers s c = (let (_, s, q) = notify_one s (waiting_receivers c) in (s, c\<lparr>waiting_receivers := q\<rparr>))"

section \<open>The sections of the exchange state\<close>

text \<open>The arrival of a sender or receiver: the task has to wait, it met the other side, it found a state that
  must not be, or it returns an error at once.\<close>

datatype 'a arrival = MustWait | Met 'a | Invalid string | Failed string

definition send_begin :: "task_system \<Rightarrow> 'm exchange_state \<Rightarrow> u8 \<Rightarrow> 'm \<Rightarrow> taskref arrival \<times> task_system \<times> 'm exchange_state" where
  "send_begin s e cpu msg =
     (case e of
        Init \<Rightarrow>
          (case with_current_task s cpu of
             None \<Rightarrow> (Failed ''couldn't get current task'', s, Init)
           | Some curr_task \<Rightarrow>
               (case wait_guard_new s curr_task of
                  (Inr guard, s) \<Rightarrow> (MustWait, s, WaitingForReceiver guard msg)
                | (Inl _, s) \<Rightarrow> (Failed ''failed to create wait guard'', s, Init)))
      | WaitingForSender receiver_to_notify \<Rightarrow> (Met receiver_to_notify, s, SenderFinishedFirst msg)
      | _ \<Rightarrow> (Invalid ''BUG: Sender (at beginning) in invalid state'', s, e))"

definition receive_begin :: "task_system \<Rightarrow> 'm exchange_state \<Rightarrow> taskref \<Rightarrow> (taskref \<times> 'm) arrival \<times> task_system \<times> 'm exchange_state" where
  "receive_begin s e curr_task =
     (case e of
        Init \<Rightarrow>
          (case wait_guard_new s curr_task of
             (Inr guard, s) \<Rightarrow> (MustWait, s, WaitingForSender guard)
           | (Inl _, s) \<Rightarrow> (Failed ''failed to create wait guard'', s, Init))
      | WaitingForReceiver sender_to_notify msg \<Rightarrow> (Met (sender_to_notify, msg), s, ReceiverFinishedFirst)
      | _ \<Rightarrow> (Invalid ''BUG: Receiver (at beginning) in invalid state'', s, e))"

text \<open>One turn of the loops that wait for the other side. \<open>Ok True\<close> leaves the loop.\<close>

definition send_wait :: "task_system \<Rightarrow> 'm exchange_state \<Rightarrow> u8 \<Rightarrow> (bool, string) result \<times> task_system" where
  "send_wait s e cpu =
     (case e of
        WaitingForReceiver blocked_sender _ \<Rightarrow>
          (if with_current_task s cpu \<noteq> Some blocked_sender
           then (Err ''BUG: CURR TASK WAS DIFFERENT THAN BLOCKED SENDER'', s)
           else (case block_again s blocked_sender of
                   (Inr _, s) \<Rightarrow> (Ok False, s) | (Inl _, s) \<Rightarrow> (Err ''failed to block sender'', s)))
      | _ \<Rightarrow> (Ok True, s))"

definition receive_wait :: "task_system \<Rightarrow> 'm exchange_state \<Rightarrow> taskref \<Rightarrow> (bool, string) result \<times> task_system" where
  "receive_wait s e curr_task =
     (case e of
        WaitingForSender blocked_receiver \<Rightarrow>
          (if blocked_receiver \<noteq> curr_task
           then (Err ''BUG: CURR TASK WAS DIFFERENT THAN BLOCKED RECEIVER'', s)
           else (case block_again s blocked_receiver of
                   (Inr _, s) \<Rightarrow> (Ok False, s) | (Inl _, s) \<Rightarrow> (Err ''failed to block receiver'', s)))
      | _ \<Rightarrow> (Ok True, s))"

text \<open>The rendezvous point.\<close>

definition send_end :: "'m exchange_state \<Rightarrow> (unit, string) result \<times> 'm exchange_state" where
  "send_end e =
     (case e of
        ReceiverFinishedFirst \<Rightarrow> (Ok (), Init)
      | _ \<Rightarrow> (Err ''BUG: Sender (while waiting) in invalid state'', e))"

definition receive_end :: "'m exchange_state \<Rightarrow> ('m, string) result \<times> 'm exchange_state" where
  "receive_end e =
     (case e of
        SenderFinishedFirst msg \<Rightarrow> (Ok msg, Init)
      | _ \<Rightarrow> (Err ''BUG: Receiver (at end) in invalid state'', e))"

section \<open>Sending and receiving\<close>

text \<open>The place of a task inside \<open>send\<close>: before the first attempt at the slot, between the turns of \<open>wait_until\<close>,
  before its arrival, and so on to the end. \<open>send_step\<close> runs the next section.\<close>

datatype 'm send_pc =
    SendTake 'm | SendSlotWait 'm | SendBegin 'm | SendDrop taskref
  | SendInvalid string | SendInvalidNotify string
  | SendLoop | SendEnd | SendGiveReceiver | SendNotifyReceivers
  | SendGiveSender "(unit, string) result" | SendNotifySenders "(unit, string) result"
  | SendDone "(unit, string) result" | SendPanicked

fun send_step :: "task_system \<Rightarrow> 'm channel \<Rightarrow> u8 \<Rightarrow> 'm send_pc \<Rightarrow> task_system \<times> 'm channel \<times> 'm send_pc" where
  "send_step s c cpu (SendTake msg) =
     (case try_take_sender_slot c of
        (Some _, c) \<Rightarrow> (s, c, SendBegin msg)
      | (None, c) \<Rightarrow> (s, c, SendSlotWait msg))"
| "send_step s c cpu (SendSlotWait msg) =
     (case sender_slot_turn s c cpu of
        (Inr (Some _), s, c) \<Rightarrow> (s, c, SendBegin msg)
      | (Inr None, s, c) \<Rightarrow> (s, c, SendSlotWait msg)
      | (Inl _, s, c) \<Rightarrow> (s, c, SendDone (Err ''failed to take_sender_slot'')))"
| "send_step s c cpu (SendBegin msg) =
     (case send_begin s (exchange c) cpu msg of
        (MustWait, s, e) \<Rightarrow> (s, c\<lparr>exchange := e\<rparr>, SendLoop)
      | (Met receiver_to_notify, s, e) \<Rightarrow> (s, c\<lparr>exchange := e\<rparr>, SendDrop receiver_to_notify)
      | (Invalid x, s, e) \<Rightarrow> (s, c\<lparr>exchange := e\<rparr>, SendInvalid x)
      | (Failed x, s, e) \<Rightarrow> (s, c\<lparr>exchange := e\<rparr>, SendDone (Err x)))"
| "send_step s c cpu (SendDrop receiver_to_notify) =
     (case wait_guard_drop s receiver_to_notify of
        Some s \<Rightarrow> (s, c, SendDone (Ok ()))
      | None \<Rightarrow> (s, c, SendPanicked))"
| "send_step s c cpu (SendInvalid x) = (s, replace_sender_slot c, SendInvalidNotify x)"
| "send_step s c cpu (SendInvalidNotify x) = (let (s, c) = notify_senders s c in (s, c, SendDone (Err x)))"
| "send_step s c cpu SendLoop =
     (case send_wait s (exchange c) cpu of
        (Inr True, s) \<Rightarrow> (s, c, SendEnd)
      | (Inr False, s) \<Rightarrow> (s, c, SendLoop)
      | (Inl x, s) \<Rightarrow> (s, c, SendDone (Err x)))"
| "send_step s c cpu SendEnd =
     (case send_end (exchange c) of
        (Inr _, e) \<Rightarrow> (s, c\<lparr>exchange := e\<rparr>, SendGiveReceiver)
      | (Inl x, e) \<Rightarrow> (s, c\<lparr>exchange := e\<rparr>, SendGiveSender (Err x)))"
| "send_step s c cpu SendGiveReceiver = (s, replace_receiver_slot c, SendNotifyReceivers)"
| "send_step s c cpu SendNotifyReceivers = (let (s, c) = notify_receivers s c in (s, c, SendGiveSender (Ok ())))"
| "send_step s c cpu (SendGiveSender r) = (s, replace_sender_slot c, SendNotifySenders r)"
| "send_step s c cpu (SendNotifySenders r) = (let (s, c) = notify_senders s c in (s, c, SendDone r))"
| "send_step s c cpu (SendDone r) = (s, c, SendDone r)"
| "send_step s c cpu SendPanicked = (s, c, SendPanicked)"

datatype 'm receive_pc =
    RecvTake | RecvSlotWait | RecvBegin | RecvDrop taskref 'm
  | RecvInvalid string | RecvInvalidNotify string
  | RecvLoop | RecvEnd | RecvGiveSender 'm | RecvNotifySenders 'm
  | RecvGiveReceiver "('m, string) result" | RecvNotifyReceivers "('m, string) result"
  | RecvDone "('m, string) result" | RecvPanicked

fun receive_step :: "task_system \<Rightarrow> 'm channel \<Rightarrow> u8 \<Rightarrow> taskref \<Rightarrow> 'm receive_pc \<Rightarrow>
    task_system \<times> 'm channel \<times> 'm receive_pc" where
  "receive_step s c cpu curr_task RecvTake =
     (case try_take_receiver_slot c of
        (Some _, c) \<Rightarrow> (s, c, RecvBegin)
      | (None, c) \<Rightarrow> (s, c, RecvSlotWait))"
| "receive_step s c cpu curr_task RecvSlotWait =
     (case receiver_slot_turn s c cpu of
        (Inr (Some _), s, c) \<Rightarrow> (s, c, RecvBegin)
      | (Inr None, s, c) \<Rightarrow> (s, c, RecvSlotWait)
      | (Inl _, s, c) \<Rightarrow> (s, c, RecvDone (Err ''failed to take_receiver_slot'')))"
| "receive_step s c cpu curr_task RecvBegin =
     (case receive_begin s (exchange c) curr_task of
        (MustWait, s, e) \<Rightarrow> (s, c\<lparr>exchange := e\<rparr>, RecvLoop)
      | (Met (sender_to_notify, msg), s, e) \<Rightarrow> (s, c\<lparr>exchange := e\<rparr>, RecvDrop sender_to_notify msg)
      | (Invalid x, s, e) \<Rightarrow> (s, c\<lparr>exchange := e\<rparr>, RecvInvalid x)
      | (Failed x, s, e) \<Rightarrow> (s, c\<lparr>exchange := e\<rparr>, RecvDone (Err x)))"
| "receive_step s c cpu curr_task (RecvDrop sender_to_notify msg) =
     (case wait_guard_drop s sender_to_notify of
        Some s \<Rightarrow> (s, c, RecvDone (Ok msg))
      | None \<Rightarrow> (s, c, RecvPanicked))"
| "receive_step s c cpu curr_task (RecvInvalid x) = (s, replace_receiver_slot c, RecvInvalidNotify x)"
| "receive_step s c cpu curr_task (RecvInvalidNotify x) =
     (let (s, c) = notify_receivers s c in (s, c, RecvDone (Err x)))"
| "receive_step s c cpu curr_task RecvLoop =
     (case receive_wait s (exchange c) curr_task of
        (Inr True, s) \<Rightarrow> (s, c, RecvEnd)
      | (Inr False, s) \<Rightarrow> (s, c, RecvLoop)
      | (Inl x, s) \<Rightarrow> (s, c, RecvDone (Err x)))"
| "receive_step s c cpu curr_task RecvEnd =
     (case receive_end (exchange c) of
        (Inr msg, e) \<Rightarrow> (s, c\<lparr>exchange := e\<rparr>, RecvGiveSender msg)
      | (Inl x, e) \<Rightarrow> (s, c\<lparr>exchange := e\<rparr>, RecvGiveReceiver (Err x)))"
| "receive_step s c cpu curr_task (RecvGiveSender msg) = (s, replace_sender_slot c, RecvNotifySenders msg)"
| "receive_step s c cpu curr_task (RecvNotifySenders msg) =
     (let (s, c) = notify_senders s c in (s, c, RecvGiveReceiver (Ok msg)))"
| "receive_step s c cpu curr_task (RecvGiveReceiver r) = (s, replace_receiver_slot c, RecvNotifyReceivers r)"
| "receive_step s c cpu curr_task (RecvNotifyReceivers r) =
     (let (s, c) = notify_receivers s c in (s, c, RecvDone r))"
| "receive_step s c cpu curr_task (RecvDone r) = (s, c, RecvDone r)"
| "receive_step s c cpu curr_task RecvPanicked = (s, c, RecvPanicked)"

section \<open>Any number of senders and receivers\<close>

text \<open>\<open>rv_sent\<close> lists the messages in the order in which senders put them into the exchange state, \<open>rv_taken\<close> who
  took them out of it, \<open>rv_returned\<close> what the calls of \<open>receive\<close> returned to each task, \<open>rv_errors\<close> the errors that
  calls returned, \<open>rv_failed\<close> whether any call returned an error or panicked. No step reads them.\<close>

datatype 'm rv_pc = Idle | Sending "'m send_pc" | Receiving "'m receive_pc"

record 'm rv_state =
  rv_tasks :: task_system
  rv_chan :: "'m channel"
  rv_pcs :: "taskref \<Rightarrow> 'm rv_pc"
  rv_sent :: "'m list"
  rv_taken :: "(taskref \<times> 'm) list"
  rv_returned :: "taskref \<Rightarrow> 'm list"
  rv_errors :: "string list"
  rv_failed :: bool

definition put_in :: "'m send_pc \<Rightarrow> 'm send_pc \<Rightarrow> 'm list" where
  "put_in p p' = (case (p, p') of (SendBegin m, SendLoop) \<Rightarrow> [m] | (SendBegin m, SendDrop _) \<Rightarrow> [m] | _ \<Rightarrow> [])"

definition taken_out :: "'m receive_pc \<Rightarrow> 'm receive_pc \<Rightarrow> 'm list" where
  "taken_out p p' = (case (p, p') of (RecvBegin, RecvDrop _ m) \<Rightarrow> [m] | (RecvEnd, RecvGiveSender m) \<Rightarrow> [m] | _ \<Rightarrow> [])"

definition send_failed :: "'m send_pc \<Rightarrow> bool" where
  "send_failed p = (case p of SendDone (Inl _) \<Rightarrow> True | SendPanicked \<Rightarrow> True | _ \<Rightarrow> False)"

definition receive_failed :: "'m receive_pc \<Rightarrow> bool" where
  "receive_failed p = (case p of RecvDone (Inl _) \<Rightarrow> True | RecvPanicked \<Rightarrow> True | _ \<Rightarrow> False)"

definition rv_start :: "task_system \<Rightarrow> 'm rv_state" where
  "rv_start s = \<lparr>rv_tasks = s, rv_chan = new_channel, rv_pcs = \<lambda>_. Idle, rv_sent = [], rv_taken = [],
     rv_returned = \<lambda>_. [], rv_errors = [], rv_failed = False\<rparr>"

inductive rv_step :: "'m rv_state \<Rightarrow> 'm rv_state \<Rightarrow> bool" where
  call_send: "rv_pcs st t = Idle \<Longrightarrow> rv_step st (st\<lparr>rv_pcs := (rv_pcs st)(t := Sending (SendTake m))\<rparr>)"
| call_receive: "rv_pcs st t = Idle \<Longrightarrow> rv_step st (st\<lparr>rv_pcs := (rv_pcs st)(t := Receiving RecvTake)\<rparr>)"
| send: "rv_pcs st t = Sending p \<Longrightarrow> with_current_task (rv_tasks st) cpu = Some t \<Longrightarrow>
    send_step (rv_tasks st) (rv_chan st) cpu p = (s', c', p') \<Longrightarrow>
    rv_step st (st\<lparr>rv_tasks := s', rv_chan := c', rv_pcs := (rv_pcs st)(t := Sending p'),
      rv_sent := rv_sent st @ put_in p p', rv_failed := rv_failed st \<or> send_failed p'\<rparr>)"
| receive: "rv_pcs st t = Receiving p \<Longrightarrow> with_current_task (rv_tasks st) cpu = Some t \<Longrightarrow>
    receive_step (rv_tasks st) (rv_chan st) cpu t p = (s', c', p') \<Longrightarrow>
    rv_step st (st\<lparr>rv_tasks := s', rv_chan := c', rv_pcs := (rv_pcs st)(t := Receiving p'),
      rv_taken := rv_taken st @ map (Pair t) (taken_out p p'), rv_failed := rv_failed st \<or> receive_failed p'\<rparr>)"
| return_send: "rv_pcs st t = Sending (SendDone r) \<Longrightarrow>
    rv_step st (st\<lparr>rv_pcs := (rv_pcs st)(t := Idle),
      rv_errors := rv_errors st @ (case r of Inl x \<Rightarrow> [x] | Inr _ \<Rightarrow> [])\<rparr>)"
| return_receive: "rv_pcs st t = Receiving (RecvDone r) \<Longrightarrow>
    rv_step st (st\<lparr>rv_pcs := (rv_pcs st)(t := Idle),
      rv_returned := (rv_returned st)(t := rv_returned st t @ (case r of Inl _ \<Rightarrow> [] | Inr m \<Rightarrow> [m])),
      rv_errors := rv_errors st @ (case r of Inl x \<Rightarrow> [x] | Inr _ \<Rightarrow> [])\<rparr>)"
| env: "rv_step st (st\<lparr>rv_tasks := s'\<rparr>)"

inductive rv_reachable :: "'m rv_state \<Rightarrow> bool" where
  rv_begin: "rv_reachable (rv_start s)"
| rv_next: "rv_reachable st \<Longrightarrow> rv_step st st' \<Longrightarrow> rv_reachable st'"

section \<open>Who holds the halves of the slot\<close>

fun send_holds :: "'m send_pc \<Rightarrow> bool" where
  "send_holds (SendBegin _) = True"
| "send_holds (SendInvalid _) = True"
| "send_holds SendLoop = True"
| "send_holds SendEnd = True"
| "send_holds SendGiveReceiver = True"
| "send_holds SendNotifyReceivers = True"
| "send_holds (SendGiveSender _) = True"
| "send_holds _ = False"

fun receive_holds :: "'m receive_pc \<Rightarrow> bool" where
  "receive_holds RecvBegin = True"
| "receive_holds (RecvInvalid _) = True"
| "receive_holds RecvLoop = True"
| "receive_holds RecvEnd = True"
| "receive_holds (RecvGiveSender _) = True"
| "receive_holds (RecvNotifySenders _) = True"
| "receive_holds (RecvGiveReceiver _) = True"
| "receive_holds _ = False"

definition held_by_sender :: "'m rv_pc \<Rightarrow> 'm send_pc option" where
  "held_by_sender p = (case p of Sending q \<Rightarrow> (if send_holds q then Some q else None) | _ \<Rightarrow> None)"

definition held_by_receiver :: "'m rv_pc \<Rightarrow> 'm receive_pc option" where
  "held_by_receiver p = (case p of Receiving q \<Rightarrow> (if receive_holds q then Some q else None) | _ \<Rightarrow> None)"

text \<open>The sender's half is in the channel, with the sender \<open>sh\<close> whose place is \<open>sp\<close>, owed by the receiver that
  will find the message of a sender that finished first, or about to be put back by that receiver. If a call
  failed it may be lost.\<close>

definition giving_sender :: "'m receive_pc option \<Rightarrow> bool" where
  "giving_sender rp \<longleftrightarrow> (\<exists>m. rp = Some (RecvGiveSender m))"

definition giving_receiver :: "'m send_pc option \<Rightarrow> bool" where
  "giving_receiver sp \<longleftrightarrow> sp = Some SendGiveReceiver"

definition sender_half :: "'m channel \<Rightarrow> taskref option \<Rightarrow> 'm send_pc option \<Rightarrow> 'm receive_pc option \<Rightarrow> bool \<Rightarrow> bool" where
  "sender_half c sh sp rp failed \<longleftrightarrow>
     (sender_slot c \<longrightarrow> sp = None) \<and> (giving_sender rp \<longrightarrow> \<not> sender_slot c \<and> sp = None)
   \<and> (case exchange c of
        WaitingForReceiver u m \<Rightarrow> \<not> sender_slot c \<and> \<not> giving_sender rp
          \<and> (sp = None \<and> failed \<or> sp = Some SendLoop \<and> sh = Some u)
      | ReceiverFinishedFirst \<Rightarrow> \<not> sender_slot c \<and> \<not> giving_sender rp
          \<and> (sp = None \<and> failed \<or> sp = Some SendLoop \<or> sp = Some SendEnd)
      | SenderFinishedFirst m \<Rightarrow> \<not> sender_slot c \<and> \<not> giving_sender rp \<and> sp = None
      | _ \<Rightarrow> sp \<noteq> Some SendLoop \<and> sp \<noteq> Some SendEnd)
   \<and> (sender_slot c \<or> sp \<noteq> None \<or> giving_sender rp \<or> (\<exists>m. exchange c = SenderFinishedFirst m) \<or> failed)"

definition receiver_half :: "'m channel \<Rightarrow> taskref option \<Rightarrow> 'm receive_pc option \<Rightarrow> 'm send_pc option \<Rightarrow> bool \<Rightarrow> bool" where
  "receiver_half c rh rp sp failed \<longleftrightarrow>
     (receiver_slot c \<longrightarrow> rp = None) \<and> (giving_receiver sp \<longrightarrow> \<not> receiver_slot c \<and> rp = None)
   \<and> (case exchange c of
        WaitingForSender u \<Rightarrow> \<not> receiver_slot c \<and> \<not> giving_receiver sp
          \<and> (rp = None \<and> failed \<or> rp = Some RecvLoop \<and> rh = Some u)
      | SenderFinishedFirst m \<Rightarrow> \<not> receiver_slot c \<and> \<not> giving_receiver sp
          \<and> (rp = None \<and> failed \<or> rp = Some RecvLoop \<or> rp = Some RecvEnd)
      | ReceiverFinishedFirst \<Rightarrow> \<not> receiver_slot c \<and> \<not> giving_receiver sp \<and> rp = None
      | _ \<Rightarrow> rp \<noteq> Some RecvLoop \<and> rp \<noteq> Some RecvEnd)
   \<and> (receiver_slot c \<or> rp \<noteq> None \<or> giving_receiver sp \<or> exchange c = ReceiverFinishedFirst \<or> failed)"

text \<open>The error messages of states that must not be begin with \<open>BUG\<close>.\<close>

definition bug :: "string \<Rightarrow> bool" where
  "bug x = (take 3 x = ''BUG'')"

definition send_pc_ok :: "'m send_pc \<Rightarrow> bool" where
  "send_pc_ok p = (case p of SendInvalid _ \<Rightarrow> False | SendInvalidNotify _ \<Rightarrow> False
     | SendGiveSender r \<Rightarrow> r = Ok () | SendNotifySenders r \<Rightarrow> r = Ok () | SendDone (Inl x) \<Rightarrow> \<not> bug x | _ \<Rightarrow> True)"

definition receive_pc_ok :: "'m receive_pc \<Rightarrow> bool" where
  "receive_pc_ok p = (case p of RecvInvalid _ \<Rightarrow> False | RecvInvalidNotify _ \<Rightarrow> False
     | RecvGiveReceiver r \<Rightarrow> \<not> isl r | RecvNotifyReceivers r \<Rightarrow> \<not> isl r | RecvDone (Inl x) \<Rightarrow> \<not> bug x | _ \<Rightarrow> True)"

section \<open>The sections keep it\<close>

lemma half_simps [simp]:
  "sender_half (c\<lparr>waiting_senders := q\<rparr>) = sender_half c"
  "sender_half (c\<lparr>waiting_receivers := q\<rparr>) = sender_half c"
  "sender_half (c\<lparr>receiver_slot := b\<rparr>) = sender_half c"
  "receiver_half (c\<lparr>waiting_senders := q\<rparr>) = receiver_half c"
  "receiver_half (c\<lparr>waiting_receivers := q\<rparr>) = receiver_half c"
  "receiver_half (c\<lparr>sender_slot := b\<rparr>) = receiver_half c"
  by (intro ext, simp add: sender_half_def receiver_half_def, cases "exchange c"; simp)+

lemma sender_half_failed: "sender_half c sh sp rp f \<Longrightarrow> sender_half c sh sp rp True"
  by (auto simp: sender_half_def split: exchange_state.splits)

lemma receiver_half_failed: "receiver_half c rh rp sp f \<Longrightarrow> receiver_half c rh rp sp True"
  by (auto simp: receiver_half_def split: exchange_state.splits)

lemma notify_senders_chan: "notify_senders s c = (s', c') \<Longrightarrow> c' = c\<lparr>waiting_senders := waiting_senders c'\<rparr>"
  by (auto simp: notify_senders_def split: prod.splits)

lemma notify_receivers_chan: "notify_receivers s c = (s', c') \<Longrightarrow> c' = c\<lparr>waiting_receivers := waiting_receivers c'\<rparr>"
  by (auto simp: notify_receivers_def split: prod.splits)

lemma sender_slot_turn_chan:
  assumes "sender_slot_turn s c cpu = (r, s', c')"
  shows "c' = c\<lparr>sender_slot := False, waiting_senders := waiting_senders c'\<rparr> \<and> (r = Ok (Some ()) \<longleftrightarrow> sender_slot c)"
  using assms
  by (auto simp: sender_slot_turn_def wait_iteration_mut_def wait_iteration_def try_take_sender_slot_def Let_def
      split: prod.splits option.splits sum.splits if_splits)

lemma receiver_slot_turn_chan:
  assumes "receiver_slot_turn s c cpu = (r, s', c')"
  shows "c' = c\<lparr>receiver_slot := False, waiting_receivers := waiting_receivers c'\<rparr> \<and> (r = Ok (Some ()) \<longleftrightarrow> receiver_slot c)"
  using assms
  by (auto simp: receiver_slot_turn_def wait_iteration_mut_def wait_iteration_def try_take_receiver_slot_def Let_def
      split: prod.splits option.splits sum.splits if_splits)

lemmas half_defs = sender_half_def receiver_half_def giving_sender_def giving_receiver_def

lemma half_slot_gone [simp]:
  "\<not> sender_slot c \<Longrightarrow> sender_half (c\<lparr>sender_slot := False\<rparr>) = sender_half c"
  "\<not> receiver_slot c \<Longrightarrow> receiver_half (c\<lparr>receiver_slot := False\<rparr>) = receiver_half c"
  by (intro ext, simp add: half_defs, cases "exchange c"; simp)+

lemma sender_takes:
  assumes "sender_slot c" and "sender_half c sh sp rp f" and "receiver_half c rh rp sp f"
  shows "sender_half (c\<lparr>sender_slot := False\<rparr>) (Some t) (Some (SendBegin m)) rp f
    \<and> receiver_half c rh rp (Some (SendBegin m)) f \<and> sp = None"
  using assms by (cases "exchange c") (auto simp: half_defs)

lemma receiver_takes:
  assumes "receiver_slot c" and "receiver_half c rh rp sp f" and "sender_half c sh sp rp f"
  shows "receiver_half (c\<lparr>receiver_slot := False\<rparr>) (Some t) (Some RecvBegin) sp f
    \<and> sender_half c sh sp (Some RecvBegin) f \<and> rp = None"
  using assms by (cases "exchange c") (auto simp: half_defs)

lemma wait_guard_new_task: "wait_guard_new s t = (Inr g, s') \<Longrightarrow> g = t"
  by (cases "block s t"; cases "fst (block s t)") (auto simp: wait_guard_new_def)

lemma send_step_outside:
  assumes "send_step s c cpu p = (s', c', p')" and "send_pc_ok p" and "\<not> send_holds p"
    and inv: "sender_half c sh sp rp f" "receiver_half c rh rp sp f"
  shows "send_pc_ok p' \<and>
    (if send_holds p'
     then sender_half c' (Some t) (Some p') rp (f \<or> send_failed p') \<and> receiver_half c' rh rp (Some p') (f \<or> send_failed p') \<and> sp = None
     else sender_half c' sh sp rp (f \<or> send_failed p') \<and> receiver_half c' rh rp sp (f \<or> send_failed p'))"
proof (cases p)
  case (SendTake m)
  then show ?thesis
    using assms(1) inv sender_takes [OF _ inv]
    by (auto simp: try_take_sender_slot_def send_pc_ok_def send_failed_def split: if_splits)
next
  case (SendSlotWait m)
  obtain r s1 c1 where turn: "sender_slot_turn s c cpu = (r, s1, c1)" by (metis prod_cases3)
  from sender_slot_turn_chan [OF turn] obtain q
    where q: "c1 = c\<lparr>sender_slot := False, waiting_senders := q\<rparr>" "r = Ok (Some ()) \<longleftrightarrow> sender_slot c" by blast
  then show ?thesis
    using assms(1) SendSlotWait turn inv sender_takes [OF _ inv] sender_half_failed [OF inv(1)] receiver_half_failed [OF inv(2)]
    by (auto simp: send_pc_ok_def send_failed_def bug_def split: sum.splits option.splits)
next
  case (SendNotifySenders r)
  then obtain q where "c' = c\<lparr>waiting_senders := q\<rparr>" "p' = SendDone r"
    using assms(1) notify_senders_chan [of s c] by (auto split: prod.splits)
  then show ?thesis
    using assms(2) SendNotifySenders inv by (simp add: send_pc_ok_def send_failed_def)
qed (use assms sender_half_failed [OF inv(1)] receiver_half_failed [OF inv(2)] in
  \<open>auto simp: send_pc_ok_def send_failed_def split: option.splits sum.splits\<close>)

lemma send_step_inside:
  assumes cur: "with_current_task s cpu = Some t" and step: "send_step s c cpu p = (s', c', p')"
    and ok: "send_pc_ok p" and held: "send_holds p"
    and inv: "sender_half c (Some t) (Some p) rp f" "receiver_half c rh rp (Some p) f"
  shows "send_pc_ok p' \<and>
    (if send_holds p'
     then sender_half c' (Some t) (Some p') rp (f \<or> send_failed p') \<and> receiver_half c' rh rp (Some p') (f \<or> send_failed p')
     else sender_half c' None None rp (f \<or> send_failed p') \<and> receiver_half c' rh rp None (f \<or> send_failed p'))"
proof (cases p)
  case (SendBegin m)
  show ?thesis
  proof (cases "exchange c")
    case Init
    obtain g s1 where g: "wait_guard_new s t = (g, s1)" by force
    then show ?thesis
      using SendBegin step inv cur Init wait_guard_new_task [of s t _ s1]
      by (cases g) (auto simp: half_defs send_begin_def send_pc_ok_def send_failed_def bug_def)
  qed (use SendBegin step inv in \<open>auto simp: half_defs send_begin_def send_pc_ok_def send_failed_def\<close>)
next
  case SendLoop
  then show ?thesis
    using step inv cur
    by (cases "exchange c")
      (auto simp: half_defs send_wait_def send_pc_ok_def send_failed_def bug_def split: prod.splits sum.splits bool.splits if_splits)
next
  case SendEnd
  then show ?thesis
    using step inv by (cases "exchange c") (auto simp: half_defs send_end_def send_pc_ok_def send_failed_def)
next
  case SendNotifyReceivers
  then obtain q where "c' = c\<lparr>waiting_receivers := q\<rparr>" "p' = SendGiveSender (Ok ())"
    using step notify_receivers_chan [of s c] by (auto split: prod.splits)
  then show ?thesis
    using SendNotifyReceivers inv by (cases "exchange c") (auto simp: half_defs send_pc_ok_def send_failed_def)
next
  case SendGiveReceiver
  then show ?thesis
    using step inv by (cases "exchange c") (auto simp: half_defs replace_receiver_slot_def send_pc_ok_def send_failed_def)
next
  case (SendGiveSender r)
  then show ?thesis
    using step inv ok by (cases "exchange c") (auto simp: half_defs replace_sender_slot_def send_pc_ok_def send_failed_def)
qed (use held ok in \<open>auto simp: send_pc_ok_def\<close>)

lemma receive_step_outside:
  assumes "receive_step s c cpu t p = (s', c', p')" and "receive_pc_ok p" and "\<not> receive_holds p"
    and inv: "receiver_half c rh rp sp f" "sender_half c sh sp rp f"
  shows "receive_pc_ok p' \<and>
    (if receive_holds p'
     then receiver_half c' (Some t) (Some p') sp (f \<or> receive_failed p') \<and> sender_half c' sh sp (Some p') (f \<or> receive_failed p') \<and> rp = None
     else receiver_half c' rh rp sp (f \<or> receive_failed p') \<and> sender_half c' sh sp rp (f \<or> receive_failed p'))"
proof (cases p)
  case RecvTake
  then show ?thesis
    using assms(1) inv receiver_takes [OF _ inv]
    by (auto simp: try_take_receiver_slot_def receive_pc_ok_def receive_failed_def split: if_splits)
next
  case RecvSlotWait
  obtain r s1 c1 where turn: "receiver_slot_turn s c cpu = (r, s1, c1)" by (metis prod_cases3)
  from receiver_slot_turn_chan [OF turn] obtain q
    where q: "c1 = c\<lparr>receiver_slot := False, waiting_receivers := q\<rparr>" "r = Ok (Some ()) \<longleftrightarrow> receiver_slot c" by blast
  then show ?thesis
    using assms(1) RecvSlotWait turn inv receiver_takes [OF _ inv] receiver_half_failed [OF inv(1)] sender_half_failed [OF inv(2)]
    by (auto simp: receive_pc_ok_def receive_failed_def bug_def split: sum.splits option.splits)
next
  case (RecvNotifyReceivers r)
  then obtain q where "c' = c\<lparr>waiting_receivers := q\<rparr>" "p' = RecvDone r"
    using assms(1) notify_receivers_chan [of s c] by (auto split: prod.splits)
  then show ?thesis
    using assms(2) RecvNotifyReceivers inv by (cases r) (simp_all add: receive_pc_ok_def receive_failed_def)
qed (use assms receiver_half_failed [OF inv(1)] sender_half_failed [OF inv(2)] in
  \<open>auto simp: receive_pc_ok_def receive_failed_def split: option.splits sum.splits\<close>)

lemma receive_step_inside:
  assumes step: "receive_step s c cpu t p = (s', c', p')" and ok: "receive_pc_ok p" and held: "receive_holds p"
    and inv: "receiver_half c (Some t) (Some p) sp f" "sender_half c sh sp (Some p) f"
  shows "receive_pc_ok p' \<and>
    (if receive_holds p'
     then receiver_half c' (Some t) (Some p') sp (f \<or> receive_failed p') \<and> sender_half c' sh sp (Some p') (f \<or> receive_failed p')
     else receiver_half c' None None sp (f \<or> receive_failed p') \<and> sender_half c' sh sp None (f \<or> receive_failed p'))"
proof (cases p)
  case RecvBegin
  show ?thesis
  proof (cases "exchange c")
    case Init
    obtain g s1 where g: "wait_guard_new s t = (g, s1)" by force
    then show ?thesis
      using RecvBegin step inv Init wait_guard_new_task [of s t _ s1]
      by (cases g) (auto simp: half_defs receive_begin_def receive_pc_ok_def receive_failed_def bug_def)
  qed (use RecvBegin step inv in \<open>auto simp: half_defs receive_begin_def receive_pc_ok_def receive_failed_def\<close>)
next
  case RecvLoop
  then show ?thesis
    using step inv
    by (cases "exchange c")
      (auto simp: half_defs receive_wait_def receive_pc_ok_def receive_failed_def bug_def split: prod.splits sum.splits bool.splits if_splits)
next
  case RecvEnd
  then show ?thesis
    using step inv by (cases "exchange c") (auto simp: half_defs receive_end_def receive_pc_ok_def receive_failed_def)
next
  case (RecvNotifySenders m)
  then obtain q where "c' = c\<lparr>waiting_senders := q\<rparr>" "p' = RecvGiveReceiver (Ok m)"
    using step notify_senders_chan [of s c] by (auto split: prod.splits)
  then show ?thesis
    using RecvNotifySenders inv by (cases "exchange c") (auto simp: half_defs receive_pc_ok_def receive_failed_def)
next
  case (RecvGiveSender m)
  then show ?thesis
    using step inv by (cases "exchange c") (auto simp: half_defs replace_sender_slot_def receive_pc_ok_def receive_failed_def)
next
  case (RecvGiveReceiver r)
  then show ?thesis
    using step inv ok by (cases "exchange c") (auto simp: half_defs replace_receiver_slot_def receive_pc_ok_def receive_failed_def)
qed (use held ok in \<open>auto simp: receive_pc_ok_def\<close>)

section \<open>The invariant\<close>

definition pc_ok :: "'m rv_pc \<Rightarrow> bool" where
  "pc_ok p = (case p of Sending q \<Rightarrow> send_pc_ok q | Receiving q \<Rightarrow> receive_pc_ok q | Idle \<Rightarrow> True)"

definition slots_inv :: "'m channel \<Rightarrow> (taskref \<Rightarrow> 'm rv_pc) \<Rightarrow> bool \<Rightarrow> bool" where
  "slots_inv c pcs failed \<longleftrightarrow> (\<exists>h k.
     (\<forall>t q. held_by_sender (pcs t) = Some q \<longleftrightarrow> h = Some (t, q))
   \<and> (\<forall>t q. held_by_receiver (pcs t) = Some q \<longleftrightarrow> k = Some (t, q))
   \<and> sender_half c (map_option fst h) (map_option snd h) (map_option snd k) failed
   \<and> receiver_half c (map_option fst k) (map_option snd k) (map_option snd h) failed)
   \<and> (\<forall>t. pc_ok (pcs t))"

lemma held_simps [simp]:
  "held_by_sender (Sending p) = (if send_holds p then Some p else None)"
  "held_by_sender (Receiving r) = None" "held_by_sender Idle = None"
  "held_by_receiver (Receiving r) = (if receive_holds r then Some r else None)"
  "held_by_receiver (Sending p) = None" "held_by_receiver Idle = None"
  by (simp_all add: held_by_sender_def held_by_receiver_def)

lemma slots_inv_quiet:
  assumes "slots_inv c pcs f" and "held_by_sender (pcs t) = None" "held_by_receiver (pcs t) = None"
    and "held_by_sender p = None" "held_by_receiver p = None" "pc_ok p"
  shows "slots_inv c (pcs(t := p)) f"
proof -
  obtain h k where h: "\<forall>t q. held_by_sender (pcs t) = Some q \<longleftrightarrow> h = Some (t, q)"
    and k: "\<forall>t q. held_by_receiver (pcs t) = Some q \<longleftrightarrow> k = Some (t, q)"
    and inv: "sender_half c (map_option fst h) (map_option snd h) (map_option snd k) f"
      "receiver_half c (map_option fst k) (map_option snd k) (map_option snd h) f" and ok: "\<forall>t. pc_ok (pcs t)"
    using assms(1) unfolding slots_inv_def by blast
  have "held_by_sender ((pcs(t := p)) u) = Some q \<longleftrightarrow> h = Some (u, q)"
    "held_by_receiver ((pcs(t := p)) u) = Some r \<longleftrightarrow> k = Some (u, r)" for u q r
    using h k assms(2-5) by (metis fun_upd_other fun_upd_same)+
  then show ?thesis
    unfolding slots_inv_def using inv ok assms(6) by (intro conjI exI [of _ h] exI [of _ k]) simp_all
qed

lemma slots_inv_send:
  assumes "slots_inv c pcs f" and "pcs t = Sending p" and cur: "with_current_task s cpu = Some t"
    and step: "send_step s c cpu p = (s', c', p')"
  shows "slots_inv c' (pcs(t := Sending p')) (f \<or> send_failed p')"
proof -
  obtain h k where h: "\<forall>t q. held_by_sender (pcs t) = Some q \<longleftrightarrow> h = Some (t, q)"
    and k: "\<forall>t q. held_by_receiver (pcs t) = Some q \<longleftrightarrow> k = Some (t, q)"
    and inv: "sender_half c (map_option fst h) (map_option snd h) (map_option snd k) f"
      "receiver_half c (map_option fst k) (map_option snd k) (map_option snd h) f" and ok: "\<forall>t. pc_ok (pcs t)"
    using assms(1) unfolding slots_inv_def by blast
  have p: "send_pc_ok p" "\<And>q. h = Some (t, q) \<longleftrightarrow> send_holds p \<and> q = p"
    using spec [OF ok, of t] spec [OF h, of t] assms(2) by (auto simp: pc_ok_def split: if_splits)
  define h' where "h' = (if send_holds p' then Some (t, p') else if send_holds p then None else h)"
  have new: "send_pc_ok p' \<and> sender_half c' (map_option fst h') (map_option snd h') (map_option snd k) (f \<or> send_failed p')
    \<and> receiver_half c' (map_option fst k) (map_option snd k) (map_option snd h') (f \<or> send_failed p')
    \<and> (send_holds p' \<and> \<not> send_holds p \<longrightarrow> h = None)"
    using send_step_outside [OF step p(1) _ inv, of t] send_step_inside [OF cur step p(1), of "map_option snd k" f "map_option fst k"]
      inv p(2) [of p] by (cases "send_holds p") (auto simp: h'_def split: if_splits)
  have "held_by_sender ((pcs(t := Sending p')) u) = Some q \<longleftrightarrow> h' = Some (u, q)" for u q
    using h new p(2) assms(2) by (cases "u = t") (auto simp: h'_def split: if_splits)
  moreover have "held_by_receiver ((pcs(t := Sending p')) u) = Some q \<longleftrightarrow> k = Some (u, q)" for u q
    using k assms(2) by (cases "u = t") (auto, metis held_simps(5) option.distinct(1))
  ultimately show ?thesis
    unfolding slots_inv_def using new ok by (intro conjI exI [of _ h'] exI [of _ k]) (simp_all add: pc_ok_def)
qed

lemma slots_inv_receive:
  assumes "slots_inv c pcs f" and "pcs t = Receiving p" and step: "receive_step s c cpu t p = (s', c', p')"
  shows "slots_inv c' (pcs(t := Receiving p')) (f \<or> receive_failed p')"
proof -
  obtain h k where h: "\<forall>t q. held_by_sender (pcs t) = Some q \<longleftrightarrow> h = Some (t, q)"
    and k: "\<forall>t q. held_by_receiver (pcs t) = Some q \<longleftrightarrow> k = Some (t, q)"
    and inv: "receiver_half c (map_option fst k) (map_option snd k) (map_option snd h) f"
      "sender_half c (map_option fst h) (map_option snd h) (map_option snd k) f" and ok: "\<forall>t. pc_ok (pcs t)"
    using assms(1) unfolding slots_inv_def by blast
  have p: "receive_pc_ok p" "\<And>q. k = Some (t, q) \<longleftrightarrow> receive_holds p \<and> q = p"
    using spec [OF ok, of t] spec [OF k, of t] assms(2) by (auto simp: pc_ok_def split: if_splits)
  define k' where "k' = (if receive_holds p' then Some (t, p') else if receive_holds p then None else k)"
  have new: "receive_pc_ok p' \<and> receiver_half c' (map_option fst k') (map_option snd k') (map_option snd h) (f \<or> receive_failed p')
    \<and> sender_half c' (map_option fst h) (map_option snd h) (map_option snd k') (f \<or> receive_failed p')
    \<and> (receive_holds p' \<and> \<not> receive_holds p \<longrightarrow> k = None)"
    using receive_step_outside [OF step p(1) _ inv] receive_step_inside [OF step p(1), of "map_option snd h" f "map_option fst h"]
      inv p(2) [of p] by (cases "receive_holds p") (auto simp: k'_def split: if_splits)
  have "held_by_receiver ((pcs(t := Receiving p')) u) = Some q \<longleftrightarrow> k' = Some (u, q)" for u q
    using k new p(2) assms(2) by (cases "u = t") (auto simp: k'_def split: if_splits)
  moreover have "held_by_sender ((pcs(t := Receiving p')) u) = Some q \<longleftrightarrow> h = Some (u, q)" for u q
    using h assms(2) by (cases "u = t") (auto, metis held_simps(2) option.distinct(1))
  ultimately show ?thesis
    unfolding slots_inv_def using new ok by (intro conjI exI [of _ h] exI [of _ k']) (simp_all add: pc_ok_def)
qed

section \<open>The messages\<close>

definition pending :: "'m exchange_state \<Rightarrow> 'm list" where
  "pending e = (case e of WaitingForReceiver _ m \<Rightarrow> [m] | SenderFinishedFirst m \<Rightarrow> [m] | _ \<Rightarrow> [])"

definition in_hand :: "'m receive_pc \<Rightarrow> 'm list" where
  "in_hand p = (case p of RecvDrop _ m \<Rightarrow> [m] | RecvGiveSender m \<Rightarrow> [m] | RecvNotifySenders m \<Rightarrow> [m]
     | RecvGiveReceiver (Inr m) \<Rightarrow> [m] | RecvNotifyReceivers (Inr m) \<Rightarrow> [m] | RecvDone (Inr m) \<Rightarrow> [m] | _ \<Rightarrow> [])"

lemma in_hand_take: "in_hand RecvTake = []"
  by (simp add: in_hand_def)

definition taken_by :: "taskref \<Rightarrow> (taskref \<times> 'm) list \<Rightarrow> 'm list" where
  "taken_by t taken = map snd (filter (\<lambda>x. fst x = t) taken)"

definition task_msgs :: "'m list \<Rightarrow> 'm list \<Rightarrow> 'm rv_pc \<Rightarrow> bool" where
  "task_msgs taken returned p \<longleftrightarrow>
     p = Receiving RecvPanicked \<or> taken = returned @ (case p of Receiving q \<Rightarrow> in_hand q | _ \<Rightarrow> [])"

definition msgs_inv :: "'m rv_state \<Rightarrow> bool" where
  "msgs_inv st \<longleftrightarrow> rv_sent st = map snd (rv_taken st) @ pending (exchange (rv_chan st))
    \<and> (\<forall>t. task_msgs (taken_by t (rv_taken st)) (rv_returned st t) (rv_pcs st t))"

lemma task_msgs_simps [simp]:
  "task_msgs xs ys Idle \<longleftrightarrow> xs = ys"
  "task_msgs xs ys (Sending p) \<longleftrightarrow> xs = ys"
  "task_msgs xs ys (Receiving q) \<longleftrightarrow> q = RecvPanicked \<or> xs = ys @ in_hand q"
  by (simp_all add: task_msgs_def)

lemma notify_exchange:
  "notify_senders s c = (s', c') \<Longrightarrow> exchange c' = exchange c"
  "notify_receivers s c = (s', c') \<Longrightarrow> exchange c' = exchange c"
  by (auto simp: notify_senders_def notify_receivers_def split: prod.splits)

lemma slot_turn_exchange:
  "sender_slot_turn s c cpu = (r, s', c') \<Longrightarrow> exchange c' = exchange c"
  "receiver_slot_turn s c cpu = (r, s', c') \<Longrightarrow> exchange c' = exchange c"
  by (frule sender_slot_turn_chan receiver_slot_turn_chan, elim conjE, erule ssubst, simp)+

lemma send_step_pending:
  assumes "send_step s c cpu p = (s', c', p')"
  shows "pending (exchange c') = pending (exchange c) @ put_in p p'"
proof (cases p)
  case (SendBegin m)
  then show ?thesis
    using assms by (cases "exchange c") (auto simp: send_begin_def pending_def put_in_def split: prod.splits sum.splits option.splits)
next
  case SendEnd
  then show ?thesis using assms by (cases "exchange c") (auto simp: send_end_def pending_def put_in_def)
qed (use assms in
  \<open>auto dest!: notify_exchange slot_turn_exchange simp: put_in_def try_take_sender_slot_def replace_sender_slot_def replace_receiver_slot_def
    split: prod.splits sum.splits option.splits bool.splits if_splits\<close>)

lemma receive_step_pending:
  assumes "receive_step s c cpu t p = (s', c', p')"
  shows "pending (exchange c) = taken_out p p' @ pending (exchange c')"
proof (cases p)
  case RecvBegin
  then show ?thesis
    using assms by (cases "exchange c") (auto simp: receive_begin_def pending_def taken_out_def split: prod.splits sum.splits)
next
  case RecvEnd
  then show ?thesis using assms by (cases "exchange c") (auto simp: receive_end_def pending_def taken_out_def)
qed (use assms in
  \<open>auto dest!: notify_exchange slot_turn_exchange simp: taken_out_def try_take_receiver_slot_def replace_sender_slot_def replace_receiver_slot_def
    split: prod.splits sum.splits option.splits bool.splits if_splits\<close>)

lemma receive_step_in_hand:
  assumes "receive_step s c cpu t p = (s', c', p')"
  shows "p' = RecvPanicked \<or> p \<noteq> RecvPanicked \<and> in_hand p' = in_hand p @ taken_out p p'"
  using assms
  by (cases p)
    (auto simp: in_hand_def taken_out_def receive_begin_def receive_end_def
      split: prod.splits sum.splits option.splits bool.splits exchange_state.splits arrival.splits)

lemma taken_by_append: "taken_by t (xs @ map (Pair u) ms) = taken_by t xs @ (if u = t then ms else [])"
  by (induction ms) (auto simp: taken_by_def)

definition rv_inv :: "'m rv_state \<Rightarrow> bool" where
  "rv_inv st \<longleftrightarrow> slots_inv (rv_chan st) (rv_pcs st) (rv_failed st) \<and> msgs_inv st \<and> (\<forall>x\<in>set (rv_errors st). \<not> bug x)"

lemma rv_start_inv: "rv_inv (rv_start s)"
proof -
  have "slots_inv new_channel (\<lambda>_. Idle :: 'm rv_pc) False"
    unfolding slots_inv_def by (intro conjI exI [of _ None]) (simp_all add: half_defs new_channel_def pc_ok_def)
  then show ?thesis by (simp add: rv_inv_def rv_start_def msgs_inv_def new_channel_def pending_def taken_by_def)
qed

lemma slots_inv_pc: "slots_inv c pcs f \<Longrightarrow> pc_ok (pcs t)"
  by (simp add: slots_inv_def)

lemma rv_step_inv: "rv_step st st' \<Longrightarrow> rv_inv st \<Longrightarrow> rv_inv st'"
proof (induction rule: rv_step.induct)
  case (call_send st t m)
  then have "task_msgs (taken_by t (rv_taken st)) (rv_returned st t) (Sending (SendTake m))"
    unfolding rv_inv_def msgs_inv_def by (metis task_msgs_simps(1,2))
  then show ?case
    using call_send slots_inv_quiet [of "rv_chan st" "rv_pcs st" "rv_failed st" t "Sending (SendTake m)"]
    by (simp add: rv_inv_def msgs_inv_def pc_ok_def send_pc_ok_def)
next
  case (call_receive st t)
  then have "task_msgs (taken_by t (rv_taken st)) (rv_returned st t) (Receiving RecvTake)"
    unfolding rv_inv_def msgs_inv_def by (metis append_Nil2 task_msgs_simps(1,3) in_hand_take)
  then show ?case
    using call_receive slots_inv_quiet [of "rv_chan st" "rv_pcs st" "rv_failed st" t "Receiving RecvTake"]
    by (simp add: rv_inv_def msgs_inv_def pc_ok_def receive_pc_ok_def)
next
  case (send st t p cpu s' c' p')
  have "taken_by t (rv_taken st) = rv_returned st t"
    using send unfolding rv_inv_def msgs_inv_def by (metis task_msgs_simps(2))
  then show ?case
    using send slots_inv_send [where pcs = "rv_pcs st", OF _ send(1-3)] send_step_pending [OF send(3)]
    by (simp add: rv_inv_def msgs_inv_def)
next
  case (receive st t p cpu s' c' p')
  have "task_msgs (taken_by t (rv_taken st)) (rv_returned st t) (Receiving p)"
    using receive unfolding rv_inv_def msgs_inv_def by metis
  then have "task_msgs (taken_by t (rv_taken st) @ taken_out p p') (rv_returned st t) (Receiving p')"
    using receive_step_in_hand [OF receive(3)] by auto
  then show ?case
    using receive slots_inv_receive [where pcs = "rv_pcs st", OF _ receive(1,3)] receive_step_pending [OF receive(3)]
    by (simp add: rv_inv_def msgs_inv_def taken_by_append comp_def)
next
  case (return_send st t r)
  then have "pc_ok (Sending (SendDone r) :: 'a rv_pc)" "taken_by t (rv_taken st) = rv_returned st t"
    using slots_inv_pc [of "rv_chan st" "rv_pcs st" "rv_failed st" t]
    unfolding rv_inv_def msgs_inv_def by (metis task_msgs_simps(2))+
  then show ?case
    using return_send slots_inv_quiet [of "rv_chan st" "rv_pcs st" "rv_failed st" t Idle]
    by (cases r) (auto simp: rv_inv_def msgs_inv_def pc_ok_def send_pc_ok_def)
next
  case (return_receive st t r)
  then have "pc_ok (Receiving (RecvDone r))" "task_msgs (taken_by t (rv_taken st)) (rv_returned st t) (Receiving (RecvDone r))"
    using slots_inv_pc [of "rv_chan st" "rv_pcs st" "rv_failed st" t] unfolding rv_inv_def msgs_inv_def by metis+
  then show ?case
    using return_receive slots_inv_quiet [of "rv_chan st" "rv_pcs st" "rv_failed st" t Idle]
    by (cases r) (auto simp: rv_inv_def msgs_inv_def pc_ok_def receive_pc_ok_def in_hand_def)
next
  case (env st s')
  then show ?case by (simp add: rv_inv_def msgs_inv_def)
qed

lemma rv_reachable_inv: "rv_reachable st \<Longrightarrow> rv_inv st"
  by (induction rule: rv_reachable.induct) (auto intro: rv_start_inv rv_step_inv)

lemma slots_inv_idle:
  assumes "slots_inv c pcs False" and "\<forall>t. pcs t = Idle"
  shows "sender_slot c \<and> receiver_slot c \<and> exchange c = Init"
proof -
  obtain h k where none: "\<forall>t q. h \<noteq> Some (t, q)" "\<forall>t q. k \<noteq> Some (t, q)"
    and inv: "sender_half c (map_option fst h) (map_option snd h) (map_option snd k) False"
      "receiver_half c (map_option fst k) (map_option snd k) (map_option snd h) False"
    using assms by (auto simp: slots_inv_def)
  have "h = None" using none(1) by (cases h) auto
  moreover have "k = None" using none(2) by (cases k) auto
  ultimately show ?thesis using inv by (cases "exchange c") (auto simp: half_defs)
qed

section \<open>Properties\<close>

text \<open>
  (C38) With any number of senders and receivers, in any order of their steps: the messages that receivers took
  are those that senders put in, in the same order and each once, the last one possibly still waiting; every
  task gets from its calls of \<open>receive\<close> exactly the messages it took; no call ever finds one of the states that
  the code reports as a bug; and when no call has failed and no call is under way, both halves of the slot
  are in the channel again and the exchange is as it was at the start.
\<close>
theorem rendezvous_exact:
  assumes "rv_reachable st"
  shows "rv_sent st = map snd (rv_taken st) @ pending (exchange (rv_chan st))
    \<and> (\<forall>t. rv_pcs st t = Idle \<longrightarrow> rv_returned st t = taken_by t (rv_taken st))
    \<and> (\<forall>x\<in>set (rv_errors st). \<not> bug x)
    \<and> (\<not> rv_failed st \<and> (\<forall>t. rv_pcs st t = Idle) \<longrightarrow>
         sender_slot (rv_chan st) \<and> receiver_slot (rv_chan st) \<and> exchange (rv_chan st) = Init)"
proof -
  have inv: "rv_inv st" by (rule rv_reachable_inv) fact
  then have "rv_returned st t = taken_by t (rv_taken st)" if "rv_pcs st t = Idle" for t
    using that unfolding rv_inv_def msgs_inv_def by (metis task_msgs_simps(1))
  moreover have "sender_slot (rv_chan st) \<and> receiver_slot (rv_chan st) \<and> exchange (rv_chan st) = Init"
    if "\<not> rv_failed st" "\<forall>t. rv_pcs st t = Idle"
    using slots_inv_idle [of "rv_chan st" "rv_pcs st"] inv that by (simp add: rv_inv_def)
  ultimately show ?thesis using inv by (auto simp: rv_inv_def msgs_inv_def)
qed

text \<open>A schedule: which task makes its next step, calls or returns, and what the rest of the system does.\<close>

datatype 'm rv_action = CallSend taskref 'm | CallReceive taskref | Run u8 taskref | Return taskref | Env task_system

fun rv_do :: "'m rv_action \<Rightarrow> 'm rv_state \<Rightarrow> 'm rv_state option" where
  "rv_do (CallSend t m) st =
     (if rv_pcs st t = Idle then Some (st\<lparr>rv_pcs := (rv_pcs st)(t := Sending (SendTake m))\<rparr>) else None)"
| "rv_do (CallReceive t) st =
     (if rv_pcs st t = Idle then Some (st\<lparr>rv_pcs := (rv_pcs st)(t := Receiving RecvTake)\<rparr>) else None)"
| "rv_do (Run cpu t) st =
     (if with_current_task (rv_tasks st) cpu \<noteq> Some t then None
      else case rv_pcs st t of
        Idle \<Rightarrow> None
      | Sending p \<Rightarrow> (case send_step (rv_tasks st) (rv_chan st) cpu p of (s', c', p') \<Rightarrow>
          Some (st\<lparr>rv_tasks := s', rv_chan := c', rv_pcs := (rv_pcs st)(t := Sending p'),
            rv_sent := rv_sent st @ put_in p p', rv_failed := rv_failed st \<or> send_failed p'\<rparr>))
      | Receiving p \<Rightarrow> (case receive_step (rv_tasks st) (rv_chan st) cpu t p of (s', c', p') \<Rightarrow>
          Some (st\<lparr>rv_tasks := s', rv_chan := c', rv_pcs := (rv_pcs st)(t := Receiving p'),
            rv_taken := rv_taken st @ map (Pair t) (taken_out p p'), rv_failed := rv_failed st \<or> receive_failed p'\<rparr>)))"
| "rv_do (Return t) st =
     (case rv_pcs st t of
        Sending (SendDone r) \<Rightarrow> Some (st\<lparr>rv_pcs := (rv_pcs st)(t := Idle),
          rv_errors := rv_errors st @ (case r of Inl x \<Rightarrow> [x] | Inr _ \<Rightarrow> [])\<rparr>)
      | Receiving (RecvDone r) \<Rightarrow> Some (st\<lparr>rv_pcs := (rv_pcs st)(t := Idle),
          rv_returned := (rv_returned st)(t := rv_returned st t @ (case r of Inl _ \<Rightarrow> [] | Inr m \<Rightarrow> [m])),
          rv_errors := rv_errors st @ (case r of Inl x \<Rightarrow> [x] | Inr _ \<Rightarrow> [])\<rparr>)
      | _ \<Rightarrow> None)"
| "rv_do (Env s') st = Some (st\<lparr>rv_tasks := s'\<rparr>)"

fun rv_run :: "'m rv_action list \<Rightarrow> 'm rv_state \<Rightarrow> 'm rv_state option" where
  "rv_run [] st = Some st"
| "rv_run (a # as) st = Option.bind (rv_do a st) (rv_run as)"

lemma rv_do_step:
  assumes "rv_do a st = Some st'"
  shows "rv_step st st'"
proof (cases a)
  case (Run cpu t)
  then show ?thesis
    using assms by (auto split: if_splits rv_pc.splits prod.splits intro: rv_step.send rv_step.receive)
next
  case (Return t)
  then show ?thesis
    using assms return_send [of st t] return_receive [of st t]
    by (auto split: rv_pc.splits send_pc.splits receive_pc.splits)
qed (use assms in \<open>auto split: if_splits intro: rv_step.intros\<close>)

lemma rv_run_reachable: "rv_reachable st \<Longrightarrow> rv_run as st = Some st' \<Longrightarrow> rv_reachable st'"
proof (induction as arbitrary: st)
  case (Cons a as)
  then obtain st1 where "rv_do a st = Some st1" "rv_run as st1 = Some st'" by (auto simp: bind_eq_Some_conv)
  then show ?case using Cons.IH rv_next [OF Cons.prems(1) rv_do_step] by blast
qed simp

definition two_cpus :: task_system where
  "two_cpus = example_tasks\<lparr>cpu_tls := [0 \<mapsto> 1, 1 \<mapsto> 2], tls_current := [1 \<mapsto> 1, 2 \<mapsto> 2]\<rparr>"

definition example_schedule :: "nat rv_action list" where
  "example_schedule = [CallReceive 1, Run 0 1, Run 0 1, CallSend 2 7, Run 1 2, Run 1 2, Run 1 2, Return 2,
     Run 0 1, Run 0 1, Run 0 1, Run 0 1, Run 0 1, Run 0 1, Return 1]"

theorem rendezvous_exact_witness:
  "\<exists>st. rv_run example_schedule (rv_start two_cpus) = Some st \<and> rv_sent st = [7] \<and> rv_returned st 1 = [7]
    \<and> sender_slot (rv_chan st) \<and> receiver_slot (rv_chan st) \<and> exchange (rv_chan st) = Init"
proof -
  note ev = rv_start_def new_channel_def wq_new_def two_cpus_def example_tasks_def task_new_internal_def with_current_task_def
    try_take_sender_slot_def try_take_receiver_slot_def replace_sender_slot_def replace_receiver_slot_def
    send_begin_def receive_begin_def receive_wait_def receive_end_def wait_guard_new_def wait_guard_drop_def
    block_def unblock_def compare_exchange_def runstate_def upd_def notify_senders_def notify_receivers_def notify_one_eq
    put_in_def taken_out_def send_failed_def receive_failed_def
  have "\<exists>st. rv_run example_schedule (rv_start two_cpus) = Some st \<and> rv_taken st = [(1, 7)] \<and> \<not> rv_failed st
    \<and> (\<forall>t. rv_pcs st t = Idle)"
    by (simp add: example_schedule_def ev)
  then obtain st where st: "rv_run example_schedule (rv_start two_cpus) = Some st" "rv_taken st = [(1, 7)]" "\<not> rv_failed st"
    "\<forall>t. rv_pcs st t = Idle" by blast
  from rendezvous_exact [OF rv_run_reachable [OF rv_begin st(1)]] st show ?thesis
    by (auto simp: taken_by_def pending_def)
qed

text \<open>A sender whose task is killed between taking the slot and its arrival returns an error without putting the
  slot back, and no later sender can get it.\<close>

lemma sender_slot_lost:
  "\<exists>st :: nat rv_state. rv_reachable st \<and> (\<forall>t. rv_pcs st t = Idle) \<and> \<not> sender_slot (rv_chan st)
    \<and> rv_errors st = [''failed to create wait guard'']"
proof -
  let ?killed = "upd two_cpus 1 (task_runstate_update (\<lambda>_. Exited))"
  have "\<exists>st. rv_run [CallSend 1 7, Run 0 1, Env ?killed, Run 0 1, Return 1] (rv_start two_cpus) = Some (st :: nat rv_state)
    \<and> (\<forall>t. rv_pcs st t = Idle) \<and> \<not> sender_slot (rv_chan st) \<and> rv_errors st = [''failed to create wait guard'']"
    by (simp add: rv_start_def new_channel_def two_cpus_def example_tasks_def task_new_internal_def with_current_task_def
        try_take_sender_slot_def send_begin_def wait_guard_new_def block_def compare_exchange_def runstate_def upd_def)
  then show ?thesis using rv_run_reachable [OF rv_begin] by blast
qed

end
