(* ===== verification/AtomicList.thy ===== *)
theory AtomicList
  imports Prelude
begin

text \<open>
  The lock-free list \<^verbatim>\<open>src/libs/atomic_linked_list/src/atomic_linked_list.rs\<close> with the interleaving of its
  atomic steps. The heap maps addresses to nodes; each thread has a program counter with the local
  variables of \<open>push_front_timeout\<close> or of the iterator. \<open>compare_exchange_weak\<close> may fail although the head has
  not changed. Memory orderings are those of a sequentially consistent machine.

  The fields \<open>pushed\<close> and the last argument of \<open>IterAt\<close> and \<open>IterDone\<close> record history for the statements; no
  step reads them.
\<close>

section \<open>State\<close>

type_synonym ptr = nat

record 'a node =
  node_data :: 'a
  node_next :: "ptr option"

datatype 'a pc =
    Idle
  | Allocated ptr nat
  | Looping ptr "ptr option" nat
  | Linked ptr "ptr option" nat
  | Returned "(unit, 'a) result"
  | IterHead
  | IterAt ptr "'a list" "'a list"
  | IterDone "'a list" "'a list"

record 'a alist =
  head :: "ptr option"
  heap :: "ptr \<rightharpoonup> 'a node"
  pcs :: "nat \<Rightarrow> 'a pc"
  pushed :: "'a list"

definition alist_new :: "'a alist" where
  "alist_new = \<lparr>head = None, heap = Map.empty, pcs = (\<lambda>_. Idle), pushed = []\<rparr>"

definition node_new :: "'a \<Rightarrow> 'a node" where
  "node_new x = \<lparr>node_data = x, node_next = None\<rparr>"

section \<open>Steps\<close>

text \<open>\<open>push_front_timeout\<close>: the node is allocated, the head loaded; each attempt links the node and
  compares and exchanges the head; after the last attempt the node is freed.\<close>

inductive push_step :: "nat \<Rightarrow> 'a alist \<Rightarrow> 'a alist \<Rightarrow> bool" where
  alloc: "pcs st i = Idle \<Longrightarrow> heap st p = None \<Longrightarrow>
    push_step i st (st\<lparr>heap := (heap st)(p \<mapsto> node_new x), pcs := (pcs st)(i := Allocated p (max max_attempts 1))\<rparr>)"
| load: "pcs st i = Allocated p k \<Longrightarrow>
    push_step i st (st\<lparr>pcs := (pcs st)(i := Looping p (head st) k)\<rparr>)"
| link: "pcs st i = Looping p orig (Suc k) \<Longrightarrow> heap st p = Some n \<Longrightarrow>
    push_step i st (st\<lparr>heap := (heap st)(p \<mapsto> n\<lparr>node_next := orig\<rparr>), pcs := (pcs st)(i := Linked p orig k)\<rparr>)"
| cas_ok: "pcs st i = Linked p orig k \<Longrightarrow> head st = orig \<Longrightarrow> heap st p = Some n \<Longrightarrow>
    push_step i st (st\<lparr>head := Some p, pcs := (pcs st)(i := Returned (Ok ())), pushed := node_data n # pushed st\<rparr>)"
| cas_fail: "pcs st i = Linked p orig k \<Longrightarrow>
    push_step i st (st\<lparr>pcs := (pcs st)(i := Looping p (head st) k)\<rparr>)"
| give_up: "pcs st i = Looping p orig 0 \<Longrightarrow> heap st p = Some n \<Longrightarrow>
    push_step i st (st\<lparr>heap := (heap st)(p := None), pcs := (pcs st)(i := Returned (Err (node_data n)))\<rparr>)"

text \<open>The iterator: it loads the pointer it stands at, the head first and then the \<open>next\<close> of a node.\<close>

inductive iter_step :: "nat \<Rightarrow> 'a alist \<Rightarrow> 'a alist \<Rightarrow> bool" where
  iter_new: "pcs st i = Idle \<Longrightarrow> iter_step i st (st\<lparr>pcs := (pcs st)(i := IterHead)\<rparr>)"
| first: "pcs st i = IterHead \<Longrightarrow> head st = Some p \<Longrightarrow> heap st p = Some n \<Longrightarrow>
    iter_step i st (st\<lparr>pcs := (pcs st)(i := IterAt p [node_data n] (pushed st))\<rparr>)"
| empty: "pcs st i = IterHead \<Longrightarrow> head st = None \<Longrightarrow>
    iter_step i st (st\<lparr>pcs := (pcs st)(i := IterDone [] (pushed st))\<rparr>)"
| nxt: "pcs st i = IterAt p ys snap \<Longrightarrow> heap st p = Some n \<Longrightarrow> node_next n = Some q \<Longrightarrow> heap st q = Some m \<Longrightarrow>
    iter_step i st (st\<lparr>pcs := (pcs st)(i := IterAt q (ys @ [node_data m]) snap)\<rparr>)"
| iter_end: "pcs st i = IterAt p ys snap \<Longrightarrow> heap st p = Some n \<Longrightarrow> node_next n = None \<Longrightarrow>
    iter_step i st (st\<lparr>pcs := (pcs st)(i := IterDone ys snap)\<rparr>)"

inductive list_step :: "nat \<Rightarrow> 'a alist \<Rightarrow> 'a alist \<Rightarrow> bool" where
  push: "push_step i st st' \<Longrightarrow> list_step i st st'"
| iter: "iter_step i st st' \<Longrightarrow> list_step i st st'"
| again: "pcs st i = Returned r \<or> pcs st i = IterDone ys snap \<Longrightarrow> list_step i st (st\<lparr>pcs := (pcs st)(i := Idle)\<rparr>)"

inductive list_reachable :: "'a alist \<Rightarrow> bool" where
  start: "list_reachable alist_new"
| list_next: "list_reachable st \<Longrightarrow> list_step i st st' \<Longrightarrow> list_reachable st'"

section \<open>Chains\<close>

inductive chain :: "(ptr \<rightharpoonup> 'a node) \<Rightarrow> ptr option \<Rightarrow> ptr list \<Rightarrow> bool" where
  chain_nil: "chain h None []"
| chain_cons: "h p = Some n \<Longrightarrow> chain h (node_next n) ps \<Longrightarrow> chain h (Some p) (p # ps)"

inductive_simps chain_simps: "chain h None ps" "chain h (Some p) ps" "chain h q []" "chain h q (p # ps)"

lemma chain_upd: "chain h q ps \<Longrightarrow> p \<notin> set ps \<Longrightarrow> chain (h(p := x)) q ps"
  by (induction rule: chain.induct) (auto intro: chain.intros)

lemma chain_dom: "chain h q ps \<Longrightarrow> p \<in> set ps \<Longrightarrow> h p \<noteq> None"
  by (induction rule: chain.induct) auto

lemma chain_append: "chain h q (as @ p # qs) \<Longrightarrow> \<exists>n. h p = Some n \<and> chain h (node_next n) qs"
  by (induction as arbitrary: q) (auto simp: chain_simps)

definition datas :: "(ptr \<rightharpoonup> 'a node) \<Rightarrow> ptr list \<Rightarrow> 'a list" where
  "datas h ps = map (\<lambda>p. node_data (the (h p))) ps"

lemma datas_upd: "p \<notin> set ps \<Longrightarrow> datas (h(p := x)) ps = datas h ps"
  by (induction ps) (auto simp: datas_def)

lemma datas_simps [simp]: "datas h [] = []" "datas h (p # ps) = node_data (the (h p)) # datas h ps" "datas h (xs @ ys) = datas h xs @ datas h ys"
  by (simp_all add: datas_def)

section \<open>Invariant\<close>

text \<open>The node that a thread has allocated and not published yet.\<close>

fun own_node :: "'a pc \<Rightarrow> ptr option" where
  "own_node (Allocated p k) = Some p"
| "own_node (Looping p orig k) = Some p"
| "own_node (Linked p orig k) = Some p"
| "own_node _ = None"

text \<open>What a program counter knows about the list with nodes \<open>ps\<close>.\<close>

fun pc_ok :: "(ptr \<rightharpoonup> 'a node) \<Rightarrow> ptr list \<Rightarrow> 'a pc \<Rightarrow> bool" where
  "pc_ok h ps (Allocated p k) \<longleftrightarrow> h p \<noteq> None \<and> p \<notin> set ps"
| "pc_ok h ps (Looping p orig k) \<longleftrightarrow> h p \<noteq> None \<and> p \<notin> set ps"
| "pc_ok h ps (Linked p orig k) \<longleftrightarrow> (\<exists>n. h p = Some n \<and> node_next n = orig) \<and> p \<notin> set ps"
| "pc_ok h ps (IterAt p ys snap) \<longleftrightarrow> (\<exists>as qs. ps = as @ p # qs \<and> snap = ys @ datas h qs)"
| "pc_ok h ps (IterDone ys snap) \<longleftrightarrow> ys = snap"
| "pc_ok h ps _ \<longleftrightarrow> True"

definition list_inv :: "'a alist \<Rightarrow> bool" where
  "list_inv st \<longleftrightarrow>
     (\<exists>ps. chain (heap st) (head st) ps \<and> distinct ps \<and> datas (heap st) ps = pushed st \<and> (\<forall>i. pc_ok (heap st) ps (pcs st i)))
   \<and> (\<forall>i j p. own_node (pcs st i) = Some p \<longrightarrow> own_node (pcs st j) = Some p \<longrightarrow> i = j)"

lemma list_invI:
  assumes "chain (heap st) (head st) ps" "distinct ps" "datas (heap st) ps = pushed st" "\<And>i. pc_ok (heap st) ps (pcs st i)"
    and "\<And>i j p. own_node (pcs st i) = Some p \<Longrightarrow> own_node (pcs st j) = Some p \<Longrightarrow> i = j"
  shows "list_inv st"
  unfolding list_inv_def using assms by blast

text \<open>A change of a node outside the list leaves the other threads' knowledge intact.\<close>

lemma pc_ok_upd:
  assumes "pc_ok h ps c" and "p \<notin> set ps" and "own_node c \<noteq> Some p"
  shows "pc_ok (h(p := x)) ps c"
  using assms
proof (cases c)
  case (IterAt q ys snap)
  then obtain as qs where "ps = as @ q # qs" "snap = ys @ datas h qs" using assms(1) by auto
  then have "ps = as @ q # qs \<and> snap = ys @ datas (h(p := x)) qs" using assms(2) datas_upd [of p qs h x] by auto
  then show ?thesis unfolding IterAt pc_ok.simps by blast
qed auto

lemma pc_ok_push:
  assumes "pc_ok h ps c" and "own_node c \<noteq> Some p"
  shows "pc_ok h (p # ps) c"
proof (cases c)
  case (IterAt q ys snap)
  then obtain as qs where "ps = as @ q # qs" "snap = ys @ datas h qs" using assms(1) by auto
  then have "p # ps = (p # as) @ q # qs" "snap = ys @ datas h qs" by simp_all
  then show ?thesis using IterAt by (auto simp del: append_Cons)
qed (use assms in auto)

text \<open>A step of thread \<open>i\<close> that only moves its own program counter.\<close>

lemma list_inv_pc:
  assumes "list_inv st" and "own_node c = None \<or> own_node c = own_node (pcs st i)"
    and "\<And>ps. chain (heap st) (head st) ps \<Longrightarrow> datas (heap st) ps = pushed st \<Longrightarrow> pc_ok (heap st) ps (pcs st i) \<Longrightarrow> pc_ok (heap st) ps c"
  shows "list_inv (st\<lparr>pcs := (pcs st)(i := c)\<rparr>)"
proof -
  obtain ps where ps: "chain (heap st) (head st) ps" "distinct ps" "datas (heap st) ps = pushed st" "\<And>j. pc_ok (heap st) ps (pcs st j)"
    and own: "\<And>j k p. own_node (pcs st j) = Some p \<Longrightarrow> own_node (pcs st k) = Some p \<Longrightarrow> j = k"
    using assms(1) unfolding list_inv_def by blast
  show ?thesis
  proof (rule list_invI [of _ ps])
    show "pc_ok (heap (st\<lparr>pcs := (pcs st)(i := c)\<rparr>)) ps (pcs (st\<lparr>pcs := (pcs st)(i := c)\<rparr>) j)" for j
      using ps(4) [of j] assms(3) [OF ps(1,3) ps(4)] by simp
    show "j = k" if "own_node (pcs (st\<lparr>pcs := (pcs st)(i := c)\<rparr>) j) = Some p" "own_node (pcs (st\<lparr>pcs := (pcs st)(i := c)\<rparr>) k) = Some p" for j k p
      using own [of j p k] assms(2) that by (auto split: if_splits dest: own)
  qed (use ps in simp_all)
qed

text \<open>A step of thread \<open>i\<close> that changes the node \<open>p\<close>, which nobody else owns and which is not in the list.\<close>

lemma list_inv_node:
  assumes "list_inv st" and "\<And>j. j \<noteq> i \<Longrightarrow> own_node (pcs st j) \<noteq> Some p"
    and "\<And>ps. chain (heap st) (head st) ps \<Longrightarrow> pc_ok (heap st) ps (pcs st i) \<Longrightarrow> p \<notin> set ps"
    and "own_node c = None \<or> own_node c = Some p"
    and "\<And>ps. p \<notin> set ps \<Longrightarrow> pc_ok ((heap st)(p := x)) ps c"
  shows "list_inv (st\<lparr>heap := (heap st)(p := x), pcs := (pcs st)(i := c)\<rparr>)"
proof -
  obtain ps where ps: "chain (heap st) (head st) ps" "distinct ps" "datas (heap st) ps = pushed st" "\<And>j. pc_ok (heap st) ps (pcs st j)"
    and own: "\<And>j k p. own_node (pcs st j) = Some p \<Longrightarrow> own_node (pcs st k) = Some p \<Longrightarrow> j = k"
    using assms(1) unfolding list_inv_def by blast
  have p: "p \<notin> set ps" using assms(3) [OF ps(1) ps(4)] .
  let ?st = "st\<lparr>heap := (heap st)(p := x), pcs := (pcs st)(i := c)\<rparr>"
  show ?thesis
  proof (rule list_invI [of _ ps])
    show "pc_ok (heap ?st) ps (pcs ?st j)" for j
      using pc_ok_upd [OF ps(4) [of j] p] assms(2) [of j] assms(5) [OF p] by simp
    show "j = k" if "own_node (pcs ?st j) = Some q" "own_node (pcs ?st k) = Some q" for j k q
      using own [of j q k] assms(2) [of j] assms(2) [of k] assms(4) that by (auto split: if_splits)
  qed (use ps p chain_upd [OF ps(1) p] datas_upd [OF p, of "heap st" x] in simp_all)
qed

lemma list_inv_own:
  assumes "list_inv st" and "own_node (pcs st i) = Some p"
  shows "j \<noteq> i \<Longrightarrow> own_node (pcs st j) \<noteq> Some p"
  using assms unfolding list_inv_def by blast

lemma push_step_inv: "push_step i st st' \<Longrightarrow> list_inv st \<Longrightarrow> list_inv st'"
proof (induction rule: push_step.induct)
  case (alloc st i p x max_attempts)
  show ?case
  proof (rule list_inv_node [OF alloc(3)])
    show "own_node (pcs st j) \<noteq> Some p" for j
      using alloc(2,3) unfolding list_inv_def by (cases "pcs st j") (metis own_node.simps pc_ok.simps option.inject option.distinct(1))+
    show "p \<notin> set ps" if "chain (heap st) (head st) ps" for ps
      using chain_dom [OF that] alloc(2) by blast
  qed simp_all
next
  case (load st i p k)
  then show ?case by (intro list_inv_pc) auto
next
  case (link st i p orig k n)
  show ?case
    by (rule list_inv_node [OF link(3)]) (use link list_inv_own [OF link(3), of i p] in auto)
next
  case (cas_ok st i p orig k n)
  obtain ps where ps: "chain (heap st) (head st) ps" "distinct ps" "datas (heap st) ps = pushed st" "\<And>j. pc_ok (heap st) ps (pcs st j)"
    and own: "\<And>j k p. own_node (pcs st j) = Some p \<Longrightarrow> own_node (pcs st k) = Some p \<Longrightarrow> j = k"
    using cas_ok(4) unfolding list_inv_def by blast
  have p: "p \<notin> set ps" "node_next n = head st" using ps(4) [of i] cas_ok(1-3) by auto
  let ?st = "st\<lparr>head := Some p, pcs := (pcs st)(i := Returned (Ok ())), pushed := node_data n # pushed st\<rparr>"
  show ?case
  proof (rule list_invI [of _ "p # ps"])
    show "chain (heap ?st) (head ?st) (p # ps)" using ps(1) p(2) cas_ok(3) by (auto intro: chain_cons)
    show "pc_ok (heap ?st) (p # ps) (pcs ?st j)" for j
      using pc_ok_push [OF ps(4) [of j], of p] own [of j p i] cas_ok(1) by auto
    show "j = k" if "own_node (pcs ?st j) = Some q" "own_node (pcs ?st k) = Some q" for j k q
      using own [of j q k] that by (auto split: if_splits)
  qed (use ps p cas_ok(3) in auto)
next
  case (cas_fail st i p orig k)
  then show ?case by (intro list_inv_pc) auto
next
  case (give_up st i p orig n)
  show ?case
    by (rule list_inv_node [OF give_up(3)]) (use give_up list_inv_own [OF give_up(3), of i p] in auto)
qed

lemma iter_step_inv: "iter_step i st st' \<Longrightarrow> list_inv st \<Longrightarrow> list_inv st'"
proof (induction rule: iter_step.induct)
  case (first st i p n)
  show ?case
  proof (rule list_inv_pc [OF first(4)])
    fix ps
    assume "chain (heap st) (head st) ps" "datas (heap st) ps = pushed st"
    then obtain qs where "ps = [] @ p # qs" "pushed st = [node_data n] @ datas (heap st) qs"
      using first(2,3) by (auto simp: chain_simps)
    then show "pc_ok (heap st) ps (IterAt p [node_data n] (pushed st))" unfolding pc_ok.simps by blast
  qed simp
next
  case (nxt st i p ys snap n q m)
  show ?case
  proof (rule list_inv_pc [OF nxt(5)])
    fix ps
    assume ch: "chain (heap st) (head st) ps" and "pc_ok (heap st) ps (pcs st i)"
    then obtain as qs where ps: "ps = as @ p # qs" "snap = ys @ datas (heap st) qs" using nxt(1) by auto
    then obtain qs' where "qs = q # qs'"
      using chain_append [of "heap st" "head st" as p qs] ch nxt(2,3) by (auto simp: chain_simps)
    then have "ps = (as @ [p]) @ q # qs'" "snap = (ys @ [node_data m]) @ datas (heap st) qs'" using ps nxt(4) by simp_all
    then show "pc_ok (heap st) ps (IterAt q (ys @ [node_data m]) snap)" unfolding pc_ok.simps by blast
  qed simp
next
  case (iter_end st i p ys snap n)
  show ?case
  proof (rule list_inv_pc [OF iter_end(4)])
    fix ps
    assume ch: "chain (heap st) (head st) ps" and "pc_ok (heap st) ps (pcs st i)"
    then obtain as qs where ps: "ps = as @ p # qs" "snap = ys @ datas (heap st) qs" using iter_end(1) by auto
    then have "qs = []"
      using chain_append [of "heap st" "head st" as p qs] ch iter_end(2,3) by (auto simp: chain_simps)
    then show "pc_ok (heap st) ps (IterDone ys snap)" using ps by simp
  qed simp
next
  case (empty st i)
  then show ?case by (intro list_inv_pc) (auto simp: chain_simps)
qed (auto intro: list_inv_pc)

lemma list_reachable_inv: "list_reachable st \<Longrightarrow> list_inv st"
proof (induction rule: list_reachable.induct)
  case start
  show ?case by (rule list_invI [of _ "[]"]) (auto simp: alist_new_def chain_simps)
next
  case (list_next st i st')
  from list_next(2,3) show ?case
    by (cases rule: list_step.cases) (auto simp: push_step_inv iter_step_inv intro: list_inv_pc)
qed

section \<open>Properties\<close>

text \<open>
  (C26) The lock-free list is a stack of the pushes that succeeded: in every state that any number of
  threads can reach, the nodes from the head on hold the values of the successful pushes, the latest
  first, however the steps interleave and however often \<open>compare_exchange_weak\<close> fails; no push is lost or
  duplicated, a push that gives up leaves nothing behind, and no two threads write the same node. An
  iterator that has finished returned the contents of the list at the moment it loaded the head.
\<close>
theorem atomic_list_refines_stack:
  assumes "list_reachable st"
  shows "(\<exists>ps. chain (heap st) (head st) ps \<and> datas (heap st) ps = pushed st)
    \<and> (list_step i st st' \<longrightarrow>
        pushed st' = pushed st \<or> (\<exists>p n. own_node (pcs st i) = Some p \<and> heap st p = Some n
          \<and> pcs st' i = Returned (Ok ()) \<and> pushed st' = node_data n # pushed st))
    \<and> (own_node (pcs st j) = Some p \<longrightarrow> own_node (pcs st k) = Some p \<longrightarrow> j = k)
    \<and> (pcs st j = IterDone ys snap \<longrightarrow> ys = snap)"
proof -
  have inv: "list_inv st" using list_reachable_inv [OF assms] .
  have step: "pushed st' = pushed st \<or> (\<exists>p n. own_node (pcs st i) = Some p \<and> heap st p = Some n
      \<and> pcs st' i = Returned (Ok ()) \<and> pushed st' = node_data n # pushed st)" if "list_step i st st'"
    using that
  proof (cases rule: list_step.cases)
    case push
    then show ?thesis by (cases rule: push_step.cases) auto
  next
    case iter
    then show ?thesis by (cases rule: iter_step.cases) auto
  qed auto
  have "pcs st j = IterDone ys snap \<Longrightarrow> ys = snap"
    using inv unfolding list_inv_def by (metis pc_ok.simps(5))
  then show ?thesis
    using inv step unfolding list_inv_def by blast
qed

theorem atomic_list_refines_stack_witness:
  "\<exists>st :: nat alist. pushed st = [7] \<and> (\<exists>ps. chain (heap st) (head st) ps \<and> datas (heap st) ps = pushed st)"
proof -
  let ?s0 = "alist_new :: nat alist"
  let ?s1 = "?s0\<lparr>heap := (heap ?s0)(0 \<mapsto> node_new 7), pcs := (pcs ?s0)(0 := Allocated 0 (max 1 1))\<rparr>"
  let ?s2 = "?s1\<lparr>pcs := (pcs ?s1)(0 := Looping 0 (head ?s1) 1)\<rparr>"
  let ?s3 = "?s2\<lparr>heap := (heap ?s2)(0 \<mapsto> (node_new 7)\<lparr>node_next := None\<rparr>), pcs := (pcs ?s2)(0 := Linked 0 None 0)\<rparr>"
  let ?n = "(node_new 7)\<lparr>node_next := None\<rparr>"
  let ?s4 = "?s3\<lparr>head := Some 0, pcs := (pcs ?s3)(0 := Returned (Ok ())), pushed := node_data ?n # pushed ?s3\<rparr>"
  have r1: "list_reachable ?s1"
    by (rule list_next [OF start push [OF push_step.alloc]]) (simp_all add: alist_new_def)
  have r2: "list_reachable ?s2"
    by (rule list_next [OF r1 push [OF push_step.load]]) simp
  have r3: "list_reachable ?s3"
    by (rule list_next [OF r2 push [OF push_step.link]]) (simp_all add: alist_new_def)
  have r4: "list_reachable ?s4"
    by (rule list_next [OF r3 push [OF push_step.cas_ok]]) (simp_all add: alist_new_def)
  have "pushed ?s4 = [7]" by (simp add: alist_new_def node_new_def)
  with conjunct1 [OF atomic_list_refines_stack [OF r4]] show ?thesis by blast
qed

end
