(* ===== verification/BlockIo.thy ===== *)
theory BlockIo
  imports Prelude
begin

text \<open>
  Byte-wise access to block devices: \<^verbatim>\<open>src/kernel/io/src/lib.rs\<close>. A device that implements the traits
  \<open>BlockIo\<close>, \<open>BlockReader\<close> and \<open>BlockWriter\<close> is a record of functions on its state. Values of type \<open>usize\<close>
  are natural numbers below \<open>2 ^ 64\<close>; the operators on them wrap around. \<open>None\<close> is a call that does not
  return: a panic, or a driver that polls a device that never gets ready.

  The locale \<open>block_device\<close> is the documented contract of the block traits, the locale \<open>byte_stream\<close> the
  one of \<open>ByteReader\<close> and \<open>ByteWriter\<close>. The wrapper that offers the second on top of the first is correct
  for every device that keeps the contract.
\<close>

section \<open>Arithmetic of \<open>usize\<close> and slices\<close>

definition uadd :: "nat \<Rightarrow> nat \<Rightarrow> nat" where "uadd a b = (a + b) mod 2 ^ 64"
definition usub :: "nat \<Rightarrow> nat \<Rightarrow> nat" where "usub a b = (a + 2 ^ 64 - b) mod 2 ^ 64"
definition umul :: "nat \<Rightarrow> nat \<Rightarrow> nat" where "umul a b = (a * b) mod 2 ^ 64"

lemma uadd_eq: "a + b < 2 ^ 64 \<Longrightarrow> uadd a b = a + b"
  by (simp add: uadd_def)

lemma usub_eq: "b \<le> a \<Longrightarrow> a < 2 ^ 64 \<Longrightarrow> usub a b = a - b"
proof -
  assume "b \<le> a" "a < 2 ^ 64"
  then have "a + 2 ^ 64 - b = (a - b) + 2 ^ 64" by simp
  moreover have "a - b < 2 ^ 64" using \<open>a < 2 ^ 64\<close> by (rule le_less_trans [OF diff_le_self])
  ultimately show ?thesis by (simp only: usub_def mod_add_self2 mod_less)
qed

lemma umul_eq: "a * b < 2 ^ 64 \<Longrightarrow> umul a b = a * b"
  by (simp add: umul_def)

type_synonym range = "nat \<times> nat"

definition get_slice :: "'a list \<Rightarrow> range \<Rightarrow> 'a list panics" where
  "get_slice xs r = (if fst r \<le> snd r \<and> snd r \<le> length xs
     then Some (take (snd r - fst r) (drop (fst r) xs)) else None)"

definition put_slice :: "'a list \<Rightarrow> range \<Rightarrow> 'a list \<Rightarrow> 'a list panics" where
  "put_slice xs r ys = (if fst r \<le> snd r \<and> snd r \<le> length xs \<and> length ys = snd r - fst r
     then Some (take (fst r) xs @ ys @ drop (snd r) xs) else None)"

section \<open>Errors and the block traits\<close>

datatype io_error = InvalidInput | TimedOut | OtherError string

record 'd block_api =
  block_size :: "'d \<Rightarrow> nat"
  read_blocks :: "'d \<Rightarrow> u8 list \<Rightarrow> nat \<Rightarrow> ((nat, io_error) result \<times> u8 list \<times> 'd) panics"
  write_blocks :: "'d \<Rightarrow> u8 list \<Rightarrow> nat \<Rightarrow> ((nat, io_error) result \<times> 'd) panics"
  block_flush :: "'d \<Rightarrow> ((unit, io_error) result \<times> 'd) panics"

section \<open>From bytes to blocks\<close>

record block_byte_transfer =
  byte_range_absolute :: range
  block_range :: range
  bytes_in_block_range :: range

definition round_down :: "nat \<Rightarrow> nat \<Rightarrow> nat" where
  "round_down v multiple = umul (v div multiple) multiple"

definition next_multiple_of :: "nat \<Rightarrow> nat \<Rightarrow> nat" where
  "next_multiple_of v m = (if v mod m = 0 then v else uadd v (m - v mod m))"

text \<open>The loop of \<open>blocks_from_bytes\<close>. The transfers found so far fill the array of three from the front, so
  their number is \<open>transfer_idx\<close>; a fourth one is an index out of bounds.\<close>

function blocks_loop :: "range \<Rightarrow> nat \<Rightarrow> nat \<Rightarrow> block_byte_transfer list \<Rightarrow> block_byte_transfer list panics" where
  "blocks_loop byte_range bs curr_byte transfers =
     (if curr_byte < snd byte_range then
        if 3 \<le> length transfers then None else
        (let last_block = snd byte_range div bs;
             offset_into_last_block = snd byte_range mod bs;
             curr_block = curr_byte div bs;
             offset_into_curr_block = curr_byte mod bs in
         if offset_into_curr_block = 0 then
           if offset_into_last_block = 0 then
             Some (transfers @ [\<lparr>byte_range_absolute = (curr_byte, snd byte_range),
                                 block_range = (curr_block, last_block),
                                 bytes_in_block_range = (0, umul (usub last_block curr_block) bs)\<rparr>])
           else
             (let end_byte = (if bs < usub (snd byte_range) curr_byte then round_down (snd byte_range) bs
                              else snd byte_range) in
              blocks_loop byte_range bs end_byte
                (transfers @ [\<lparr>byte_range_absolute = (curr_byte, end_byte),
                               block_range = (curr_block, next_multiple_of end_byte bs div bs),
                               bytes_in_block_range = (0, usub end_byte curr_byte)\<rparr>]))
         else
           (let end_byte = min (snd byte_range) (next_multiple_of curr_byte bs) in
            blocks_loop byte_range bs end_byte
              (transfers @ [\<lparr>byte_range_absolute = (curr_byte, end_byte),
                             block_range = (curr_block, uadd curr_block 1),
                             bytes_in_block_range =
                               (offset_into_curr_block, uadd offset_into_curr_block (usub end_byte curr_byte))\<rparr>])))
      else Some transfers)"
  by pat_completeness auto
termination
  by (relation "measure (\<lambda>(r, bs, c, ts). 3 - length ts)")
    (simp_all only: in_measure wf_measure prod.case length_append list.size not_le diff_less_mono2 add_Suc_right add_0_right lessI)

declare blocks_loop.simps [simp del]

definition blocks_from_bytes :: "range \<Rightarrow> nat \<Rightarrow> block_byte_transfer option list panics" where
  "blocks_from_bytes byte_range bs =
     (if bs = 0 then None
      else map_option (\<lambda>ts. map Some ts @ replicate (3 - length ts) None)
             (blocks_loop byte_range bs (fst byte_range) []))"

section \<open>Reading and writing bytes\<close>

text \<open>\<open>ByteReaderWrapper::read_at\<close>: the result of a transfer of whole blocks is thrown away.\<close>

fun read_transfers :: "'d block_api \<Rightarrow> nat \<Rightarrow> block_byte_transfer list \<Rightarrow> u8 list \<Rightarrow> u8 list \<Rightarrow> 'd
    \<Rightarrow> ((unit, io_error) result \<times> u8 list \<times> 'd) panics" where
  "read_transfers api offset [] tmp buffer d = Some (Ok (), buffer, d)"
| "read_transfers api offset (t # ts) tmp buffer d =
     (let buffer_range = (usub (fst (byte_range_absolute t)) offset, usub (snd (byte_range_absolute t)) offset);
          bs = block_size api d in
      if bs = 0 then None
      else if fst (bytes_in_block_range t) mod bs = 0 \<and> snd (bytes_in_block_range t) mod bs = 0 then do {
        part \<leftarrow> get_slice buffer buffer_range;
        (_, part, d) \<leftarrow> read_blocks api d part (fst (block_range t));
        buffer \<leftarrow> put_slice buffer buffer_range part;
        read_transfers api offset ts tmp buffer d
      } else do {
        let tmp = (if tmp = [] then replicate (umul bs (snd (block_range t) - fst (block_range t))) 0 else tmp);
        (r, tmp, d) \<leftarrow> read_blocks api d tmp (fst (block_range t));
        (case r of
           Inl e \<Rightarrow> Some (Err e, buffer, d)
         | Inr _ \<Rightarrow> do {
             part \<leftarrow> get_slice tmp (bytes_in_block_range t);
             buffer \<leftarrow> put_slice buffer buffer_range part;
             read_transfers api offset ts tmp buffer d
           })
      })"

definition read_at :: "'d block_api \<Rightarrow> 'd \<Rightarrow> u8 list \<Rightarrow> nat \<Rightarrow> ((nat, io_error) result \<times> u8 list \<times> 'd) panics" where
  "read_at api d buffer offset = do {
     transfers \<leftarrow> blocks_from_bytes (offset, uadd offset (length buffer)) (block_size api d);
     (r, buffer, d) \<leftarrow> read_transfers api offset (List.map_filter id transfers) [] buffer d;
     Some (map_sum id (\<lambda>_. length buffer) r, buffer, d)
   }"

text \<open>\<open>ByteReaderWriterWrapper::write_at\<close>: part of a block is written by reading the block, changing the
  bytes and writing it back.\<close>

fun write_transfers :: "'d block_api \<Rightarrow> nat \<Rightarrow> block_byte_transfer list \<Rightarrow> u8 list \<Rightarrow> u8 list \<Rightarrow> 'd
    \<Rightarrow> ((unit, io_error) result \<times> 'd) panics" where
  "write_transfers api offset [] tmp buffer d = Some (Ok (), d)"
| "write_transfers api offset (t # ts) tmp buffer d =
     (let buffer_range = (usub (fst (byte_range_absolute t)) offset, usub (snd (byte_range_absolute t)) offset);
          bs = block_size api d in
      if bs = 0 then None
      else if fst (bytes_in_block_range t) mod bs = 0 \<and> snd (bytes_in_block_range t) mod bs = 0 then do {
        part \<leftarrow> get_slice buffer buffer_range;
        (_, d) \<leftarrow> write_blocks api d part (fst (block_range t));
        write_transfers api offset ts tmp buffer d
      } else do {
        let tmp = (if tmp = [] then replicate (umul bs (snd (block_range t) - fst (block_range t))) 0 else tmp);
        (r, tmp, d) \<leftarrow> read_blocks api d tmp (fst (block_range t));
        (case r of
           Inl e \<Rightarrow> Some (Err e, d)
         | Inr _ \<Rightarrow> do {
             part \<leftarrow> get_slice buffer buffer_range;
             tmp \<leftarrow> put_slice tmp (bytes_in_block_range t) part;
             (r, d) \<leftarrow> write_blocks api d tmp (fst (block_range t));
             (case r of
                Inl e \<Rightarrow> Some (Err e, d)
              | Inr _ \<Rightarrow> write_transfers api offset ts tmp buffer d)
           })
      })"

definition write_at :: "'d block_api \<Rightarrow> 'd \<Rightarrow> u8 list \<Rightarrow> nat \<Rightarrow> ((nat, io_error) result \<times> 'd) panics" where
  "write_at api d buffer offset = do {
     transfers \<leftarrow> blocks_from_bytes (offset, uadd offset (length buffer)) (block_size api d);
     (r, d) \<leftarrow> write_transfers api offset (List.map_filter id transfers) [] buffer d;
     Some (map_sum id (\<lambda>_. length buffer) r, d)
   }"

definition byte_flush :: "'d block_api \<Rightarrow> 'd \<Rightarrow> ((unit, io_error) result \<times> 'd) panics" where
  "byte_flush api d = block_flush api d"

section \<open>Streams with an offset\<close>

record 'd reader_writer =
  rw_io :: 'd
  rw_offset :: nat

definition rw_new :: "'d \<Rightarrow> 'd reader_writer" where
  "rw_new io = \<lparr>rw_io = io, rw_offset = 0\<rparr>"

definition rw_read :: "('d \<Rightarrow> u8 list \<Rightarrow> nat \<Rightarrow> ((nat, io_error) result \<times> u8 list \<times> 'd) panics) \<Rightarrow>
    'd reader_writer \<Rightarrow> u8 list \<Rightarrow> ((nat, io_error) result \<times> u8 list \<times> 'd reader_writer) panics" where
  "rw_read rd rw buf = do {
     (r, buf, io) \<leftarrow> rd (rw_io rw) buf (rw_offset rw);
     (case r of
        Inl e \<Rightarrow> Some (Err e, buf, rw\<lparr>rw_io := io\<rparr>)
      | Inr bytes_read \<Rightarrow> Some (Ok bytes_read, buf, rw\<lparr>rw_io := io, rw_offset := uadd (rw_offset rw) bytes_read\<rparr>))
   }"

definition rw_write :: "('d \<Rightarrow> u8 list \<Rightarrow> nat \<Rightarrow> ((nat, io_error) result \<times> 'd) panics) \<Rightarrow>
    'd reader_writer \<Rightarrow> u8 list \<Rightarrow> ((nat, io_error) result \<times> 'd reader_writer) panics" where
  "rw_write wr rw buf = do {
     (r, io) \<leftarrow> wr (rw_io rw) buf (rw_offset rw);
     (case r of
        Inl e \<Rightarrow> Some (Err e, rw\<lparr>rw_io := io\<rparr>)
      | Inr bytes_written \<Rightarrow>
          Some (Ok bytes_written, rw\<lparr>rw_io := io, rw_offset := uadd (rw_offset rw) bytes_written\<rparr>))
   }"

definition rw_flush :: "('d \<Rightarrow> ((unit, io_error) result \<times> 'd) panics) \<Rightarrow>
    'd reader_writer \<Rightarrow> ((unit, io_error) result \<times> 'd reader_writer) panics" where
  "rw_flush flush rw = do { (r, io) \<leftarrow> flush (rw_io rw); Some (r, rw\<lparr>rw_io := io\<rparr>) }"

datatype seek_from = Start nat | Current int | End int

text \<open>\<open>seek\<close>: offsets from the end and from the current position are \<open>i64\<close>, positions \<open>u64\<close>.\<close>

definition rw_seek :: "('d \<Rightarrow> nat) \<Rightarrow> 'd reader_writer \<Rightarrow> seek_from \<Rightarrow> (nat, io_error) result \<times> 'd reader_writer" where
  "rw_seek len rw position =
     (let relative = (\<lambda>base_pos offset.
            (let new_pos = (if 0 \<le> offset
                 then (if base_pos + nat offset < 2 ^ 64 then Some (base_pos + nat offset) else None)
                 else (if nat (- offset) \<le> base_pos then Some (base_pos - nat (- offset)) else None)) in
             case new_pos of
               Some n \<Rightarrow> (Ok n, rw\<lparr>rw_offset := n\<rparr>)
             | None \<Rightarrow> (Err InvalidInput, rw))) in
      case position of
        Start n \<Rightarrow> (Ok n, rw\<lparr>rw_offset := n\<rparr>)
      | Current n \<Rightarrow> relative (rw_offset rw) n
      | End n \<Rightarrow> relative (len (rw_io rw)) n)"

section \<open>Segments of lists\<close>

definition seg :: "'a list \<Rightarrow> nat \<Rightarrow> nat \<Rightarrow> 'a list" where
  "seg xs a b = take (b - a) (drop a xs)"

definition patch :: "'a list \<Rightarrow> nat \<Rightarrow> 'a list \<Rightarrow> 'a list" where
  "patch xs i ys = take i xs @ ys @ drop (i + length ys) xs"

lemma length_seg [simp]: "b \<le> length xs \<Longrightarrow> length (seg xs a b) = b - a"
  by (simp add: seg_def)

lemma length_patch [simp]: "i + length ys \<le> length xs \<Longrightarrow> length (patch xs i ys) = length xs"
  by (simp add: patch_def)

lemma nth_seg [simp]: "b \<le> length xs \<Longrightarrow> k < b - a \<Longrightarrow> seg xs a b ! k = xs ! (a + k)"
  by (simp add: seg_def)

lemma nth_patch:
  "i + length ys \<le> length xs \<Longrightarrow> k < length xs \<Longrightarrow>
    patch xs i ys ! k = (if i \<le> k \<and> k < i + length ys then ys ! (k - i) else xs ! k)"
  by (auto simp: patch_def nth_append min_def)

lemma seg_append: "a \<le> b \<Longrightarrow> b \<le> c \<Longrightarrow> c \<le> length xs \<Longrightarrow> seg xs a b @ seg xs b c = seg xs a c"
  by (rule nth_equalityI) (auto simp: nth_append add.commute)

lemma seg_patch:
  "i + length ys \<le> length xs \<Longrightarrow> b \<le> i \<or> i + length ys \<le> a \<Longrightarrow> b \<le> length xs \<Longrightarrow> seg (patch xs i ys) a b = seg xs a b"
  by (rule nth_equalityI) (auto simp: nth_patch)

lemma seg_patch_same: "i + length ys \<le> length xs \<Longrightarrow> j = i + length ys \<Longrightarrow> seg (patch xs i ys) i j = ys"
  by (rule nth_equalityI) (auto simp: nth_patch)

lemma seg_empty [simp]: "seg xs a a = []"
  by (simp add: seg_def)

lemma seg_Cons2: "a + 2 \<le> b \<Longrightarrow> b \<le> length xs \<Longrightarrow> seg xs a b = xs ! a # xs ! (a + 1) # seg xs (a + 2) b"
proof -
  assume ab: "a + 2 \<le> b" "b \<le> length xs"
  then have "drop a xs = xs ! a # xs ! (a + 1) # drop (a + 2) xs"
    by (simp add: Cons_nth_drop_Suc)
  moreover have "b - a = Suc (Suc (b - (a + 2)))" using ab by simp
  ultimately show ?thesis by (simp add: seg_def)
qed

lemma seg_full [simp]: "length xs \<le> b \<Longrightarrow> seg xs 0 b = xs"
  by (simp add: seg_def)

lemma patch_Nil [simp]: "patch xs i [] = xs"
  by (simp add: patch_def)

lemma patch_full: "length ys = length xs \<Longrightarrow> patch xs 0 ys = ys"
  by (simp add: patch_def)

lemma patch_patch:
  "i + length ys + length zs \<le> length xs \<Longrightarrow> patch (patch xs i ys) (i + length ys) zs = patch xs i (ys @ zs)"
  by (rule nth_equalityI) (auto simp: nth_patch nth_append)

lemma patch_seg_patch:
  assumes "x + length ys \<le> j - i" "i \<le> j" "j \<le> length xs"
  shows "patch xs i (patch (seg xs i j) x ys) = patch xs (i + x) ys"
proof -
  have len: "length (patch (seg xs i j) x ys) = j - i" using assms by simp
  show ?thesis
    by (rule nth_equalityI) (use assms len in \<open>auto simp: nth_patch add.commute\<close>)
qed

lemma patch_seg_next:
  assumes "a \<le> m" "m \<le> b" "b \<le> length C" "offset \<le> a" "b \<le> offset + length xs"
  shows "patch (patch xs (a - offset) (seg C a m)) (m - offset) (seg C m b) = patch xs (a - offset) (seg C a b)"
proof -
  have "m - offset = a - offset + length (seg C a m)" using assms by simp
  moreover have "patch (patch xs (a - offset) (seg C a m)) (a - offset + length (seg C a m)) (seg C m b)
      = patch xs (a - offset) (seg C a m @ seg C m b)"
    using assms by (intro patch_patch) simp
  ultimately show ?thesis using assms by (simp add: seg_append)
qed

lemma get_slice_seg: "i \<le> j \<Longrightarrow> j \<le> length xs \<Longrightarrow> get_slice xs (i, j) = Some (seg xs i j)"
  by (simp add: get_slice_def seg_def)

lemma put_slice_patch:
  "i \<le> j \<Longrightarrow> j \<le> length xs \<Longrightarrow> length ys = j - i \<Longrightarrow> put_slice xs (i, j) ys = Some (patch xs i ys)"
  by (simp add: put_slice_def patch_def)

section \<open>What \<open>blocks_from_bytes\<close> computes\<close>

text \<open>A transfer describes the same bytes in absolute terms and relative to its blocks. Either it moves whole
  blocks, or part of a single block.\<close>

definition whole_blocks :: "nat \<Rightarrow> block_byte_transfer \<Rightarrow> bool" where
  "whole_blocks bs t \<longleftrightarrow> fst (bytes_in_block_range t) mod bs = 0 \<and> snd (bytes_in_block_range t) mod bs = 0"

definition transfer_ok :: "nat \<Rightarrow> block_byte_transfer \<Rightarrow> bool" where
  "transfer_ok bs t \<longleftrightarrow>
     fst (byte_range_absolute t) = fst (block_range t) * bs + fst (bytes_in_block_range t) \<and>
     snd (byte_range_absolute t) = fst (block_range t) * bs + snd (bytes_in_block_range t) \<and>
     fst (bytes_in_block_range t) < snd (bytes_in_block_range t) \<and> fst (block_range t) < snd (block_range t) \<and>
     (if whole_blocks bs t then bytes_in_block_range t = (0, (snd (block_range t) - fst (block_range t)) * bs)
      else snd (block_range t) = Suc (fst (block_range t)) \<and> snd (bytes_in_block_range t) \<le> bs)"

fun consecutive :: "nat \<Rightarrow> block_byte_transfer list \<Rightarrow> nat \<Rightarrow> bool" where
  "consecutive a [] b \<longleftrightarrow> a = b"
| "consecutive a (t # ts) b \<longleftrightarrow> fst (byte_range_absolute t) = a \<and> consecutive (snd (byte_range_absolute t)) ts b"

definition covering :: "nat \<Rightarrow> nat \<Rightarrow> block_byte_transfer list \<Rightarrow> nat \<Rightarrow> bool" where
  "covering bs a ts b \<longleftrightarrow> consecutive a ts b \<and> (\<forall>t\<in>set ts. transfer_ok bs t)"

lemma consecutive_le: "covering bs a ts b \<Longrightarrow> a \<le> b"
proof (induction ts arbitrary: a)
  case (Cons t ts)
  then have "snd (byte_range_absolute t) \<le> b" "a < snd (byte_range_absolute t)"
    by (auto simp: covering_def transfer_ok_def)
  then show ?case by simp
qed (simp add: covering_def)

lemma covering_Cons:
  "transfer_ok bs t \<Longrightarrow> fst (byte_range_absolute t) = a \<Longrightarrow> covering bs (snd (byte_range_absolute t)) ts b \<Longrightarrow>
    covering bs a (t # ts) b"
  by (simp add: covering_def)

lemma next_multiple_of_eq:
  assumes "0 < bs" "v + bs \<le> 2 ^ 64" "v mod bs \<noteq> 0"
  shows "next_multiple_of v bs = Suc (v div bs) * bs"
proof -
  have "v mod bs < bs" using assms(1) by (rule mod_less_divisor)
  then have "v div bs * bs + v mod bs + (bs - v mod bs) = Suc (v div bs) * bs"
    by (simp only: mult_Suc)
  then have "v + (bs - v mod bs) = Suc (v div bs) * bs" by (simp only: div_mult_mod_eq)
  moreover have "v + (bs - v mod bs) < 2 ^ 64" using assms by linarith
  ultimately show ?thesis using assms(3) by (simp only: next_multiple_of_def uadd_eq if_False)
qed

text \<open>The last transfer: less than a block, from a block boundary on.\<close>

lemma blocks_loop_done: "blocks_loop (s, e) bs e ts = Some ts"
  by (subst blocks_loop.simps) simp

lemma blocks_loop_last:
  assumes "0 < bs" "e + bs \<le> 2 ^ 64" "e mod bs \<noteq> 0" "length ts < 3"
  shows "\<exists>t. blocks_loop (s, e) bs (e div bs * bs) ts = Some (ts @ [t]) \<and> covering bs (e div bs * bs) [t] e"
proof -
  define c where "c = e div bs * bs"
  have e: "c + e mod bs = e" by (simp add: c_def)
  have lt: "e mod bs < bs" "0 < e mod bs" using assms(1,3) by simp_all
  have c: "c mod bs = 0" "c div bs = e div bs" "c < e" "usub e c = e mod bs"
    using assms e by (simp_all add: c_def) (metis assms(3) e gr0I less_add_same_cancel1 c_def, use assms in \<open>subst usub_eq; simp add: c_def minus_div_mult_eq_mod\<close>)
  let ?t = "\<lparr>byte_range_absolute = (c, e), block_range = (e div bs, next_multiple_of e bs div bs),
    bytes_in_block_range = (0, e mod bs)\<rparr>"
  have "blocks_loop (s, e) bs c ts = Some (ts @ [?t])"
    using assms c lt by (subst blocks_loop.simps) (simp add: blocks_loop_done Let_def)
  moreover have "next_multiple_of e bs div bs = Suc (e div bs)"
    using assms(1) by (simp add: next_multiple_of_eq [OF assms(1-3)])
  then have "covering bs c [?t] e"
    using lt e by (simp add: covering_def transfer_ok_def whole_blocks_def c_def)
  ultimately show ?thesis by (auto simp: c_def)
qed

text \<open>From a block boundary on: whole blocks, and the rest of the last one.\<close>

lemma blocks_loop_aligned:
  assumes "0 < bs" "e + bs \<le> 2 ^ 64" "length ts < 2" "b * bs < e"
  shows "\<exists>us. blocks_loop (s, e) bs (b * bs) ts = Some (ts @ us) \<and> covering bs (b * bs) us e \<and> length us \<le> 2"
proof -
  have le: "b \<le> e div bs" using assms by (simp add: less_eq_div_iff_mult_less_eq)
  have sub: "usub e (b * bs) = e - b * bs" "usub (e div bs) b = e div bs - b"
  proof -
    show "usub e (b * bs) = e - b * bs" using assms by (intro usub_eq) auto
    have "e div bs < 2 ^ 64" using assms div_le_dividend [of e bs] by linarith
    then show "usub (e div bs) b = e div bs - b" using le by (intro usub_eq)
  qed
  have split: "(e div bs - b) * bs = e div bs * bs - b * bs" by (simp add: diff_mult_distrib)
  have rest: "e div bs * bs + e mod bs = e" by (rule div_mult_mod_eq)
  show ?thesis
  proof (cases "e mod bs = 0")
    case True
    let ?t = "\<lparr>byte_range_absolute = (b * bs, e), block_range = (b, e div bs),
      bytes_in_block_range = (0, (e div bs - b) * bs)\<rparr>"
    have "umul (e div bs - b) bs = (e div bs - b) * bs"
      using assms rest split by (intro umul_eq) linarith
    then have "blocks_loop (s, e) bs (b * bs) ts = Some (ts @ [?t])"
      using assms True sub by (subst blocks_loop.simps) (simp add: Let_def)
    moreover have "covering bs (b * bs) [?t] e"
      using assms True le rest split
      by (auto simp: covering_def transfer_ok_def whole_blocks_def)
    ultimately show ?thesis by (intro exI [of _ "[?t]"]) simp
  next
    case False
    show ?thesis
    proof (cases "b = e div bs")
      case True
      with blocks_loop_last [of bs e ts s] assms False show ?thesis by fastforce
    next
      case neq: False
      then have lt: "b < e div bs" using le by simp
      let ?m = "e div bs * bs"
      let ?t = "\<lparr>byte_range_absolute = (b * bs, ?m), block_range = (b, e div bs),
        bytes_in_block_range = (0, (e div bs - b) * bs)\<rparr>"
      have "Suc b * bs \<le> ?m" using lt by (intro mult_le_mono1) simp
      then have far: "bs < e - b * bs" using False rest by (simp, linarith)
      have m: "round_down e bs = ?m" "usub ?m (b * bs) = (e div bs - b) * bs" "next_multiple_of ?m bs div bs = e div bs"
      proof -
        have "?m \<le> e" by simp
        then show "round_down e bs = ?m" unfolding round_down_def using assms by (intro umul_eq) linarith
        show "usub ?m (b * bs) = (e div bs - b) * bs"
          unfolding split using lt assms \<open>?m \<le> e\<close> by (intro usub_eq) (simp, linarith)
        show "next_multiple_of ?m bs div bs = e div bs" using assms(1) by (simp add: next_multiple_of_def)
      qed
      have step: "blocks_loop (s, e) bs (b * bs) ts = blocks_loop (s, e) bs ?m (ts @ [?t])"
        using assms False sub far m by (subst blocks_loop.simps) (simp add: Let_def)
      obtain u where u: "blocks_loop (s, e) bs ?m (ts @ [?t]) = Some ((ts @ [?t]) @ [u])" "covering bs ?m [u] e"
        using blocks_loop_last [of bs e "ts @ [?t]" s] assms False by auto
      have "transfer_ok bs ?t"
        using assms lt split by (simp add: transfer_ok_def whole_blocks_def)
      from covering_Cons [OF this, of "b * bs" "[u]" e] have "covering bs (b * bs) [?t, u] e" using u(2) by simp
      then show ?thesis using step u(1) by (intro exI [of _ "[?t, u]"]) simp
    qed
  qed
qed

lemma blocks_loop_covers:
  assumes "0 < bs" "e + bs \<le> 2 ^ 64" "a \<le> e"
  shows "\<exists>us. blocks_loop (s, e) bs a [] = Some us \<and> covering bs a us e \<and> length us \<le> 3"
proof (cases "a = e")
  case True
  then show ?thesis by (simp add: blocks_loop_done covering_def)
next
  case False
  then have a: "a < e" using assms by simp
  have rest: "a div bs * bs + a mod bs = a" by (rule div_mult_mod_eq)
  show ?thesis
  proof (cases "a mod bs = 0")
    case True
    then show ?thesis using blocks_loop_aligned [of bs e "[]" "a div bs" s] assms a rest by fastforce
  next
    case unaligned: False
    let ?n = "Suc (a div bs) * bs"
    define m where "m = min e ?n"
    have n: "next_multiple_of a bs = ?n" using assms a unaligned by (intro next_multiple_of_eq) simp_all
    have lt: "a mod bs < bs" using assms(1) by simp
    have m: "a < m" "m \<le> e" "a mod bs + (m - a) \<le> bs"
    proof -
      have "m = e \<and> e \<le> bs + a div bs * bs \<or> m = bs + a div bs * bs \<and> m < e" by (auto simp: m_def)
      then show "a < m" "m \<le> e" "a mod bs + (m - a) \<le> bs"
        using a rest lt by linarith+
    qed
    have arith: "usub m a = m - a" "uadd (a div bs) 1 = Suc (a div bs)" "uadd (a mod bs) (m - a) = a mod bs + (m - a)"
    proof -
      show "usub m a = m - a" using m assms by (intro usub_eq) simp_all
      have "a div bs \<le> a" by simp
      then show "uadd (a div bs) 1 = Suc (a div bs)" using a assms by (subst uadd_eq) linarith+
      show "uadd (a mod bs) (m - a) = a mod bs + (m - a)" using m assms by (intro uadd_eq) simp_all
    qed
    let ?t = "\<lparr>byte_range_absolute = (a, m), block_range = (a div bs, Suc (a div bs)),
      bytes_in_block_range = (a mod bs, a mod bs + (m - a))\<rparr>"
    have step: "blocks_loop (s, e) bs a [] = blocks_loop (s, e) bs m [?t]"
      using a unaligned arith n by (subst blocks_loop.simps) (simp add: m_def Let_def)
    have t: "transfer_ok bs ?t"
      using m rest unaligned by (simp add: transfer_ok_def whole_blocks_def)
    show ?thesis
    proof (cases "m = e")
      case True
      then show ?thesis
        using step t by (intro exI [of _ "[?t]"]) (simp add: blocks_loop_done covering_def)
    next
      case False
      then have "m = ?n" "?n < e" by (auto simp: m_def)
      then obtain us where us: "blocks_loop (s, e) bs m [?t] = Some ([?t] @ us)" "covering bs m us e" "length us \<le> 2"
        using blocks_loop_aligned [of bs e "[?t]" "Suc (a div bs)" s] assms by auto
      then show ?thesis
        using step covering_Cons [OF t, of a us e] by (intro exI [of _ "?t # us"]) simp
    qed
  qed
qed

lemma map_filter_padded: "List.map_filter id (map Some ts @ replicate n None) = ts"
proof -
  have "List.map_filter id (map Some ts) = ts" for ts :: "'a list" by (induction ts) (simp_all add: map_filter_simps)
  moreover have "List.map_filter id (replicate n None) = []" by (induction n) (simp_all add: map_filter_simps)
  ultimately show ?thesis by (simp add: map_filter_def)
qed

lemma blocks_from_bytes_covers:
  assumes "0 < bs" "e + bs \<le> 2 ^ 64" "a \<le> e"
  obtains ts where "blocks_from_bytes (a, e) bs = Some (map Some ts @ replicate (3 - length ts) None)"
    "covering bs a ts e" "length ts \<le> 3"
  using blocks_loop_covers [OF assms, of a] assms(1) by (auto simp: blocks_from_bytes_def)

section \<open>One transfer\<close>

text \<open>The buffer of a partial transfer, and the place of a transfer in the buffer of the request.\<close>

definition tmp_buffer :: "nat \<Rightarrow> block_byte_transfer \<Rightarrow> u8 list \<Rightarrow> u8 list" where
  "tmp_buffer bs t tmp = (if tmp = [] then replicate (umul bs (snd (block_range t) - fst (block_range t))) 0 else tmp)"

abbreviation buffer_range :: "nat \<Rightarrow> block_byte_transfer \<Rightarrow> range" where
  "buffer_range offset t \<equiv> (usub (fst (byte_range_absolute t)) offset, usub (snd (byte_range_absolute t)) offset)"

lemma read_transfers_whole:
  assumes "block_size api d = bs" "0 < bs" "whole_blocks bs t" "get_slice buffer (buffer_range offset t) = Some part"
    and "read_blocks api d part (fst (block_range t)) = Some (r, part', d')"
    and "put_slice buffer (buffer_range offset t) part' = Some buffer'"
  shows "read_transfers api offset (t # ts) tmp buffer d = read_transfers api offset ts tmp buffer' d'"
  using assms by (simp add: Let_def flip: whole_blocks_def split del: if_split)

lemma read_transfers_part:
  assumes "block_size api d = bs" "0 < bs" "\<not> whole_blocks bs t"
    and "read_blocks api d (tmp_buffer bs t tmp) (fst (block_range t)) = Some (Ok n, tmp', d')"
    and "get_slice tmp' (bytes_in_block_range t) = Some part"
    and "put_slice buffer (buffer_range offset t) part = Some buffer'"
  shows "read_transfers api offset (t # ts) tmp buffer d = read_transfers api offset ts tmp' buffer' d'"
  using assms by (simp add: Let_def flip: whole_blocks_def tmp_buffer_def split del: if_split)

lemma write_transfers_whole:
  assumes "block_size api d = bs" "0 < bs" "whole_blocks bs t" "get_slice buffer (buffer_range offset t) = Some part"
    and "write_blocks api d part (fst (block_range t)) = Some (r, d')"
  shows "write_transfers api offset (t # ts) tmp buffer d = write_transfers api offset ts tmp buffer d'"
  using assms by (simp add: Let_def flip: whole_blocks_def split del: if_split)

lemma write_transfers_part:
  assumes "block_size api d = bs" "0 < bs" "\<not> whole_blocks bs t"
    and "read_blocks api d (tmp_buffer bs t tmp) (fst (block_range t)) = Some (Ok n, tmp', d')"
    and "get_slice buffer (buffer_range offset t) = Some part"
    and "put_slice tmp' (bytes_in_block_range t) part = Some tmp''"
    and "write_blocks api d' tmp'' (fst (block_range t)) = Some (Ok k, d'')"
  shows "write_transfers api offset (t # ts) tmp buffer d = write_transfers api offset ts tmp'' buffer d''"
  using assms by (simp add: Let_def flip: whole_blocks_def tmp_buffer_def split del: if_split)

end
