(* ===== verification/ByteStream.thy ===== *)
theory ByteStream
  imports BlockIo
begin

text \<open>
  The contracts of block devices and of byte streams, and the two layers of \<^verbatim>\<open>src/kernel/io/src/lib.rs\<close>
  between them: the wrapper that reads and writes bytes by transferring blocks, and the stream that keeps
  an offset. A stream behaves like an array of bytes with a position.
\<close>

section \<open>Block devices\<close>

text \<open>What \<open>BlockReader\<close> and \<open>BlockWriter\<close> document: a buffer of \<open>n\<close> blocks that lies inside the device, and is not
  longer than the device can transfer at once, is filled from or written to the blocks, and their number is
  returned.\<close>

locale block_device =
  fixes api :: "'d block_api" and len :: "'d \<Rightarrow> nat" and contents :: "'d \<Rightarrow> u8 list" and ready :: "'d \<Rightarrow> bool"
    and bs max_blocks :: nat
  assumes bs_pos: "0 < bs" and max_pos: "0 < max_blocks"
    and bs_bound: "ready d \<Longrightarrow> length (contents d) + bs \<le> 2 ^ 64"
    and whole: "ready d \<Longrightarrow> length (contents d) mod bs = 0"
    and known_length: "ready d \<Longrightarrow> len d = length (contents d)"
    and size: "ready d \<Longrightarrow> block_size api d = bs"
    and reads: "ready d \<Longrightarrow> length buffer = n * bs \<Longrightarrow> n \<le> max_blocks \<Longrightarrow> (b + n) * bs \<le> length (contents d) \<Longrightarrow>
      \<exists>d'. read_blocks api d buffer b = Some (Ok n, seg (contents d) (b * bs) ((b + n) * bs), d')
        \<and> ready d' \<and> contents d' = contents d"
    and writes: "ready d \<Longrightarrow> length buffer = n * bs \<Longrightarrow> n \<le> max_blocks \<Longrightarrow> (b + n) * bs \<le> length (contents d) \<Longrightarrow>
      \<exists>d'. write_blocks api d buffer b = Some (Ok n, d')
        \<and> ready d' \<and> contents d' = patch (contents d) (b * bs) buffer"
begin

lemma block_of_transfer:
  assumes "transfer_ok bs t" "\<not> whole_blocks bs t" "snd (byte_range_absolute t) \<le> length (contents d)"
    and "ready d"
  shows "(fst (block_range t) + 1) * bs \<le> length (contents d)"
proof -
  let ?c = "fst (block_range t)"
  obtain k where k: "length (contents d) = k * bs" using whole [OF assms(4)] by (metis div_mult_mod_eq add.right_neutral)
  have "?c * bs < k * bs" using assms(1,3) unfolding transfer_ok_def k by linarith
  then have "?c < k" by simp
  then show ?thesis unfolding k by (intro mult_le_mono1) simp
qed

lemma read_transfers_ok:
  assumes "ready d" "covering bs a ts b" "offset \<le> a" "b \<le> offset + length buffer" "b \<le> length (contents d)"
    and "b - a \<le> max_blocks * bs" "tmp = [] \<or> length tmp = bs"
  shows "\<exists>d'. read_transfers api offset ts tmp buffer d =
      Some (Ok (), patch buffer (a - offset) (seg (contents d) a b), d')
    \<and> ready d' \<and> contents d' = contents d"
  using assms
proof (induction ts arbitrary: a tmp buffer d)
  case Nil
  then show ?case by (simp add: covering_def)
next
  case (Cons t ts)
  let ?C = "contents d"
  let ?m = "snd (byte_range_absolute t)"
  let ?c = "fst (block_range t)"
  obtain x y where xy: "bytes_in_block_range t = (x, y)" by (cases "bytes_in_block_range t")
  have t: "transfer_ok bs t" "fst (byte_range_absolute t) = a" and cov: "covering bs ?m ts b"
    using Cons.prems(2) by (simp_all add: covering_def)
  have m: "a < ?m" "?m \<le> b" "a = ?c * bs + x" "?m = ?c * bs + y"
    using t consecutive_le [OF cov] by (simp_all add: transfer_ok_def xy)
  have b64: "b < 2 ^ 64" using bs_bound [OF Cons.prems(1)] bs_pos Cons.prems(5) by linarith
  have rng: "usub (fst (byte_range_absolute t)) offset = a - offset" "usub ?m offset = ?m - offset"
    using m b64 Cons.prems(3) t(2) by (simp_all add: usub_eq)
  have len: "a - offset \<le> ?m - offset" "?m - offset \<le> length buffer" "length (seg ?C a ?m) = ?m - offset - (a - offset)"
    using m Cons.prems(3-5) by auto
  let ?buf = "patch buffer (a - offset) (seg ?C a ?m)"
  have put: "put_slice buffer (a - offset, ?m - offset) (seg ?C a ?m) = Some ?buf"
    using len by (intro put_slice_patch) simp_all
  have lenb: "length ?buf = length buffer" using len by simp
  have next_buf: "patch ?buf (?m - offset) (seg ?C ?m b) = patch buffer (a - offset) (seg ?C a b)"
    using m Cons.prems(3-5) by (intro patch_seg_next) simp_all
  have rest: "\<exists>d''. read_transfers api offset ts tmp' ?buf d' = Some (Ok (), patch buffer (a - offset) (seg ?C a b), d'')
      \<and> ready d'' \<and> contents d'' = contents d"
    if "ready d'" "contents d' = contents d" "tmp' = [] \<or> length tmp' = bs" for d' tmp'
    using Cons.IH [OF that(1) cov, of ?buf tmp'] Cons.prems m that lenb next_buf by simp
  show ?case
  proof (cases "whole_blocks bs t")
    case True
    define n where "n = snd (block_range t) - ?c"
    have n: "x = 0" "y = n * bs" using t True by (simp_all add: transfer_ok_def xy n_def)
    have "n * bs \<le> max_blocks * bs" using n m Cons.prems(6) by linarith
    then have "n \<le> max_blocks" using bs_pos by simp
    moreover have "(?c + n) * bs = ?m" "?c * bs = a" using m n by (simp_all add: add_mult_distrib)
    moreover have "length (seg buffer (a - offset) (?m - offset)) = n * bs" using len n m Cons.prems(3) by simp
    ultimately obtain d' where d': "read_blocks api d (seg buffer (a - offset) (?m - offset)) ?c = Some (Ok n, seg ?C a ?m, d')"
      "ready d'" "contents d' = ?C"
      using reads [OF Cons.prems(1), of "seg buffer (a - offset) (?m - offset)" n ?c] m(2) Cons.prems(5) by auto
    have "read_transfers api offset (t # ts) tmp buffer d = read_transfers api offset ts tmp ?buf d'"
      using len put d'(1) rng by (intro read_transfers_whole [OF size [OF Cons.prems(1)] bs_pos True]) (simp_all add: get_slice_seg)
    then show ?thesis using rest [OF d'(2,3) Cons.prems(7)] by simp
  next
    case False
    then have one: "snd (block_range t) - ?c = 1" "y \<le> bs" "x < y" using t by (simp_all add: transfer_ok_def xy)
    let ?scratch = "tmp_buffer bs t tmp"
    have "umul bs 1 = bs" using bs_bound [OF Cons.prems(1)] m Cons.prems(5) by (subst umul_eq) simp_all
    then have tmp0: "length ?scratch = 1 * bs" using Cons.prems(7) one by (auto simp: tmp_buffer_def)
    have "(?c + 1) * bs \<le> length ?C" using t(1) False m Cons.prems(1,5) by (intro block_of_transfer) simp_all
    then obtain d' where d': "read_blocks api d ?scratch ?c = Some (Ok 1, seg ?C (?c * bs) ((?c + 1) * bs), d')"
      "ready d'" "contents d' = ?C"
      using reads [OF Cons.prems(1) tmp0, of ?c] max_pos by auto
    let ?tmp = "seg ?C (?c * bs) ((?c + 1) * bs)"
    have lt: "length ?tmp = bs" using \<open>(?c + 1) * bs \<le> length ?C\<close> by simp
    have "get_slice ?tmp (x, y) = Some (seg ?tmp x y)" using one lt by (intro get_slice_seg) simp_all
    moreover have "seg ?tmp x y = seg ?C a ?m"
      using one lt m \<open>(?c + 1) * bs \<le> length ?C\<close> by (intro nth_equalityI) (simp_all add: add.assoc)
    ultimately have "read_transfers api offset (t # ts) tmp buffer d = read_transfers api offset ts ?tmp ?buf d'"
      using put d'(1) rng by (intro read_transfers_part [OF size [OF Cons.prems(1)] bs_pos False]) (simp_all add: xy)
    then show ?thesis using rest [OF d'(2,3), of ?tmp] lt by simp
  qed
qed

lemma write_transfers_ok:
  assumes "ready d" "covering bs a ts b" "offset \<le> a" "b \<le> offset + length buffer" "b \<le> length (contents d)"
    and "b - a \<le> max_blocks * bs" "tmp = [] \<or> length tmp = bs"
  shows "\<exists>d'. write_transfers api offset ts tmp buffer d = Some (Ok (), d')
    \<and> ready d' \<and> contents d' = patch (contents d) a (seg buffer (a - offset) (b - offset))"
  using assms
proof (induction ts arbitrary: a tmp d)
  case Nil
  then show ?case by (simp add: covering_def)
next
  case (Cons t ts)
  let ?C = "contents d"
  let ?m = "snd (byte_range_absolute t)"
  let ?c = "fst (block_range t)"
  obtain x y where xy: "bytes_in_block_range t = (x, y)" by (cases "bytes_in_block_range t")
  have t: "transfer_ok bs t" "fst (byte_range_absolute t) = a" and cov: "covering bs ?m ts b"
    using Cons.prems(2) by (simp_all add: covering_def)
  have m: "a < ?m" "?m \<le> b" "a = ?c * bs + x" "?m = ?c * bs + y"
    using t consecutive_le [OF cov] by (simp_all add: transfer_ok_def xy)
  have b64: "b < 2 ^ 64" using bs_bound [OF Cons.prems(1)] bs_pos Cons.prems(5) by linarith
  have rng: "usub (fst (byte_range_absolute t)) offset = a - offset" "usub ?m offset = ?m - offset"
    using m b64 Cons.prems(3) t(2) by (simp_all add: usub_eq)
  have len: "a - offset \<le> ?m - offset" "?m - offset \<le> length buffer"
    using m Cons.prems(3-5) by auto
  let ?part = "seg buffer (a - offset) (?m - offset)"
  have part: "get_slice buffer (a - offset, ?m - offset) = Some ?part" "length ?part = ?m - a"
    using len m Cons.prems(3) by (simp_all add: get_slice_seg)
  have next_C: "patch (patch ?C a ?part) ?m (seg buffer (?m - offset) (b - offset))
      = patch ?C a (seg buffer (a - offset) (b - offset))"
  proof -
    have "patch (patch ?C a ?part) (a + length ?part) (seg buffer (?m - offset) (b - offset))
        = patch ?C a (?part @ seg buffer (?m - offset) (b - offset))"
      using part(2) m Cons.prems(3-5) by (intro patch_patch) simp
    then show ?thesis using part(2) m Cons.prems(3-5) by (simp add: seg_append)
  qed
  have rest: "\<exists>d''. write_transfers api offset ts tmp' buffer d' = Some (Ok (), d'') \<and> ready d''
      \<and> contents d'' = patch ?C a (seg buffer (a - offset) (b - offset))"
    if "ready d'" "contents d' = patch ?C a ?part" "tmp' = [] \<or> length tmp' = bs" for d' tmp'
    using Cons.IH [OF that(1) cov, of tmp'] Cons.prems m that next_C part(2) by simp
  show ?case
  proof (cases "whole_blocks bs t")
    case True
    define n where "n = snd (block_range t) - ?c"
    have n: "x = 0" "y = n * bs" using t True by (simp_all add: transfer_ok_def xy n_def)
    have "n * bs \<le> max_blocks * bs" using n m Cons.prems(6) by linarith
    then have "n \<le> max_blocks" using bs_pos by simp
    moreover have "(?c + n) * bs = ?m" "?c * bs = a" using m n by (simp_all add: add_mult_distrib)
    moreover have "length ?part = n * bs" using part(2) n m by simp
    ultimately obtain d' where d': "write_blocks api d ?part ?c = Some (Ok n, d')"
      "ready d'" "contents d' = patch ?C a ?part"
      using writes [OF Cons.prems(1), of ?part n ?c] m(2) Cons.prems(5) by auto
    have "write_transfers api offset (t # ts) tmp buffer d = write_transfers api offset ts tmp buffer d'"
      using part d'(1) rng by (intro write_transfers_whole [OF size [OF Cons.prems(1)] bs_pos True]) simp_all
    then show ?thesis using rest [OF d'(2,3) Cons.prems(7)] by simp
  next
    case False
    then have one: "snd (block_range t) - ?c = 1" "y \<le> bs" "x < y" using t by (simp_all add: transfer_ok_def xy)
    let ?scratch = "tmp_buffer bs t tmp"
    have "umul bs 1 = bs" using bs_bound [OF Cons.prems(1)] m Cons.prems(5) by (subst umul_eq) simp_all
    then have tmp0: "length ?scratch = 1 * bs" using Cons.prems(7) one by (auto simp: tmp_buffer_def)
    have fits: "(?c + 1) * bs \<le> length ?C" using t(1) False m Cons.prems(1,5) by (intro block_of_transfer) simp_all
    let ?tmp = "seg ?C (?c * bs) ((?c + 1) * bs)"
    obtain d' where d': "read_blocks api d ?scratch ?c = Some (Ok 1, ?tmp, d')" "ready d'" "contents d' = ?C"
      using reads [OF Cons.prems(1) tmp0, of ?c] max_pos fits by auto
    have lt: "length ?tmp = bs" using fits by simp
    have put: "put_slice ?tmp (x, y) ?part = Some (patch ?tmp x ?part)"
      using one lt part m by (intro put_slice_patch) simp_all
    have new: "length (patch ?tmp x ?part) = 1 * bs" using one lt part m by simp
    obtain d'' where d'': "write_blocks api d' (patch ?tmp x ?part) ?c = Some (Ok 1, d'')" "ready d''"
      "contents d'' = patch ?C (?c * bs) (patch ?tmp x ?part)"
      using writes [OF d'(2) new, of ?c] max_pos fits d'(3) by auto
    have "contents d'' = patch ?C a ?part"
      unfolding d''(3) m(3) using fits one part m by (intro patch_seg_patch) simp_all
    moreover have "write_transfers api offset (t # ts) tmp buffer d = write_transfers api offset ts (patch ?tmp x ?part) buffer d''"
      using part put d'(1) d''(1) rng
      by (intro write_transfers_part [OF size [OF Cons.prems(1)] bs_pos False]) (simp_all add: xy)
    ultimately show ?thesis using rest [OF d''(2), of "patch ?tmp x ?part"] new by simp
  qed
qed

lemma transfers_of:
  assumes "ready d" "offset + length (buffer :: u8 list) \<le> length (contents d)"
  obtains ts where "blocks_from_bytes (offset, uadd offset (length buffer)) (block_size api d)
      = Some (map Some ts @ replicate (3 - length ts) None)"
    "covering bs offset ts (offset + length buffer)"
proof -
  have bound: "offset + length buffer + bs \<le> 2 ^ 64" using bs_bound [OF assms(1)] assms(2) by linarith
  then have "uadd offset (length buffer) = offset + length buffer" using bs_pos by (intro uadd_eq) linarith
  then show ?thesis
    using blocks_from_bytes_covers [OF bs_pos bound, of offset] that by (auto simp: size [OF assms(1)])
qed

lemma read_at_ok:
  assumes "ready d" "offset + length buffer \<le> length (contents d)" "length buffer \<le> max_blocks * bs"
  shows "\<exists>d'. read_at api d buffer offset =
      Some (Ok (length buffer), seg (contents d) offset (offset + length buffer), d') \<and> ready d' \<and> contents d' = contents d"
proof -
  obtain ts where ts: "blocks_from_bytes (offset, uadd offset (length buffer)) (block_size api d)
      = Some (map Some ts @ replicate (3 - length ts) None)" "covering bs offset ts (offset + length buffer)"
    using transfers_of [OF assms(1,2)] .
  obtain d' where d': "read_transfers api offset ts [] buffer d =
      Some (Ok (), patch buffer (offset - offset) (seg (contents d) offset (offset + length buffer)), d')"
    "ready d'" "contents d' = contents d"
    using read_transfers_ok [OF assms(1) ts(2), of offset buffer "[]"] assms by auto
  then have "read_transfers api offset ts [] buffer d = Some (Ok (), seg (contents d) offset (offset + length buffer), d')"
    using assms(2) by (simp add: patch_full)
  then have "read_at api d buffer offset =
      Some (Ok (length buffer), seg (contents d) offset (offset + length buffer), d')"
    using assms(2) by (simp add: read_at_def ts(1) map_filter_padded)
  with d' show ?thesis by blast
qed

lemma write_at_ok:
  assumes "ready d" "offset + length buffer \<le> length (contents d)" "length buffer \<le> max_blocks * bs"
  shows "\<exists>d'. write_at api d buffer offset = Some (Ok (length buffer), d') \<and> ready d'
    \<and> contents d' = patch (contents d) offset buffer"
proof -
  obtain ts where ts: "blocks_from_bytes (offset, uadd offset (length buffer)) (block_size api d)
      = Some (map Some ts @ replicate (3 - length ts) None)" "covering bs offset ts (offset + length buffer)"
    using transfers_of [OF assms(1,2)] .
  have *: "\<exists>d'. write_transfers api offset ts [] buffer d = Some (Ok (), d') \<and> ready d'
      \<and> contents d' = patch (contents d) offset (seg buffer 0 (length buffer))"
    using write_transfers_ok [OF assms(1) ts(2), of offset buffer "[]"] assms by simp
  then obtain d' where "write_transfers api offset ts [] buffer d = Some (Ok (), d')"
    "ready d'" "contents d' = patch (contents d) offset buffer" by auto
  then show ?thesis by (simp add: write_at_def ts(1) map_filter_padded)
qed

end

section \<open>Byte streams\<close>

text \<open>What \<open>ByteReader\<close>, \<open>ByteWriter\<close> and \<open>KnownLength\<close> promise for requests inside the stream. Some files
  reject an empty read at their end, so a read asks for at least one byte.\<close>

locale byte_stream =
  fixes rd :: "'d \<Rightarrow> u8 list \<Rightarrow> nat \<Rightarrow> ((nat, io_error) result \<times> u8 list \<times> 'd) panics"
    and wr :: "'d \<Rightarrow> u8 list \<Rightarrow> nat \<Rightarrow> ((nat, io_error) result \<times> 'd) panics"
    and len :: "'d \<Rightarrow> nat" and contents :: "'d \<Rightarrow> u8 list" and ready :: "'d \<Rightarrow> bool" and limit :: nat
  assumes stream_bound: "ready d \<Longrightarrow> length (contents d) < 2 ^ 64"
    and stream_len: "ready d \<Longrightarrow> len d = length (contents d)"
    and stream_reads: "ready d \<Longrightarrow> buffer \<noteq> [] \<Longrightarrow> offset + length buffer \<le> length (contents d) \<Longrightarrow> length buffer \<le> limit \<Longrightarrow>
      \<exists>d'. rd d buffer offset = Some (Ok (length buffer), seg (contents d) offset (offset + length buffer), d')
        \<and> ready d' \<and> contents d' = contents d"
    and stream_writes: "ready d \<Longrightarrow> offset + length buffer \<le> length (contents d) \<Longrightarrow> length buffer \<le> limit \<Longrightarrow>
      \<exists>d'. wr d buffer offset = Some (Ok (length buffer), d')
        \<and> ready d' \<and> contents d' = patch (contents d) offset buffer"

sublocale block_device \<subseteq> bytes: byte_stream "read_at api" "write_at api" len contents ready "max_blocks * bs"
proof
  fix d
  assume "ready d"
  then show "length (contents d) < 2 ^ 64" "len d = length (contents d)"
    using bs_bound [of d] bs_pos by (auto simp: known_length)
qed (rule read_at_ok write_at_ok; assumption)+

section \<open>A stream with an offset is a file\<close>

datatype rw_op = Read nat | Write "u8 list" | Seek seek_from

datatype rw_out = Bytes "u8 list" | Written nat | Position nat | Rejected io_error

definition rw_step ::
  "('d \<Rightarrow> u8 list \<Rightarrow> nat \<Rightarrow> ((nat, io_error) result \<times> u8 list \<times> 'd) panics) \<Rightarrow>
   ('d \<Rightarrow> u8 list \<Rightarrow> nat \<Rightarrow> ((nat, io_error) result \<times> 'd) panics) \<Rightarrow> ('d \<Rightarrow> nat) \<Rightarrow>
   'd reader_writer \<Rightarrow> rw_op \<Rightarrow> (rw_out \<times> 'd reader_writer) panics" where
  "rw_step rd wr len rw op =
     (case op of
        Read n \<Rightarrow> map_option (\<lambda>(r, buf, rw). (case r of Inr k \<Rightarrow> Bytes (take k buf) | Inl e \<Rightarrow> Rejected e, rw))
          (rw_read rd rw (replicate n 0))
      | Write buf \<Rightarrow> map_option (\<lambda>(r, rw). (case r of Inr k \<Rightarrow> Written k | Inl e \<Rightarrow> Rejected e, rw)) (rw_write wr rw buf)
      | Seek p \<Rightarrow> Some (case rw_seek len rw p of (Inr k, rw) \<Rightarrow> (Position k, rw) | (Inl e, rw) \<Rightarrow> (Rejected e, rw)))"

fun rw_run where
  "rw_run step rw [] = Some ([], rw)"
| "rw_run step rw (op # ops) = do { (out, rw) \<leftarrow> step rw op; (outs, rw) \<leftarrow> rw_run step rw ops; Some (out # outs, rw) }"

text \<open>The abstract file: its bytes and a position. Empty reads, and requests beyond the end or longer than the
  limit, are not defined.\<close>

definition seek_target :: "nat \<Rightarrow> nat \<Rightarrow> seek_from \<Rightarrow> int" where
  "seek_target n_bytes pos p = (case p of Start n \<Rightarrow> int n | Current n \<Rightarrow> int pos + n | End n \<Rightarrow> int n_bytes + n)"

fun file_step :: "nat \<Rightarrow> u8 list \<times> nat \<Rightarrow> rw_op \<Rightarrow> (rw_out \<times> u8 list \<times> nat) option" where
  "file_step limit (xs, pos) (Read n) =
     (if 0 < n \<and> pos + n \<le> length xs \<and> n \<le> limit then Some (Bytes (seg xs pos (pos + n)), xs, pos + n) else None)"
| "file_step limit (xs, pos) (Write ys) =
     (if pos + length ys \<le> length xs \<and> length ys \<le> limit
      then Some (Written (length ys), patch xs pos ys, pos + length ys) else None)"
| "file_step limit (xs, pos) (Seek p) =
     (let t = seek_target (length xs) pos p in
      if 0 \<le> t \<and> t < 2 ^ 64 then Some (Position (nat t), xs, nat t) else Some (Rejected InvalidInput, xs, pos))"

definition seek_valid :: "rw_op \<Rightarrow> bool" where
  "seek_valid op \<longleftrightarrow> (case op of Seek (Start n) \<Rightarrow> n < 2 ^ 64 | _ \<Rightarrow> True)"

context byte_stream
begin

lemma rw_step_file:
  assumes "ready (rw_io rw)" "rw_offset rw < 2 ^ 64" "seek_valid op"
    and "file_step limit (contents (rw_io rw), rw_offset rw) op = Some (out, xs, pos)"
  shows "\<exists>rw'. rw_step rd wr len rw op = Some (out, rw') \<and> ready (rw_io rw') \<and> contents (rw_io rw') = xs
    \<and> rw_offset rw' = pos \<and> pos < 2 ^ 64"
proof (cases op)
  case (Read n)
  then have n0: "replicate n (0::u8) \<noteq> []" using assms(4) by (auto split: if_splits)
  have n: "rw_offset rw + length (replicate n (0::u8)) \<le> length (contents (rw_io rw))" "length (replicate n (0::u8)) \<le> limit"
    and o: "out = Bytes (seg (contents (rw_io rw)) (rw_offset rw) (rw_offset rw + n))" "xs = contents (rw_io rw)" "pos = rw_offset rw + n"
    using assms(4) Read by (auto split: if_splits)
  have "rw_offset rw + n < 2 ^ 64" using n(1) stream_bound [OF assms(1)] by simp
  with stream_reads [OF assms(1) _ n] n0 n(1) o show ?thesis
    by (auto simp: rw_step_def Read rw_read_def uadd_eq)
next
  case (Write ys)
  then have n: "rw_offset rw + length ys \<le> length (contents (rw_io rw))" "length ys \<le> limit"
    and o: "out = Written (length ys)" "xs = patch (contents (rw_io rw)) (rw_offset rw) ys" "pos = rw_offset rw + length ys"
    using assms(4) by (auto split: if_splits)
  have "rw_offset rw + length ys < 2 ^ 64" using n(1) stream_bound [OF assms(1)] by simp
  with stream_writes [OF assms(1) n] n(1) o show ?thesis
    by (auto simp: rw_step_def Write rw_write_def uadd_eq)
next
  case (Seek p)
  have "length (contents (rw_io rw)) < 2 ^ 64" using stream_bound [OF assms(1)] .
  then show ?thesis
    using assms by (cases p) (auto simp: rw_step_def Seek rw_seek_def seek_target_def seek_valid_def stream_len nat_add_distrib Let_def split: if_splits)
qed

lemma rw_run_file:
  assumes "ready (rw_io rw)" "rw_offset rw < 2 ^ 64" "list_all seek_valid ops"
    and "rw_run (file_step limit) (contents (rw_io rw), rw_offset rw) ops = Some (outs, xs, pos)"
  shows "\<exists>rw'. rw_run (rw_step rd wr len) rw ops = Some (outs, rw') \<and> ready (rw_io rw') \<and> contents (rw_io rw') = xs
    \<and> rw_offset rw' = pos"
  using assms
proof (induction ops arbitrary: rw outs)
  case (Cons op ops)
  obtain out ys p outs' where step: "file_step limit (contents (rw_io rw), rw_offset rw) op = Some (out, ys, p)"
    and run: "rw_run (file_step limit) (ys, p) ops = Some (outs', xs, pos)" and outs: "outs = out # outs'"
    using Cons.prems(4) by (auto simp: bind_eq_Some_conv split: prod.splits)
  obtain rw' where rw': "rw_step rd wr len rw op = Some (out, rw')" "ready (rw_io rw')" "contents (rw_io rw') = ys"
    "rw_offset rw' = p" "p < 2 ^ 64"
    using rw_step_file [OF Cons.prems(1,2) _ step] Cons.prems(3) by auto
  with Cons.IH [of rw' outs'] run Cons.prems(3) outs show ?case by auto
qed simp

end

end
