(* ===== verification/AtaDrive.thy ===== *)
theory AtaDrive
  imports ByteStream
begin

text \<open>
  The driver for ATA drives by port I/O: \<^verbatim>\<open>src/kernel/ata/src/lib.rs\<close>. The ports of a bus, and the drives
  behind them, are a parameter: a record of the accesses to each port on a state of the hardware. The
  polling loops may run forever, so they are partial functions. The locale \<open>ata_hw\<close> states what the ATA
  standard says of these ports; under it the driver is a block device.
\<close>

section \<open>Ports and commands\<close>

datatype ata_reg = SectorCount | LbaLow | LbaMid | LbaHigh | DriveSelect

record 'h ata_ports =
  read_data :: "'h \<Rightarrow> u16 \<times> 'h"
  write_data :: "u16 \<Rightarrow> 'h \<Rightarrow> 'h"
  write_reg :: "ata_reg \<Rightarrow> u8 \<Rightarrow> 'h \<Rightarrow> 'h"
  write_command :: "u8 \<Rightarrow> 'h \<Rightarrow> 'h"
  write_control :: "u8 \<Rightarrow> 'h \<Rightarrow> 'h"
  read_status :: "'h \<Rightarrow> u8 \<times> 'h"
  read_alternate_status :: "'h \<Rightarrow> u8 \<times> 'h"
  read_lba_mid :: "'h \<Rightarrow> u8 \<times> 'h"
  read_lba_high :: "'h \<Rightarrow> u8 \<times> 'h"

abbreviation SECTOR_SIZE_IN_BYTES :: nat where "SECTOR_SIZE_IN_BYTES \<equiv> 512"
abbreviation MAX_LBA_28_VALUE :: nat where "MAX_LBA_28_VALUE \<equiv> 2 ^ 28 - 1"

text \<open>\<open>AtaStatus\<close>.\<close>

abbreviation BUSY :: u8 where "BUSY \<equiv> 0x80"
abbreviation DRIVE_WRITE_FAULT :: u8 where "DRIVE_WRITE_FAULT \<equiv> 0x20"
abbreviation DATA_REQUEST_READY :: u8 where "DATA_REQUEST_READY \<equiv> 0x08"
abbreviation ERROR :: u8 where "ERROR \<equiv> 0x01"

definition intersects :: "u8 \<Rightarrow> u8 \<Rightarrow> bool" where
  "intersects s flags \<longleftrightarrow> s AND flags \<noteq> 0"

datatype ata_command = ReadPio | ReadPioExt | WritePio | WritePioExt | CacheFlush | CacheFlushExt | IdentifyDevice

fun command_code :: "ata_command \<Rightarrow> u8" where
  "command_code ReadPio = 0x20"
| "command_code ReadPioExt = 0x24"
| "command_code WritePio = 0x30"
| "command_code WritePioExt = 0x34"
| "command_code CacheFlush = 0xE7"
| "command_code CacheFlushExt = 0xEA"
| "command_code IdentifyDevice = 0xEC"

datatype ata_device_type = Pata | PataPi | Sata | SataPi

definition from_lba :: "u8 \<Rightarrow> u8 \<Rightarrow> ata_device_type option" where
  "from_lba lba_mid lba_high =
     (if (lba_mid, lba_high) = (0x00, 0x00) then Some Pata
      else if (lba_mid, lba_high) = (0x14, 0xEB) then Some PataPi
      else if (lba_mid, lba_high) = (0x3C, 0xC3) then Some Sata
      else if (lba_mid, lba_high) = (0x69, 0x96) then Some SataPi
      else None)"

datatype bus_drive_select = Master | Slave

fun select_bits :: "bus_drive_select \<Rightarrow> u8" where
  "select_bits Master = 0"
| "select_bits Slave = 0x10"

section \<open>Polling\<close>

definition status :: "'h ata_ports \<Rightarrow> 'h \<Rightarrow> u8 \<times> 'h" where
  "status ports h =
     (let h = snd (read_alternate_status ports h); h = snd (read_alternate_status ports h);
          h = snd (read_alternate_status ports h); h = snd (read_alternate_status ports h) in
      read_status ports h)"

partial_function (option) wait_for_data_ready :: "'h ata_ports \<Rightarrow> 'h \<Rightarrow> ((unit, unit) result \<times> 'h) option" where
  "wait_for_data_ready ports h =
     (let (s, h) = status ports h in
      if intersects s (ERROR OR DRIVE_WRITE_FAULT) then Some (Err (), h)
      else if intersects s BUSY then wait_for_data_ready ports h
      else if intersects s DATA_REQUEST_READY then Some (Ok (), h)
      else wait_for_data_ready ports h)"

partial_function (option) wait_for_data_done :: "'h ata_ports \<Rightarrow> 'h \<Rightarrow> ((unit, unit) result \<times> 'h) option" where
  "wait_for_data_done ports h =
     (let (s, h) = status ports h in
      if intersects s (ERROR OR DRIVE_WRITE_FAULT) then Some (Err (), h)
      else if intersects s BUSY then wait_for_data_done ports h
      else if \<not> intersects s DATA_REQUEST_READY then Some (Ok (), h)
      else wait_for_data_done ports h)"

section \<open>Transfers\<close>

text \<open>\<open>x as u8\<close> of a shifted \<open>usize\<close>.\<close>

definition byte_of :: "nat \<Rightarrow> nat \<Rightarrow> u8" where
  "byte_of x shift = of_nat (x div 2 ^ shift)"

text \<open>Setting up a command: the registers for a 28-bit address, or the high and then the low bytes for a
  48-bit address.\<close>

definition issue_28 :: "'h ata_ports \<Rightarrow> bus_drive_select \<Rightarrow> nat \<Rightarrow> nat \<Rightarrow> ata_command \<Rightarrow> 'h \<Rightarrow> 'h" where
  "issue_28 ports which lba_start sector_count cmd h =
     (let h = write_reg ports DriveSelect (0xE0 OR select_bits which OR (byte_of lba_start 24 AND 0x0F)) h;
          h = write_reg ports SectorCount (byte_of sector_count 0) h;
          h = write_reg ports LbaHigh (byte_of lba_start 16) h;
          h = write_reg ports LbaMid (byte_of lba_start 8) h;
          h = write_reg ports LbaLow (byte_of lba_start 0) h in
      write_command ports (command_code cmd) h)"

definition issue_48 :: "'h ata_ports \<Rightarrow> bus_drive_select \<Rightarrow> nat \<Rightarrow> nat \<Rightarrow> ata_command \<Rightarrow> 'h \<Rightarrow> 'h" where
  "issue_48 ports which lba_start sector_count cmd h =
     (let h = write_reg ports DriveSelect (0x40 OR select_bits which) h;
          h = write_reg ports SectorCount (byte_of sector_count 8) h;
          h = write_reg ports LbaHigh (byte_of lba_start 40) h;
          h = write_reg ports LbaMid (byte_of lba_start 32) h;
          h = write_reg ports LbaLow (byte_of lba_start 24) h;
          h = write_reg ports SectorCount (byte_of sector_count 0) h;
          h = write_reg ports LbaHigh (byte_of lba_start 16) h;
          h = write_reg ports LbaMid (byte_of lba_start 8) h;
          h = write_reg ports LbaLow (byte_of lba_start 0) h in
      write_command ports (command_code cmd) h)"

text \<open>One sector: each 16-bit word covers two bytes of the buffer, the low byte first.\<close>

fun read_words :: "'h ata_ports \<Rightarrow> nat \<Rightarrow> 'h \<Rightarrow> u8 list \<times> 'h" where
  "read_words ports 0 h = ([], h)"
| "read_words ports (Suc n) h =
     (let (w, h) = read_data ports h; (bytes, h) = read_words ports n h in
      (ucast w # ucast (drop_bit 8 w) # bytes, h))"

fun write_words :: "'h ata_ports \<Rightarrow> u8 list \<Rightarrow> 'h \<Rightarrow> 'h" where
  "write_words ports (a # b # bytes) h =
     write_words ports bytes (write_data ports (push_bit 8 (ucast b) OR ucast a) h)"
| "write_words ports _ h = h"

fun read_sectors :: "'h ata_ports \<Rightarrow> nat \<Rightarrow> nat \<Rightarrow> u8 list \<Rightarrow> 'h \<Rightarrow> ((unit, string) result \<times> u8 list \<times> 'h) panics" where
  "read_sectors ports 0 buffer_offset buffer h = Some (Ok (), buffer, h)"
| "read_sectors ports (Suc n) buffer_offset buffer h = do {
     (r, h) \<leftarrow> wait_for_data_ready ports h;
     (case r of
        Inl _ \<Rightarrow> Some (Err ''error during data read'', buffer, h)
      | Inr _ \<Rightarrow> do {
          chunk \<leftarrow> get_slice buffer (buffer_offset, buffer_offset + SECTOR_SIZE_IN_BYTES);
          let (bytes, h) = read_words ports (length chunk div 2) h;
          buffer \<leftarrow> put_slice buffer (buffer_offset, buffer_offset + SECTOR_SIZE_IN_BYTES) bytes;
          read_sectors ports n (buffer_offset + SECTOR_SIZE_IN_BYTES) buffer h
        })
   }"

fun write_sectors :: "'h ata_ports \<Rightarrow> nat \<Rightarrow> nat \<Rightarrow> u8 list \<Rightarrow> 'h \<Rightarrow> ((unit, string) result \<times> 'h) panics" where
  "write_sectors ports 0 buffer_offset buffer h = Some (Ok (), h)"
| "write_sectors ports (Suc n) buffer_offset buffer h = do {
     (r, h) \<leftarrow> wait_for_data_ready ports h;
     (case r of
        Inl _ \<Rightarrow> Some (Err ''error during data write'', h)
      | Inr _ \<Rightarrow> do {
          chunk \<leftarrow> get_slice buffer (buffer_offset, buffer_offset + SECTOR_SIZE_IN_BYTES);
          write_sectors ports n (buffer_offset + SECTOR_SIZE_IN_BYTES) buffer (write_words ports chunk h)
        })
   }"

definition bus_read_pio :: "'h ata_ports \<Rightarrow> u8 list \<Rightarrow> bus_drive_select \<Rightarrow> nat \<Rightarrow> nat \<Rightarrow> 'h
    \<Rightarrow> ((nat, string) result \<times> u8 list \<times> 'h) panics" where
  "bus_read_pio ports buffer which lba_start sector_count h =
     (if sector_count = 0 then Some (Ok 0, buffer, h)
      else do {
        let using_lba_28 = (lba_start \<le> MAX_LBA_28_VALUE);
        (r, h) \<leftarrow> wait_for_data_done ports h;
        (case r of
           Inl _ \<Rightarrow> Some (Err ''error before issuing read pio command'', buffer, h)
         | Inr _ \<Rightarrow> do {
             let h = (if using_lba_28 then issue_28 ports which lba_start sector_count ReadPio h
                      else issue_48 ports which lba_start sector_count ReadPioExt h);
             (r, buffer, h) \<leftarrow> read_sectors ports (uadd lba_start sector_count - lba_start) 0 buffer h;
             (case r of
                Inl e \<Rightarrow> Some (Err e, buffer, h)
              | Inr _ \<Rightarrow> do {
                  (r, h) \<leftarrow> wait_for_data_done ports h;
                  (case r of
                     Inl _ \<Rightarrow> Some (Err ''error after data read'', buffer, h)
                   | Inr _ \<Rightarrow> Some (Ok sector_count, buffer, h))
                })
           })
      })"

definition bus_write_pio :: "'h ata_ports \<Rightarrow> u8 list \<Rightarrow> bus_drive_select \<Rightarrow> nat \<Rightarrow> nat \<Rightarrow> 'h
    \<Rightarrow> ((nat, string) result \<times> 'h) panics" where
  "bus_write_pio ports buffer which lba_start sector_count h =
     (if sector_count = 0 then Some (Ok 0, h)
      else do {
        let using_lba_28 = (lba_start \<le> MAX_LBA_28_VALUE);
        (r, h) \<leftarrow> wait_for_data_done ports h;
        (case r of
           Inl _ \<Rightarrow> Some (Err ''error before issuing write command'', h)
         | Inr _ \<Rightarrow> do {
             let h = (if using_lba_28 then issue_28 ports which lba_start sector_count WritePio h
                      else issue_48 ports which lba_start sector_count WritePioExt h);
             (r, h) \<leftarrow> write_sectors ports (uadd lba_start sector_count - lba_start) 0 buffer h;
             (case r of
                Inl e \<Rightarrow> Some (Err e, h)
              | Inr _ \<Rightarrow> do {
                  (r, h) \<leftarrow> wait_for_data_done ports h;
                  (case r of
                     Inl _ \<Rightarrow> Some (Err ''error after data write'', h)
                   | Inr _ \<Rightarrow> do {
                       let h = write_command ports (command_code (if using_lba_28 then CacheFlush else CacheFlushExt)) h;
                       (r, h) \<leftarrow> wait_for_data_done ports h;
                       (case r of
                          Inl _ \<Rightarrow> Some (Err ''error after cache flush after data write'', h)
                        | Inr _ \<Rightarrow> Some (Ok sector_count, h))
                     })
                })
           })
      })"

section \<open>Identifying a drive\<close>

text \<open>The fields of \<open>AtaIdentifyData\<close> that the driver uses, and the strings it shows, at their offsets in the
  packed structure.\<close>

record ata_identify_data =
  serial_number :: "u8 list"
  firmware_version :: "u8 list"
  model_number :: "u8 list"
  max_blocks_per_transfer :: nat
  capabilities :: nat
  user_addressable_sectors :: nat
  max_48_bit_lba :: nat

fun flip_bytes :: "u8 list \<Rightarrow> u8 list" where
  "flip_bytes (a # b # bytes) = b # a # flip_bytes bytes"
| "flip_bytes bytes = bytes"

definition le_nat :: "u8 list \<Rightarrow> nat" where
  "le_nat bytes = foldr (\<lambda>b acc. unat b + 256 * acc) bytes 0"

definition identify_new :: "u8 list \<Rightarrow> ata_identify_data" where
  "identify_new arr =
     \<lparr>serial_number = flip_bytes (seg arr 20 40),
      firmware_version = flip_bytes (seg arr 46 54),
      model_number = flip_bytes (seg arr 54 94),
      max_blocks_per_transfer = le_nat (seg arr 94 95),
      capabilities = le_nat (seg arr 98 100),
      user_addressable_sectors = le_nat (seg arr 120 124),
      max_48_bit_lba = le_nat (seg arr 200 208)\<rparr>"

text \<open>The loop that waits for the end of \<open>BUSY\<close> and looks for a drive that is not ATA.\<close>

partial_function (option) identify_wait :: "'h ata_ports \<Rightarrow> 'h \<Rightarrow> (bool \<times> 'h) option" where
  "identify_wait ports h =
     (let (s, h) = status ports h in
      if intersects s BUSY then
        (let (mid, h) = read_lba_mid ports h in
         if mid \<noteq> 0 then Some (False, h)
         else (let (high, h) = read_lba_high ports h in
               if high \<noteq> 0 then Some (False, h) else identify_wait ports h))
      else Some (True, h))"

definition identify_drive :: "'h ata_ports \<Rightarrow> bus_drive_select \<Rightarrow> 'h
    \<Rightarrow> ((ata_identify_data, string) result \<times> 'h) panics" where
  "identify_drive ports which h = do {
     (r, h) \<leftarrow> wait_for_data_done ports h;
     if isl r then Some (Err ''error before issuing identify command'', h) else do {
     let h = write_reg ports DriveSelect (0xA0 OR select_bits which) h;
     let h = write_reg ports SectorCount 0 h;
     let h = write_reg ports LbaHigh 0 h;
     let h = write_reg ports LbaMid 0 h;
     let h = write_reg ports LbaLow 0 h;
     let h = write_command ports (command_code IdentifyDevice) h;
     let (s, h) = status ports h;
     if s = 0 then Some (Err ''drive did not exist'', h) else do {
     (is_ata, h) \<leftarrow> identify_wait ports h;
     if \<not> is_ata then Some (Err ''drive was not ATA'', h) else do {
     let (mid, h) = read_lba_mid ports h;
     let (high, h) = read_lba_high ports h;
     (case from_lba mid high of
        Some PataPi \<Rightarrow> Some (Err ''drive was an unsupported PATAPI device'', h)
      | Some Sata \<Rightarrow> Some (Err ''drive was an unsupported SATA device'', h)
      | Some SataPi \<Rightarrow> Some (Err ''drive was an unsupported SATAPI device'', h)
      | None \<Rightarrow> Some (Err ''drive was an unknown device type'', h)
      | Some Pata \<Rightarrow> do {
          (r, h) \<leftarrow> wait_for_data_ready ports h;
          if isl r then Some (Err ''error before identify data read'', h) else do {
          let (buffer, h) = read_words ports 256 h;
          (r, h) \<leftarrow> wait_for_data_done ports h;
          if isl r then Some (Err ''error after identify data read'', h)
          else Some (Ok (identify_new buffer), h) } }) } } } }"

definition software_reset :: "'h ata_ports \<Rightarrow> 'h \<Rightarrow> 'h" where
  "software_reset ports h =
     (let h = write_control ports 0x04 h;
          h = ((\<lambda>h. snd (status ports h)) ^^ 10) h in
      write_control ports 0 h)"

section \<open>Drives\<close>

record 'h ata_drive =
  bus :: 'h
  identify_data :: ata_identify_data
  master_slave :: bus_drive_select

definition drive_new :: "'h ata_ports \<Rightarrow> bus_drive_select \<Rightarrow> 'h \<Rightarrow> (('h ata_drive, string) result \<times> 'h) panics" where
  "drive_new ports which h = do {
     (r, h) \<leftarrow> identify_drive ports which (software_reset ports h);
     (case r of
        Inl e \<Rightarrow> Some (Err e, h)
      | Inr identify \<Rightarrow>
          if \<not> bit (capabilities identify) 9
          then Some (Err ''drive is an ancient CHS device that doesn't support LBA addressing mode, but we don't support CHS.'', h)
          else Some (Ok \<lparr>bus = h, identify_data = identify, master_slave = which\<rparr>, h))
   }"

definition size_in_blocks :: "'h ata_drive \<Rightarrow> nat" where
  "size_in_blocks d = (if user_addressable_sectors (identify_data d) \<noteq> 0
     then user_addressable_sectors (identify_data d) else max_48_bit_lba (identify_data d))"

lemma size_in_blocks_bus [simp]: "size_in_blocks (d\<lparr>bus := h\<rparr>) = size_in_blocks d"
  by (simp add: size_in_blocks_def)

definition drive_len :: "'h ata_drive \<Rightarrow> nat" where
  "drive_len d = umul SECTOR_SIZE_IN_BYTES (size_in_blocks d)"

definition is_master :: "'h ata_drive \<Rightarrow> bool" where
  "is_master d = (case master_slave d of Master \<Rightarrow> True | Slave \<Rightarrow> False)"

text \<open>The checks of \<open>AtaDrive::read_pio\<close> and \<open>AtaDrive::write_pio\<close>: the number of sectors, or an error.\<close>

definition check_request :: "string \<Rightarrow> 'h ata_drive \<Rightarrow> nat \<Rightarrow> nat \<Rightarrow> (nat, string) result" where
  "check_request verb d length_in_bytes offset_in_sectors =
     (if size_in_blocks d < offset_in_sectors then Err ''offset_in_sectors was out of bounds''
      else if length_in_bytes mod SECTOR_SIZE_IN_BYTES \<noteq> 0
      then Err (''The buffer length must be a multiple of sector size (512) bytes. ATA drives can only '' @ verb @
                '' at sector granularity.'')
      else
        (let lba_start = offset_in_sectors;
             lba_end = uadd lba_start (length_in_bytes div SECTOR_SIZE_IN_BYTES);
             sector_count = usub lba_end lba_start in
         if max_blocks_per_transfer (identify_data d) < sector_count
         then Err (''AtaDrive::'' @ verb @ ''_pio(): cannot '' @ verb @ '' more sectors than the drive's max'')
         else Ok sector_count))"

definition drive_read_pio :: "'h ata_ports \<Rightarrow> 'h ata_drive \<Rightarrow> u8 list \<Rightarrow> nat
    \<Rightarrow> ((nat, string) result \<times> u8 list \<times> 'h ata_drive) panics" where
  "drive_read_pio ports d buffer offset_in_sectors =
     (case check_request ''read'' d (length buffer) offset_in_sectors of
        Inl e \<Rightarrow> Some (Err e, buffer, d)
      | Inr sector_count \<Rightarrow> do {
          (r, buffer, h) \<leftarrow> bus_read_pio ports buffer (master_slave d) offset_in_sectors sector_count (bus d);
          Some (r, buffer, d\<lparr>bus := h\<rparr>)
        })"

definition drive_write_pio :: "'h ata_ports \<Rightarrow> 'h ata_drive \<Rightarrow> u8 list \<Rightarrow> nat
    \<Rightarrow> ((nat, string) result \<times> 'h ata_drive) panics" where
  "drive_write_pio ports d buffer offset_in_sectors =
     (case check_request ''write'' d (length buffer) offset_in_sectors of
        Inl e \<Rightarrow> Some (Err e, d)
      | Inr sector_count \<Rightarrow> do {
          (r, h) \<leftarrow> bus_write_pio ports buffer (master_slave d) offset_in_sectors sector_count (bus d);
          Some (r, d\<lparr>bus := h\<rparr>)
        })"

definition ata_api :: "'h ata_ports \<Rightarrow> 'h ata_drive block_api" where
  "ata_api ports =
     \<lparr>block_size = (\<lambda>_. SECTOR_SIZE_IN_BYTES),
      read_blocks = (\<lambda>d buffer block_offset.
        map_option (apfst (map_sum (\<lambda>_. InvalidInput) id)) (drive_read_pio ports d buffer block_offset)),
      write_blocks = (\<lambda>d buffer block_offset.
        map_option (apfst (map_sum (\<lambda>_. InvalidInput) id)) (drive_write_pio ports d buffer block_offset)),
      block_flush = (\<lambda>d. Some (Ok (), d))\<rparr>"

lemma word_bytes:
  "ucast (push_bit 8 (ucast b) OR ucast a :: u16) = (a :: u8)"
  "ucast (drop_bit 8 (push_bit 8 (ucast b) OR ucast a :: u16)) = (b :: u8)"
  "ucast (drop_bit 8 (push_bit 8 (ucast b)) OR drop_bit 8 (ucast a) :: u16) = b"
  by (auto simp: bit_eq_iff bit_simps dest: bit_imp_le_length)

lemma unat_byte_of: "unat (byte_of x k) = x div 2 ^ k mod 256"
  by (simp add: byte_of_def unat_of_nat)

lemma bytes_of_lba:
  "x = x div 2 ^ 24 * 2 ^ 24 + (x div 2 ^ 16 mod 256) * 2 ^ 16 + (x div 2 ^ 8 mod 256) * 2 ^ 8 + x mod 256" for x :: nat
proof -
  have step: "x div (k * 256) * 256 + x div k mod 256 = x div k" for k
    using div_mult_mod_eq [of "x div k" 256] by (simp add: div_mult2_eq)
  have "x div 256 * 256 + x mod 256 = x" by (rule div_mult_mod_eq)
  then have "x = x div 16777216 * 16777216 + (x div 65536 mod 256) * 65536 + (x div 256 mod 256) * 256 + x mod 256"
    using step [of 256, simplified] step [of 65536, simplified] by linarith
  then show ?thesis by simp
qed

lemma select_lba:
  "unat (0xE0 OR select_bits which OR (b AND 0x0F)) mod 16 = unat b mod 16"
  "bit (0xE0 OR select_bits which OR (b AND 0x0F)) 4 \<longleftrightarrow> which = Slave"
  "bit (0xE0 OR select_bits which OR (b AND 0x0F)) 6"
proof -
  have "take_bit 4 (0xE0 OR select_bits which OR (b AND mask 4)) = take_bit 4 b"
    by (cases which) (simp_all add: take_bit_or take_bit_and flip: take_bit_eq_mask)
  then have "take_bit 4 (unat (0xE0 OR select_bits which OR (b AND mask 4))) = take_bit 4 (unat b)"
    by (metis unsigned_take_bit_eq)
  then show "unat (0xE0 OR select_bits which OR (b AND 0x0F)) mod 16 = unat b mod 16"
    by (simp add: take_bit_eq_mod mask_numeral)
  show "bit (0xE0 OR select_bits which OR (b AND 0x0F)) 4 \<longleftrightarrow> which = Slave"
    "bit (0xE0 OR select_bits which OR (b AND 0x0F)) 6"
    by (cases which; simp add: bit_simps bit_numeral_rec)+
qed

section \<open>What the standard says of the ports\<close>

text \<open>A drive sees the last two values written to each address register, and is idle, or in the middle of
  a transfer (first sector left, number of sectors left, words of the sector done), or has reported an
  error. The bytes of the two drives are what a later read returns.\<close>

datatype ata_mode = Idle | Reading nat nat nat | Writing nat nat nat | Failed

record ata_view =
  v_regs :: "ata_reg \<Rightarrow> u8 \<times> u8"
  v_mode :: ata_mode
  v_disk :: "bool \<Rightarrow> u8 list"

definition reg_written :: "ata_reg \<Rightarrow> u8 \<Rightarrow> ata_view \<Rightarrow> ata_view" where
  "reg_written r x v = v\<lparr>v_regs := (v_regs v)(r := (snd (v_regs v r), x))\<rparr>"

lemma reg_written_simps [simp]: "v_mode (reg_written r x v) = v_mode v" "v_disk (reg_written r x v) = v_disk v"
  by (simp_all add: reg_written_def)

definition v_cur :: "ata_view \<Rightarrow> ata_reg \<Rightarrow> nat" where "v_cur v r = unat (snd (v_regs v r))"
definition v_prev :: "ata_view \<Rightarrow> ata_reg \<Rightarrow> nat" where "v_prev v r = unat (fst (v_regs v r))"

definition v_slave :: "ata_view \<Rightarrow> bool" where "v_slave v = bit (snd (v_regs v DriveSelect)) 4"

definition lba_28 :: "ata_view \<Rightarrow> nat" where
  "lba_28 v = (v_cur v DriveSelect mod 16) * 2 ^ 24 + v_cur v LbaHigh * 2 ^ 16 + v_cur v LbaMid * 2 ^ 8 + v_cur v LbaLow"

definition count_28 :: "ata_view \<Rightarrow> nat" where
  "count_28 v = (if v_cur v SectorCount = 0 then 256 else v_cur v SectorCount)"

definition lba_48 :: "ata_view \<Rightarrow> nat" where
  "lba_48 v = v_prev v LbaHigh * 2 ^ 40 + v_prev v LbaMid * 2 ^ 32 + v_prev v LbaLow * 2 ^ 24
     + v_cur v LbaHigh * 2 ^ 16 + v_cur v LbaMid * 2 ^ 8 + v_cur v LbaLow"

definition count_48 :: "ata_view \<Rightarrow> nat" where
  "count_48 v = (let n = v_prev v SectorCount * 256 + v_cur v SectorCount in if n = 0 then 65536 else n)"

text \<open>A command starts a transfer if the drive is in the addressing mode of logical blocks and all its
  sectors exist; the 28-bit commands reach no sector beyond \<open>2 ^ 28\<close>.\<close>

definition started :: "(nat \<Rightarrow> nat \<Rightarrow> nat \<Rightarrow> ata_mode) \<Rightarrow> nat \<Rightarrow> nat \<Rightarrow> nat \<Rightarrow> ata_view \<Rightarrow> ata_view" where
  "started dir lba n sectors v =
     v\<lparr>v_mode := (if bit (snd (v_regs v DriveSelect)) 6 \<and> lba + n \<le> sectors then dir lba n 0 else Failed)\<rparr>"

fun issued :: "ata_command \<Rightarrow> ata_view \<Rightarrow> ata_view" where
  "issued cmd v =
     (let sectors = length (v_disk v (v_slave v)) div 512 in
      case cmd of
        ReadPio \<Rightarrow> started Reading (lba_28 v) (count_28 v) (min sectors (2 ^ 28)) v
      | WritePio \<Rightarrow> started Writing (lba_28 v) (count_28 v) (min sectors (2 ^ 28)) v
      | ReadPioExt \<Rightarrow> started Reading (lba_48 v) (count_48 v) sectors v
      | WritePioExt \<Rightarrow> started Writing (lba_48 v) (count_48 v) sectors v
      | _ \<Rightarrow> v)"

text \<open>After each word: the next word, the next sector, or the end of the command.\<close>

definition word_done :: "(nat \<Rightarrow> nat \<Rightarrow> nat \<Rightarrow> ata_mode) \<Rightarrow> nat \<Rightarrow> nat \<Rightarrow> nat \<Rightarrow> ata_mode" where
  "word_done dir lba n i =
     (if i + 1 < 256 then dir lba n (i + 1) else if n \<le> 1 then Idle else dir (lba + 1) (n - 1) 0)"

text \<open>Bytes of the selected drive.\<close>

definition v_bytes :: "ata_view \<Rightarrow> u8 list" where
  "v_bytes v = v_disk v (v_slave v)"

definition disk_written :: "nat \<Rightarrow> u8 list \<Rightarrow> ata_view \<Rightarrow> ata_view" where
  "disk_written k bytes v = v\<lparr>v_disk := (v_disk v)(v_slave v := patch (v_bytes v) k bytes)\<rparr>"

lemma v_slave_simps [simp]:
  "v_slave (v\<lparr>v_mode := m\<rparr>) = v_slave v" "v_slave (disk_written k bytes v) = v_slave v"
  by (simp_all add: v_slave_def disk_written_def)

lemma v_bytes_simps [simp]:
  "v_bytes (v\<lparr>v_mode := m\<rparr>) = v_bytes v" "v_bytes (disk_written k bytes v) = patch (v_bytes v) k bytes"
  by (simp_all add: v_bytes_def disk_written_def) (simp add: v_slave_def)

lemma disk_written_simps [simp]:
  "v_mode (disk_written k bytes v) = v_mode v" "v_regs (disk_written k bytes v) = v_regs v"
  "disk_written k bytes (v\<lparr>v_mode := m\<rparr>) = (disk_written k bytes v)\<lparr>v_mode := m\<rparr>"
  by (simp_all add: disk_written_def)

lemma disk_written_append:
  "k + length ys + length zs \<le> length (v_bytes v) \<Longrightarrow>
    disk_written (k + length ys) zs (disk_written k ys v) = disk_written k (ys @ zs) v"
proof -
  assume *: "k + length ys + length zs \<le> length (v_bytes v)"
  have "v_slave (v\<lparr>v_disk := f\<rparr>) = v_slave v" for f by (simp add: v_slave_def)
  then show ?thesis using patch_patch [OF *] by (simp add: disk_written_def v_bytes_def)
qed

locale ata_hw =
  fixes ports :: "'h ata_ports" and view :: "'h \<Rightarrow> ata_view" and busy_for :: "'h \<Rightarrow> nat"
  assumes alternate: "view (snd (read_alternate_status ports h)) = view h"
      "busy_for (snd (read_alternate_status ports h)) \<le> busy_for h"
    and status_view: "view (snd (read_status ports h)) = view h"
    and status_error: "intersects (fst (read_status ports h)) (ERROR OR DRIVE_WRITE_FAULT) \<longleftrightarrow> v_mode (view h) = Failed"
    and status_busy: "intersects (fst (read_status ports h)) BUSY \<Longrightarrow> busy_for (snd (read_status ports h)) < busy_for h"
    and status_drq: "\<not> intersects (fst (read_status ports h)) BUSY \<Longrightarrow> v_mode (view h) \<noteq> Failed \<Longrightarrow>
      intersects (fst (read_status ports h)) DATA_REQUEST_READY \<longleftrightarrow> v_mode (view h) \<noteq> Idle"
    and register: "v_mode (view h) = Idle \<Longrightarrow> view (write_reg ports r x h) = reg_written r x (view h)"
    and command: "v_mode (view h) = Idle \<Longrightarrow> cmd \<noteq> IdentifyDevice \<Longrightarrow>
      view (write_command ports (command_code cmd) h) = issued cmd (view h)"
    and data_read: "v_mode (view h) = Reading lba n i \<Longrightarrow>
      (let k = lba * 512 + 2 * i; disk = v_bytes (view h); (w, h') = read_data ports h in
       ucast w = disk ! k \<and> ucast (drop_bit 8 w) = disk ! (k + 1) \<and>
       view h' = (view h)\<lparr>v_mode := word_done Reading lba n i\<rparr>)"
    and data_write: "v_mode (view h) = Writing lba n i \<Longrightarrow>
      view (write_data ports w h) =
        (disk_written (lba * 512 + 2 * i) [ucast w, ucast (drop_bit 8 w)] (view h))\<lparr>v_mode := word_done Writing lba n i\<rparr>"
begin

lemma status_ok:
  assumes "status ports h = (s, h')"
  shows "view h' = view h" "intersects s (ERROR OR DRIVE_WRITE_FAULT) \<longleftrightarrow> v_mode (view h) = Failed"
    and "intersects s BUSY \<Longrightarrow> busy_for h' < busy_for h"
    and "\<not> intersects s BUSY \<Longrightarrow> v_mode (view h) \<noteq> Failed \<Longrightarrow> intersects s DATA_REQUEST_READY \<longleftrightarrow> v_mode (view h) \<noteq> Idle"
proof -
  let ?a = "\<lambda>h. snd (read_alternate_status ports h)"
  have r: "read_status ports (?a (?a (?a (?a h)))) = (s, h')" using assms by (simp add: status_def Let_def)
  have v: "view (?a (?a (?a (?a h)))) = view h" by (simp add: alternate(1))
  have b: "busy_for (?a (?a (?a (?a h)))) \<le> busy_for h" using alternate(2) by (meson order_trans)
  note laws = status_view [of "?a (?a (?a (?a h)))"] status_error [of "?a (?a (?a (?a h)))"]
    status_busy [of "?a (?a (?a (?a h)))"] status_drq [of "?a (?a (?a (?a h)))"]
  from laws r v b show "view h' = view h" "intersects s (ERROR OR DRIVE_WRITE_FAULT) \<longleftrightarrow> v_mode (view h) = Failed"
    "intersects s BUSY \<Longrightarrow> busy_for h' < busy_for h"
    "\<not> intersects s BUSY \<Longrightarrow> v_mode (view h) \<noteq> Failed \<Longrightarrow> intersects s DATA_REQUEST_READY \<longleftrightarrow> v_mode (view h) \<noteq> Idle"
    by simp_all
qed

lemma wait_done: "v_mode (view h) = Idle \<Longrightarrow> \<exists>h'. wait_for_data_done ports h = Some (Ok (), h') \<and> view h' = view h"
proof (induction "busy_for h" arbitrary: h rule: less_induct)
  case less
  obtain s h' where s: "status ports h = (s, h')" by (cases "status ports h")
  show ?case
  proof (cases "intersects s BUSY")
    case True
    then obtain h'' where "wait_for_data_done ports h' = Some (Ok (), h'')" "view h'' = view h"
      using less.hyps [OF status_ok(3) [OF s]] less.prems status_ok(1) [OF s] by auto
    then show ?thesis
      using s True status_ok [OF s] less.prems by (subst wait_for_data_done.simps) simp
  next
    case False
    then show ?thesis
      using s status_ok [OF s] less.prems by (subst wait_for_data_done.simps) simp
  qed
qed

lemma wait_ready:
  "v_mode (view h) \<noteq> Idle \<Longrightarrow> v_mode (view h) \<noteq> Failed \<Longrightarrow>
    \<exists>h'. wait_for_data_ready ports h = Some (Ok (), h') \<and> view h' = view h"
proof (induction "busy_for h" arbitrary: h rule: less_induct)
  case less
  obtain s h' where s: "status ports h = (s, h')" by (cases "status ports h")
  show ?case
  proof (cases "intersects s BUSY")
    case True
    then obtain h'' where "wait_for_data_ready ports h' = Some (Ok (), h'')" "view h'' = view h"
      using less.hyps [OF status_ok(3) [OF s]] less.prems status_ok(1) [OF s] by auto
    then show ?thesis
      using s True status_ok [OF s] less.prems by (subst wait_for_data_ready.simps) simp
  next
    case False
    then show ?thesis
      using s status_ok [OF s] less.prems by (subst wait_for_data_ready.simps) simp
  qed
qed

lemma wait_failed: "v_mode (view h) = Failed \<Longrightarrow> \<exists>h'. wait_for_data_ready ports h = Some (Err (), h') \<and> view h' = view h"
proof -
  assume "v_mode (view h) = Failed"
  moreover obtain s h' where s: "status ports h = (s, h')" by (cases "status ports h")
  ultimately show ?thesis
    using status_ok(1,2) [OF s] by (subst wait_for_data_ready.simps) simp
qed

text \<open>One sector.\<close>

lemma read_words_rest:
  assumes "v_mode (view h) = Reading lba n i" "i < 256" "v_bytes (view h) = disk" "(lba + 1) * 512 \<le> length disk"
  shows "\<exists>h'. read_words ports (256 - i) h = (seg disk (lba * 512 + 2 * i) ((lba + 1) * 512), h')
    \<and> view h' = (view h)\<lparr>v_mode := word_done Reading lba n 255\<rparr>"
  using assms
proof (induction "255 - i" arbitrary: h i)
  case 0
  obtain w h' where w: "read_data ports h = (w, h')" by (cases "read_data ports h")
  have i: "i = 255" "256 - i = Suc 0" using 0 by simp_all
  let ?k = "lba * 512 + 2 * i"
  have v: "ucast w = disk ! ?k" "ucast (drop_bit 8 w) = disk ! (?k + 1)"
    "view h' = (view h)\<lparr>v_mode := word_done Reading lba n 255\<rparr>"
    using data_read [OF 0(2)] w i 0(4) by (simp_all add: Let_def)
  have e: "?k + 2 = (lba + 1) * 512" using i by simp
  have "seg disk ?k ((lba + 1) * 512) = [disk ! ?k, disk ! (?k + 1)]"
    using seg_Cons2 [of ?k "(lba + 1) * 512" disk] 0(5) e by (simp only: e seg_empty order_refl simp_thms)
  then show ?case unfolding i(2) using w v by simp
next
  case (Suc k)
  obtain w h' where w: "read_data ports h = (w, h')" by (cases "read_data ports h")
  have i: "i < 255" and k: "k = 255 - (i + 1)" using Suc.hyps(2) by simp_all
  let ?k = "lba * 512 + 2 * i"
  have v: "ucast w = disk ! ?k" "ucast (drop_bit 8 w) = disk ! (?k + 1)"
    "view h' = (view h)\<lparr>v_mode := Reading lba n (i + 1)\<rparr>"
    using data_read [OF Suc.prems(1)] w i Suc.prems(3) by (simp_all add: Let_def word_done_def)
  obtain h'' where h'': "read_words ports (256 - (i + 1)) h' = (seg disk (lba * 512 + 2 * (i + 1)) ((lba + 1) * 512), h'')"
    "view h'' = (view h)\<lparr>v_mode := word_done Reading lba n 255\<rparr>"
    using Suc.hyps(1) [OF k, of h'] Suc.prems v i by (auto simp: v_slave_def)
  have "256 - i = Suc (256 - (i + 1))" using i by simp
  moreover have "seg disk ?k ((lba + 1) * 512) = disk ! ?k # disk ! (?k + 1) # seg disk (?k + 2) ((lba + 1) * 512)"
    using Suc.prems(4) i by (intro seg_Cons2) simp_all
  ultimately show ?case using w v h'' by (simp add: add.assoc)
qed

lemma write_words_rest:
  assumes "v_mode (view h) = Writing lba n i" "length bytes = 512 - 2 * i" "i < 256"
    and "(lba + 1) * 512 \<le> length (v_bytes (view h))"
  shows "view (write_words ports bytes h) =
    (disk_written (lba * 512 + 2 * i) bytes (view h))\<lparr>v_mode := word_done Writing lba n 255\<rparr>"
  using assms
proof (induction "255 - i" arbitrary: h i bytes)
  case 0
  then have i: "i = 255" by simp
  then obtain a b where bytes: "bytes = [a, b]" using 0(3) by (auto simp: length_Suc_conv numeral_2_eq_2)
  show ?case
    using data_write [OF 0(2), of "push_bit 8 (ucast b) OR ucast a"] by (simp add: bytes i word_bytes)
next
  case (Suc k)
  have i: "i < 255" and k: "k = 255 - (i + 1)" using Suc.hyps(2) by simp_all
  then have "2 \<le> length bytes" using Suc.prems(2) by simp
  then obtain a b rest where bytes: "bytes = a # b # rest" by (cases bytes; cases "tl bytes") auto
  let ?h = "write_data ports (push_bit 8 (ucast b) OR ucast a) h"
  have v: "view ?h = (disk_written (lba * 512 + 2 * i) [a, b] (view h))\<lparr>v_mode := Writing lba n (i + 1)\<rparr>"
    using data_write [OF Suc.prems(1), of "push_bit 8 (ucast b) OR ucast a"] i
    by (simp add: word_done_def word_bytes)
  have len: "lba * 512 + 2 * i + length [a, b] + length rest \<le> length (v_bytes (view h))"
    using Suc.prems(2,4) bytes i by simp
  have "view (write_words ports rest ?h) =
      (disk_written (lba * 512 + 2 * (i + 1)) rest (view ?h))\<lparr>v_mode := word_done Writing lba n 255\<rparr>"
    using Suc.hyps(1) [OF k, of ?h rest] v Suc.prems i bytes len by simp
  moreover have "disk_written (lba * 512 + 2 * (i + 1)) rest (disk_written (lba * 512 + 2 * i) [a, b] (view h)) =
      disk_written (lba * 512 + 2 * i) bytes (view h)"
    using disk_written_append [OF len] by (simp add: bytes)
  ultimately show ?case by (simp add: bytes v)
qed

text \<open>All sectors of a command.\<close>

lemma read_sectors_step:
  assumes "v_mode (view h) = Reading lba n 0" "v_bytes (view h) = disk"
    and "(lba + 1) * 512 \<le> length disk" "off + 512 \<le> length buffer"
  shows "\<exists>h'. read_sectors ports (Suc m) off buffer h =
      read_sectors ports m (off + 512) (patch buffer off (seg disk (lba * 512) ((lba + 1) * 512))) h'
    \<and> view h' = (view h)\<lparr>v_mode := word_done Reading lba n 255\<rparr>"
proof -
  obtain h1 where h1: "wait_for_data_ready ports h = Some (Ok (), h1)" "view h1 = view h"
    using wait_ready [of h] assms(1) by auto
  obtain h2 where h2: "read_words ports 256 h1 = (seg disk (lba * 512) ((lba + 1) * 512), h2)"
    "view h2 = (view h)\<lparr>v_mode := word_done Reading lba n 255\<rparr>"
    using read_words_rest [of h1 lba n 0 disk] h1(2) assms by auto
  have "put_slice buffer (off, off + 512) (seg disk (lba * 512) ((lba + 1) * 512)) =
      Some (patch buffer off (seg disk (lba * 512) ((lba + 1) * 512)))"
    using assms by (intro put_slice_patch) simp_all
  moreover have "get_slice buffer (off, off + 512) = Some (seg buffer off (off + 512))"
    using assms by (intro get_slice_seg) simp_all
  ultimately have "read_sectors ports (Suc m) off buffer h =
      read_sectors ports m (off + 512) (patch buffer off (seg disk (lba * 512) ((lba + 1) * 512))) h2"
    using h1(1) h2(1) assms(4) by simp
  with h2(2) show ?thesis by blast
qed

lemma read_sectors_ok:
  assumes "v_mode (view h) = Reading lba (Suc n) 0" "v_bytes (view h) = disk"
    and "(lba + Suc n) * 512 \<le> length disk" "off + Suc n * 512 \<le> length buffer"
  shows "\<exists>h'. read_sectors ports (Suc n) off buffer h =
      Some (Ok (), patch buffer off (seg disk (lba * 512) ((lba + Suc n) * 512)), h') \<and> view h' = (view h)\<lparr>v_mode := Idle\<rparr>"
  using assms
proof (induction n arbitrary: h lba off buffer)
  case 0
  then show ?case using read_sectors_step [of h lba 1 disk off buffer 0] by (auto simp: word_done_def)
next
  case (Suc n)
  let ?x = "seg disk (lba * 512) ((lba + 1) * 512)"
  have len: "length ?x = 512" using Suc.prems by simp
  obtain h1 where h1: "read_sectors ports (Suc (Suc n)) off buffer h = read_sectors ports (Suc n) (off + 512) (patch buffer off ?x) h1"
    "view h1 = (view h)\<lparr>v_mode := Reading (lba + 1) (Suc n) 0\<rparr>"
    using read_sectors_step [of h lba "Suc (Suc n)" disk off buffer "Suc n"] Suc.prems by (auto simp: word_done_def)
  obtain h2 where h2: "read_sectors ports (Suc n) (off + 512) (patch buffer off ?x) h1 =
      Some (Ok (), patch (patch buffer off ?x) (off + 512) (seg disk ((lba + 1) * 512) ((lba + 1 + Suc n) * 512)), h2)"
    "view h2 = (view h)\<lparr>v_mode := Idle\<rparr>"
    using Suc.IH [of h1 "lba + 1" "off + 512" "patch buffer off ?x"] h1(2) Suc.prems len by (auto simp: v_slave_def)
  have "patch (patch buffer off ?x) (off + length ?x) (seg disk ((lba + 1) * 512) ((lba + 1 + Suc n) * 512))
      = patch buffer off (?x @ seg disk ((lba + 1) * 512) ((lba + 1 + Suc n) * 512))"
    using Suc.prems len by (intro patch_patch) simp
  also have "?x @ seg disk ((lba + 1) * 512) ((lba + 1 + Suc n) * 512) = seg disk (lba * 512) ((lba + Suc (Suc n)) * 512)"
    using Suc.prems seg_append [of "lba * 512" "(lba + 1) * 512" "(lba + Suc (Suc n)) * 512" disk] by simp
  finally show ?case using h1(1) h2 len by auto
qed

lemma write_sectors_step:
  assumes "v_mode (view h) = Writing lba n 0" "(lba + 1) * 512 \<le> length (v_bytes (view h))" "off + 512 \<le> length buffer"
  shows "\<exists>h'. write_sectors ports (Suc m) off buffer h = write_sectors ports m (off + 512) buffer h'
    \<and> view h' = (disk_written (lba * 512) (seg buffer off (off + 512)) (view h))\<lparr>v_mode := word_done Writing lba n 255\<rparr>"
proof -
  obtain h1 where h1: "wait_for_data_ready ports h = Some (Ok (), h1)" "view h1 = view h"
    using wait_ready [of h] assms(1) by auto
  have "get_slice buffer (off, off + 512) = Some (seg buffer off (off + 512))"
    using assms by (intro get_slice_seg) simp_all
  then show ?thesis
    using h1 write_words_rest [of h1 lba n 0 "seg buffer off (off + 512)"] assms by auto
qed

lemma write_sectors_ok:
  assumes "v_mode (view h) = Writing lba (Suc n) 0" "(lba + Suc n) * 512 \<le> length (v_bytes (view h))"
    and "off + Suc n * 512 \<le> length buffer"
  shows "\<exists>h'. write_sectors ports (Suc n) off buffer h = Some (Ok (), h') \<and>
    view h' = (disk_written (lba * 512) (seg buffer off (off + Suc n * 512)) (view h))\<lparr>v_mode := Idle\<rparr>"
  using assms
proof (induction n arbitrary: h lba off)
  case 0
  then show ?case using write_sectors_step [of h lba 1 off buffer 0] by (auto simp: word_done_def)
next
  case (Suc n)
  let ?x = "seg buffer off (off + 512)" and ?y = "seg buffer (off + 512) (off + 512 + Suc n * 512)"
  have len: "length ?x = 512" using Suc.prems by simp
  obtain h1 where h1: "write_sectors ports (Suc (Suc n)) off buffer h = write_sectors ports (Suc n) (off + 512) buffer h1"
    "view h1 = (disk_written (lba * 512) ?x (view h))\<lparr>v_mode := Writing (lba + 1) (Suc n) 0\<rparr>"
    using write_sectors_step [of h lba "Suc (Suc n)" off buffer "Suc n"] Suc.prems by (auto simp: word_done_def)
  obtain h2 where h2: "write_sectors ports (Suc n) (off + 512) buffer h1 = Some (Ok (), h2)"
    "view h2 = (disk_written ((lba + 1) * 512) ?y (disk_written (lba * 512) ?x (view h)))\<lparr>v_mode := Idle\<rparr>"
    using Suc.IH [of h1 "lba + 1" "off + 512"] h1(2) Suc.prems len by auto
  have "disk_written (lba * 512 + length ?x) ?y (disk_written (lba * 512) ?x (view h)) =
      disk_written (lba * 512) (?x @ ?y) (view h)"
    using Suc.prems len by (intro disk_written_append) simp
  moreover have e: "off + 512 + Suc n * 512 = off + Suc (Suc n) * 512" by simp
  have "?x @ ?y = seg buffer off (off + Suc (Suc n) * 512)"
    unfolding e using Suc.prems by (intro seg_append) simp_all
  ultimately have "disk_written ((lba + 1) * 512) ?y (disk_written (lba * 512) ?x (view h)) =
      disk_written (lba * 512) (seg buffer off (off + Suc (Suc n) * 512)) (view h)"
    using len by (simp add: add.commute)
  then show ?case using h1(1) h2 by simp
qed

text \<open>Issuing a command starts the transfer of exactly the sectors that were asked for.\<close>

lemma issue_28_starts:
  assumes "v_mode (view h) = Idle" "lba < 2 ^ 28" "0 < n" "n < 256" "cmd = ReadPio \<and> dir = Reading \<or> cmd = WritePio \<and> dir = Writing"
  shows "\<exists>v. view (issue_28 ports which lba n cmd h) = started dir lba n (min (length (v_bytes v) div 512) (2 ^ 28)) v
    \<and> v_disk v = v_disk (view h) \<and> v_mode v = Idle \<and> (v_slave v \<longleftrightarrow> which = Slave) \<and> bit (snd (v_regs v DriveSelect)) 6"
proof -
  define v where "v = reg_written LbaLow (byte_of lba 0) (reg_written LbaMid (byte_of lba 8)
    (reg_written LbaHigh (byte_of lba 16) (reg_written SectorCount (byte_of n 0)
    (reg_written DriveSelect (0xE0 OR select_bits which OR (byte_of lba 24 AND 0x0F)) (view h)))))"
  note regs = v_def reg_written_def v_cur_def v_slave_def
  have cmd: "cmd \<noteq> IdentifyDevice" using assms(5) by auto
  have view: "view (issue_28 ports which lba n cmd h) = issued cmd v"
    using assms(1) cmd by (simp add: issue_28_def Let_def register command v_def del: issued.simps)
  have v: "v_disk v = v_disk (view h)" "v_mode v = Idle" "v_slave v \<longleftrightarrow> which = Slave" "bit (snd (v_regs v DriveSelect)) 6"
    using assms(1) select_lba by (simp_all add: regs)
  have "lba div 2 ^ 24 < 16" using assms(2) by (simp add: less_mult_imp_div_less)
  then have "lba div 2 ^ 24 mod 256 mod 16 = lba div 2 ^ 24" by simp
  then have "lba_28 v = lba"
    using bytes_of_lba [of lba] select_lba(1) [of which "byte_of lba 24"] by (simp add: lba_28_def regs unat_byte_of)
  moreover have "count_28 v = n" using assms(3,4) by (simp add: count_28_def regs unat_byte_of)
  ultimately have "issued cmd v = started dir lba n (min (length (v_bytes v) div 512) (2 ^ 28)) v"
    using assms(5) by (auto simp: v_bytes_def)
  then show ?thesis using view v by auto
qed

lemma issue_48_starts:
  assumes "v_mode (view h) = Idle" "lba < 2 ^ 48" "0 < n" "n < 256"
    and "cmd = ReadPioExt \<and> dir = Reading \<or> cmd = WritePioExt \<and> dir = Writing"
  shows "\<exists>v. view (issue_48 ports which lba n cmd h) = started dir lba n (length (v_bytes v) div 512) v
    \<and> v_disk v = v_disk (view h) \<and> v_mode v = Idle \<and> (v_slave v \<longleftrightarrow> which = Slave) \<and> bit (snd (v_regs v DriveSelect)) 6"
proof -
  define v where "v = reg_written LbaLow (byte_of lba 0) (reg_written LbaMid (byte_of lba 8)
    (reg_written LbaHigh (byte_of lba 16) (reg_written SectorCount (byte_of n 0)
    (reg_written LbaLow (byte_of lba 24) (reg_written LbaMid (byte_of lba 32)
    (reg_written LbaHigh (byte_of lba 40) (reg_written SectorCount (byte_of n 8)
    (reg_written DriveSelect (0x40 OR select_bits which) (view h)))))))))"
  note regs = v_def reg_written_def v_cur_def v_prev_def v_slave_def
  have cmd: "cmd \<noteq> IdentifyDevice" using assms(5) by auto
  have view: "view (issue_48 ports which lba n cmd h) = issued cmd v"
    using assms(1) cmd by (simp add: issue_48_def Let_def register command v_def del: issued.simps)
  have v: "v_disk v = v_disk (view h)" "v_mode v = Idle" "v_slave v \<longleftrightarrow> which = Slave" "bit (snd (v_regs v DriveSelect)) 6"
    using assms(1) by (cases which; simp add: regs bit_simps bit_numeral_rec)+
  let ?y = "lba div 2 ^ 24"
  have "?y < 2 ^ 24" using assms(2) by (simp add: less_mult_imp_div_less)
  then have "?y = (?y div 2 ^ 16 mod 256) * 2 ^ 16 + (?y div 2 ^ 8 mod 256) * 2 ^ 8 + ?y mod 256"
    using bytes_of_lba [of ?y] by simp
  then have "lba_48 v = lba"
    using bytes_of_lba [of lba] by (simp add: lba_48_def regs unat_byte_of div_mult2_eq [symmetric])
  moreover have "count_48 v = n" using assms(3,4) by (simp add: count_48_def regs unat_byte_of)
  ultimately have "issued cmd v = started dir lba n (length (v_bytes v) div 512) v"
    using assms(5) by (auto simp: v_bytes_def)
  then show ?thesis using view v by auto
qed

lemma issue_ok:
  assumes "v_mode (view h) = Idle" "lba < 2 ^ 48" "0 < n" "n < 256" "(lba + n) * 512 \<le> length (v_disk (view h) (which = Slave))"
    and "lba \<le> MAX_LBA_28_VALUE \<longrightarrow> lba + n \<le> 2 ^ 28"
    and "(c28, c48, dir) \<in> {(ReadPio, ReadPioExt, Reading), (WritePio, WritePioExt, Writing)}"
  shows "\<exists>v. view (if lba \<le> MAX_LBA_28_VALUE then issue_28 ports which lba n c28 h else issue_48 ports which lba n c48 h)
      = v\<lparr>v_mode := dir lba n 0\<rparr> \<and> v_disk v = v_disk (view h) \<and> (v_slave v \<longleftrightarrow> which = Slave)"
proof -
  have fits: "lba + n \<le> length (v_disk (view h) (which = Slave)) div 512"
    using assms(5) by (simp add: less_eq_div_iff_mult_less_eq)
  show ?thesis
  proof (cases "lba \<le> MAX_LBA_28_VALUE")
    case True
    then have "lba < 2 ^ 28" by simp
    then obtain v where v: "view (issue_28 ports which lba n c28 h) = started dir lba n (min (length (v_bytes v) div 512) (2 ^ 28)) v"
      "v_disk v = v_disk (view h)" "v_slave v \<longleftrightarrow> which = Slave" "bit (snd (v_regs v DriveSelect)) 6"
      using issue_28_starts [of h lba n c28 dir which] assms(1,3,4,7) by auto
    then have "view (issue_28 ports which lba n c28 h) = v\<lparr>v_mode := dir lba n 0\<rparr>"
      using fits True assms(6) by (simp add: started_def v_bytes_def)
    then show ?thesis using True v by auto
  next
    case False
    obtain v where v: "view (issue_48 ports which lba n c48 h) = started dir lba n (length (v_bytes v) div 512) v"
      "v_disk v = v_disk (view h)" "v_slave v \<longleftrightarrow> which = Slave" "bit (snd (v_regs v DriveSelect)) 6"
      using issue_48_starts [of h lba n c48 dir which] assms(1-4,7) by auto
    then have "view (issue_48 ports which lba n c48 h) = v\<lparr>v_mode := dir lba n 0\<rparr>"
      using fits by (simp add: started_def v_bytes_def)
    then show ?thesis using False v by auto
  qed
qed

lemma bus_read_ok:
  assumes "v_mode (view h) = Idle" "lba < 2 ^ 48" "n < 256" "disk = v_disk (view h) (which = Slave)"
    and "(lba + n) * 512 \<le> length disk" "lba \<le> MAX_LBA_28_VALUE \<longrightarrow> lba + n \<le> 2 ^ 28" "length buffer = n * 512"
  shows "\<exists>h'. bus_read_pio ports buffer which lba n h = Some (Ok n, seg disk (lba * 512) ((lba + n) * 512), h')
    \<and> v_mode (view h') = Idle \<and> v_disk (view h') = v_disk (view h)"
proof (cases "n = 0")
  case True
  then show ?thesis using assms by (simp add: bus_read_pio_def)
next
  case False
  then obtain m where m: "n = Suc m" by (cases n) auto
  obtain h1 where h1: "wait_for_data_done ports h = Some (Ok (), h1)" "view h1 = view h"
    using wait_done [OF assms(1)] by auto
  let ?h = "if lba \<le> MAX_LBA_28_VALUE then issue_28 ports which lba n ReadPio h1 else issue_48 ports which lba n ReadPioExt h1"
  obtain v where v: "view ?h = v\<lparr>v_mode := Reading lba n 0\<rparr>" "v_disk v = v_disk (view h)" "v_slave v \<longleftrightarrow> which = Slave"
    using issue_ok [of h1 lba n which ReadPio ReadPioExt Reading] h1(2) assms False by auto
  have "v_bytes (view ?h) = disk" "v_mode (view ?h) = Reading lba (Suc m) 0"
    using v assms(4) m by (simp_all add: v_bytes_def)
  then obtain h2 where h2: "read_sectors ports n 0 buffer ?h = Some (Ok (), patch buffer 0 (seg disk (lba * 512) ((lba + n) * 512)), h2)"
    "view h2 = v\<lparr>v_mode := Idle\<rparr>"
    using read_sectors_ok [of ?h lba m disk 0 buffer] assms m v(1) by auto
  obtain h3 where h3: "wait_for_data_done ports h2 = Some (Ok (), h3)" "view h3 = view h2"
    using wait_done [of h2] h2(2) by auto
  have "patch buffer 0 (seg disk (lba * 512) ((lba + n) * 512)) = seg disk (lba * 512) ((lba + n) * 512)"
    using assms(5,7) by (intro patch_full) (simp add: add_mult_distrib)
  moreover have "uadd lba n - lba = n" using assms(2,3) by (subst uadd_eq) simp_all
  ultimately have "bus_read_pio ports buffer which lba n h = Some (Ok n, seg disk (lba * 512) ((lba + n) * 512), h3)"
    using False h1(1) h2(1) h3(1) by (simp add: bus_read_pio_def Let_def)
  then show ?thesis using h3(2) h2(2) v(2) by simp
qed

lemma bus_write_ok:
  assumes "v_mode (view h) = Idle" "lba < 2 ^ 48" "n < 256" "disk = v_disk (view h) (which = Slave)"
    and "(lba + n) * 512 \<le> length disk" "lba \<le> MAX_LBA_28_VALUE \<longrightarrow> lba + n \<le> 2 ^ 28" "length buffer = n * 512"
  shows "\<exists>h'. bus_write_pio ports buffer which lba n h = Some (Ok n, h') \<and> v_mode (view h') = Idle
    \<and> v_disk (view h') = (v_disk (view h))((which = Slave) := patch disk (lba * 512) buffer)"
proof (cases "n = 0")
  case True
  then show ?thesis using assms by (simp add: bus_write_pio_def)
next
  case False
  then obtain m where m: "n = Suc m" by (cases n) auto
  obtain h1 where h1: "wait_for_data_done ports h = Some (Ok (), h1)" "view h1 = view h"
    using wait_done [OF assms(1)] by auto
  let ?h = "if lba \<le> MAX_LBA_28_VALUE then issue_28 ports which lba n WritePio h1 else issue_48 ports which lba n WritePioExt h1"
  obtain v where v: "view ?h = v\<lparr>v_mode := Writing lba n 0\<rparr>" "v_disk v = v_disk (view h)" "v_slave v \<longleftrightarrow> which = Slave"
    using issue_ok [of h1 lba n which WritePio WritePioExt Writing] h1(2) assms False by auto
  have b: "v_bytes v = disk" using v assms(4) by (simp add: v_bytes_def)
  then obtain h2 where h2: "write_sectors ports n 0 buffer ?h = Some (Ok (), h2)"
    "view h2 = (disk_written (lba * 512) (seg buffer 0 (n * 512)) v)\<lparr>v_mode := Idle\<rparr>"
    using write_sectors_ok [of ?h lba m 0 buffer] assms m v(1) by auto
  obtain h3 where h3: "wait_for_data_done ports h2 = Some (Ok (), h3)" "view h3 = view h2"
    using wait_done [of h2] h2(2) by auto
  let ?flush = "if lba \<le> MAX_LBA_28_VALUE then CacheFlush else CacheFlushExt"
  let ?h4 = "write_command ports (command_code ?flush) h3"
  have h4: "view ?h4 = view h2" using command [of h3 ?flush] h3(2) h2(2) by auto
  then obtain h5 where h5: "wait_for_data_done ports ?h4 = Some (Ok (), h5)" "view h5 = view h2"
    using wait_done [of ?h4] h2(2) by auto
  have "uadd lba n - lba = n" using assms(2,3) by (subst uadd_eq) simp_all
  then have "bus_write_pio ports buffer which lba n h = Some (Ok n, h5)"
    using False h1(1) h2(1) h3(1) h5(1) by (simp add: bus_write_pio_def Let_def split del: if_split)
  moreover have "v_disk (view h5) = (v_disk (view h))((which = Slave) := patch disk (lba * 512) buffer)"
    using h5(2) h2(2) v(2,3) b assms(7) by (simp add: disk_written_def)
  ultimately show ?thesis using h5(2) h2(2) by auto
qed

lemma bus_read_crossing:
  assumes "v_mode (view h) = Idle" "lba \<le> MAX_LBA_28_VALUE" "2 ^ 28 < lba + n" "n < 256"
  shows "\<exists>h'. bus_read_pio ports buffer which lba n h = Some (Err ''error during data read'', buffer, h')"
proof -
  have "lba < 2 ^ 28" "0 < n" using assms(2,3) by auto
  then obtain m where m: "n = Suc m" by (cases n) auto
  obtain h1 where h1: "wait_for_data_done ports h = Some (Ok (), h1)" "view h1 = view h"
    using wait_done [OF assms(1)] by auto
  let ?h = "issue_28 ports which lba n ReadPio h1"
  have "v_mode (view ?h) = Failed"
    using issue_28_starts [of h1 lba n ReadPio Reading which] h1(2) assms \<open>lba < 2 ^ 28\<close> \<open>0 < n\<close> by (auto simp: started_def)
  then obtain h2 where h2: "wait_for_data_ready ports ?h = Some (Err (), h2)" using wait_failed by blast
  have "uadd lba n - lba = Suc m" using \<open>lba < 2 ^ 28\<close> assms(4) m by (subst uadd_eq) simp_all
  then have "bus_read_pio ports buffer which lba n h = Some (Err ''error during data read'', buffer, h2)"
    using h1(1) h2 assms(2) \<open>0 < n\<close> by (simp add: bus_read_pio_def Let_def)
  then show ?thesis by blast
qed

end

section \<open>The drive as a block device\<close>

definition drive_contents :: "('h \<Rightarrow> ata_view) \<Rightarrow> 'h ata_drive \<Rightarrow> u8 list" where
  "drive_contents view d = v_disk (view (bus d)) (master_slave d = Slave)"

text \<open>The drive is between two commands, and its identify data is true of it. Every sector is in the reach of
  28-bit addresses.\<close>

definition drive_ready :: "('h \<Rightarrow> ata_view) \<Rightarrow> nat \<Rightarrow> 'h ata_drive \<Rightarrow> bool" where
  "drive_ready view max_blocks d \<longleftrightarrow> v_mode (view (bus d)) = Idle
     \<and> max_blocks_per_transfer (identify_data d) = max_blocks
     \<and> length (drive_contents view d) = size_in_blocks d * 512 \<and> size_in_blocks d \<le> 2 ^ 28"

lemma check_request_ok:
  assumes "b + n \<le> size_in_blocks d" "n \<le> max_blocks_per_transfer (identify_data d)" "size_in_blocks d < 2 ^ 64"
  shows "check_request verb d (n * 512) b = Ok n"
proof -
  have "uadd b n = b + n" using assms by (intro uadd_eq) linarith
  moreover have "usub (b + n) b = n" using assms by (subst usub_eq) simp_all
  ultimately show ?thesis using assms by (simp add: check_request_def Let_def)
qed

locale ata_block = ata_hw +
  fixes max_blocks :: nat
  assumes max_blocks: "0 < max_blocks" "max_blocks < 256"
begin

lemma drive_read_ok:
  assumes "drive_ready view max_blocks d" "length buffer = n * 512" "n \<le> max_blocks" "(b + n) * 512 \<le> length (drive_contents view d)"
  shows "\<exists>d'. read_blocks (ata_api ports) d buffer b = Some (Ok n, seg (drive_contents view d) (b * 512) ((b + n) * 512), d')
    \<and> drive_ready view max_blocks d' \<and> drive_contents view d' = drive_contents view d"
proof -
  have d: "v_mode (view (bus d)) = Idle" "b + n \<le> size_in_blocks d" "size_in_blocks d \<le> 2 ^ 28" "b + n \<le> 2 ^ 28"
    using assms(1,4) by (simp_all add: drive_ready_def)
  obtain h where h: "bus_read_pio ports buffer (master_slave d) b n (bus d) =
      Some (Ok n, seg (drive_contents view d) (b * 512) ((b + n) * 512), h)"
    "v_mode (view h) = Idle" "v_disk (view h) = v_disk (view (bus d))"
    using bus_read_ok [OF d(1), of b n "drive_contents view d" "master_slave d" buffer] assms d max_blocks
    by (auto simp: drive_contents_def)
  have "check_request ''read'' d (length buffer) b = Ok n"
    unfolding assms(2) using assms(1,3) d by (intro check_request_ok) (simp_all add: drive_ready_def)
  then show ?thesis
    using h assms(1) by (simp add: ata_api_def drive_read_pio_def drive_ready_def drive_contents_def)
qed

lemma drive_write_ok:
  assumes "drive_ready view max_blocks d" "length buffer = n * 512" "n \<le> max_blocks" "(b + n) * 512 \<le> length (drive_contents view d)"
  shows "\<exists>d'. write_blocks (ata_api ports) d buffer b = Some (Ok n, d')
    \<and> drive_ready view max_blocks d' \<and> drive_contents view d' = patch (drive_contents view d) (b * 512) buffer"
proof -
  have d: "v_mode (view (bus d)) = Idle" "b + n \<le> size_in_blocks d" "size_in_blocks d \<le> 2 ^ 28" "b + n \<le> 2 ^ 28"
    using assms(1,4) by (simp_all add: drive_ready_def)
  obtain h where h: "bus_write_pio ports buffer (master_slave d) b n (bus d) = Some (Ok n, h)" "v_mode (view h) = Idle"
    "v_disk (view h) = (v_disk (view (bus d)))((master_slave d = Slave) := patch (drive_contents view d) (b * 512) buffer)"
    using bus_write_ok [OF d(1), of b n "drive_contents view d" "master_slave d" buffer] assms d max_blocks
    by (auto simp: drive_contents_def)
  have "check_request ''write'' d (length buffer) b = Ok n"
    unfolding assms(2) using assms(1,3) d by (intro check_request_ok) (simp_all add: drive_ready_def)
  moreover have "length (patch (drive_contents view d) (b * 512) buffer) = length (drive_contents view d)"
    using assms(2,4) by (intro length_patch) (simp add: add_mult_distrib)
  ultimately show ?thesis
    using h assms(1) by (simp add: ata_api_def drive_write_pio_def drive_ready_def drive_contents_def)
qed

end

sublocale ata_block \<subseteq> disk: block_device "ata_api ports" drive_len "drive_contents view" "drive_ready view max_blocks" 512 max_blocks
proof
  fix d
  assume d: "drive_ready view max_blocks d"
  then show "length (drive_contents view d) + 512 \<le> 2 ^ 64" "length (drive_contents view d) mod 512 = 0"
    by (simp_all add: drive_ready_def)
  have "512 * size_in_blocks d < 2 ^ 64" using d by (simp add: drive_ready_def)
  then show "drive_len d = length (drive_contents view d)" using d by (simp add: drive_len_def drive_ready_def umul_eq)
  show "block_size (ata_api ports) d = 512" by (simp add: ata_api_def)
qed (use max_blocks drive_read_ok drive_write_ok in simp_all)

context ata_block
begin

lemmas disk_stream_file = disk.bytes.rw_run_file

end

end
