(* ===== verification/StorageProperties.thy ===== *)
theory StorageProperties
  imports AtaDrive
begin

text \<open>
  Properties of the storage stack: the division of bytes into blocks, the ATA driver, and the stream on top
  of both. They hold for every hardware that keeps to the ATA standard (\<open>ata_hw\<close>); a simulated bus is an
  instance of it.
\<close>

section \<open>A simulated bus\<close>

text \<open>The state is the view of the standard and the number of polls for which the drive stays busy.\<close>

type_synonym sim = "ata_view \<times> nat"

definition sim_status :: "sim \<Rightarrow> u8" where
  "sim_status h = (case v_mode (fst h) of
     Failed \<Rightarrow> 0x41
   | Idle \<Rightarrow> if 0 < snd h then 0xC0 else 0x40
   | _ \<Rightarrow> if 0 < snd h then 0xC0 else 0x48)"

definition sim_word :: "ata_view \<Rightarrow> nat \<Rightarrow> u16" where
  "sim_word v k = push_bit 8 (ucast (v_bytes v ! (k + 1))) OR ucast (v_bytes v ! k)"

definition sim_ports :: "sim ata_ports" where
  "sim_ports =
     \<lparr>read_data = (\<lambda>(v, b). case v_mode v of
        Reading lba n i \<Rightarrow> (sim_word v (lba * 512 + 2 * i), v\<lparr>v_mode := word_done Reading lba n i\<rparr>, b)
      | _ \<Rightarrow> (0, v, b)),
      write_data = (\<lambda>w (v, b). case v_mode v of
        Writing lba n i \<Rightarrow> ((disk_written (lba * 512 + 2 * i) [ucast w, ucast (drop_bit 8 w)] v)
          \<lparr>v_mode := word_done Writing lba n i\<rparr>, b)
      | _ \<Rightarrow> (v, b)),
      write_reg = (\<lambda>r x (v, b). (reg_written r x v, b)),
      write_command = (\<lambda>c (v, b).
        (if c = 0x20 then issued ReadPio v else if c = 0x24 then issued ReadPioExt v
         else if c = 0x30 then issued WritePio v else if c = 0x34 then issued WritePioExt v else v, 2)),
      write_control = (\<lambda>_ h. h),
      read_status = (\<lambda>h. (sim_status h, fst h, snd h - 1)),
      read_alternate_status = (\<lambda>h. (sim_status h, h)),
      read_lba_mid = (\<lambda>h. (0, h)),
      read_lba_high = (\<lambda>h. (0, h))\<rparr>"

interpretation sim_bus: ata_hw sim_ports fst snd
proof
  fix h :: sim and w lba n i r x and cmd
  obtain v b where h: "h = (v, b)" by (cases h)
  show "fst (snd (read_alternate_status sim_ports h)) = fst h" "snd (snd (read_alternate_status sim_ports h)) \<le> snd h"
    "fst (snd (read_status sim_ports h)) = fst h"
    by (simp_all add: sim_ports_def)
  show "intersects (fst (read_status sim_ports h)) (ERROR OR DRIVE_WRITE_FAULT) \<longleftrightarrow> v_mode (fst h) = Failed"
    by (simp add: sim_ports_def sim_status_def intersects_def split: ata_mode.split)
  show "fst (write_reg sim_ports r x h) = reg_written r x (fst h)"
    by (simp add: sim_ports_def h)
  show "cmd \<noteq> IdentifyDevice \<Longrightarrow> fst (write_command sim_ports (command_code cmd) h) = issued cmd (fst h)"
    by (cases cmd) (simp_all add: sim_ports_def h)
  assume "intersects (fst (read_status sim_ports h)) BUSY"
  then show "snd (snd (read_status sim_ports h)) < snd h"
    by (auto simp: sim_ports_def sim_status_def intersects_def split: ata_mode.splits if_splits)
next
  fix h :: sim
  assume "\<not> intersects (fst (read_status sim_ports h)) BUSY" "v_mode (fst h) \<noteq> Failed"
  then show "intersects (fst (read_status sim_ports h)) DATA_REQUEST_READY \<longleftrightarrow> v_mode (fst h) \<noteq> Idle"
    by (auto simp: sim_ports_def sim_status_def intersects_def split: ata_mode.splits if_splits)
next
  fix h :: sim and lba n i
  assume "v_mode (fst h) = Reading lba n i"
  then show "let k = lba * 512 + 2 * i; disk = v_bytes (fst h); (w, h') = read_data sim_ports h in
      ucast w = disk ! k \<and> ucast (drop_bit 8 w) = disk ! (k + 1) \<and> fst h' = (fst h)\<lparr>v_mode := word_done Reading lba n i\<rparr>"
    by (cases h) (simp add: sim_ports_def sim_word_def word_bytes)
next
  fix h :: sim and lba n i w
  assume "v_mode (fst h) = Writing lba n i"
  then show "fst (write_data sim_ports w h) =
      (disk_written (lba * 512 + 2 * i) [ucast w, ucast (drop_bit 8 w)] (fst h))\<lparr>v_mode := word_done Writing lba n i\<rparr>"
    by (cases h) (simp add: sim_ports_def)
qed

interpretation sim_disk: ata_block sim_ports fst snd 16
  by unfold_locales simp_all

text \<open>A bus with two drives of four sectors each, the first one the master.\<close>

definition example_view :: ata_view where
  "example_view = \<lparr>v_regs = (\<lambda>_. (0, 0)), v_mode = Idle, v_disk = (\<lambda>_. replicate 2048 7)\<rparr>"

definition example_drive :: "sim ata_drive" where
  "example_drive = \<lparr>bus = (example_view, 0), identify_data =
     \<lparr>serial_number = [], firmware_version = [], model_number = [], max_blocks_per_transfer = 16, capabilities = 512,
      user_addressable_sectors = 4, max_48_bit_lba = 0\<rparr>, master_slave = Master\<rparr>"

lemma example_drive_simps [simp]:
  "drive_ready fst 16 example_drive" "size_in_blocks example_drive = 4" "drive_contents fst example_drive = replicate 2048 7"
  "max_blocks_per_transfer (identify_data example_drive) = 16" "v_mode (fst (bus example_drive)) = Idle"
  by (simp_all add: drive_ready_def drive_contents_def example_drive_def example_view_def size_in_blocks_def)

section \<open>Properties\<close>

text \<open>
  (C35) \<open>blocks_from_bytes\<close> returns at most three transfers. They follow each other and cover the range of
  bytes exactly. Each one names the same bytes in the stream and in its blocks, and is either a number of
  whole blocks or part of a single block.
\<close>
theorem blocks_from_bytes_exact:
  assumes "0 < bs" "e + bs \<le> 2 ^ 64" "a \<le> e"
  shows "\<exists>ts. blocks_from_bytes (a, e) bs = Some (map Some ts @ replicate (3 - length ts) None) \<and> length ts \<le> 3
    \<and> consecutive a ts e \<and> (\<forall>t\<in>set ts. transfer_ok bs t)"
  using blocks_from_bytes_covers [OF assms] by (metis covering_def)

theorem blocks_from_bytes_exact_witness:
  "\<exists>ts. blocks_from_bytes (1500, 3950) 512 = Some (map Some ts @ replicate (3 - length ts) None) \<and> consecutive 1500 ts 3950"
  using blocks_from_bytes_exact [of 512 3950 1500] by auto

text \<open>
  (C30) Port I/O moves exactly the sectors that were asked for. For a request inside the drive, with no more
  sectors than the drive takes at once, that does not cross the end of the 28-bit addresses, reading
  returns the bytes of these sectors and changes no drive, writing replaces them and leaves all other
  sectors, and the other drive of the bus, as they were. Both return, for every time the drive stays busy.
\<close>
theorem ata_pio_exact:
  assumes "ata_hw ports view busy_for" "v_mode (view (bus d)) = Idle" "length buffer = n * 512"
    and "n \<le> max_blocks_per_transfer (identify_data d)" "max_blocks_per_transfer (identify_data d) < 256"
    and "offset + n \<le> size_in_blocks d" "size_in_blocks d < 2 ^ 48" "length (drive_contents view d) = size_in_blocks d * 512"
    and "offset \<le> MAX_LBA_28_VALUE \<longrightarrow> offset + n \<le> 2 ^ 28"
  shows "(\<exists>d'. drive_read_pio ports d buffer offset =
        Some (Ok n, seg (drive_contents view d) (offset * 512) ((offset + n) * 512), d')
      \<and> v_mode (view (bus d')) = Idle \<and> v_disk (view (bus d')) = v_disk (view (bus d)))
    \<and> (\<exists>d'. drive_write_pio ports d buffer offset = Some (Ok n, d') \<and> v_mode (view (bus d')) = Idle
      \<and> v_disk (view (bus d')) = (v_disk (view (bus d)))((master_slave d = Slave) :=
          patch (drive_contents view d) (offset * 512) buffer))"
proof -
  have pre: "offset < 2 ^ 48" "n < 256" "(offset + n) * 512 \<le> length (drive_contents view d)"
    using assms(4-8) by (auto simp: drive_contents_def)
  have check: "check_request verb d (length buffer) offset = Ok n" for verb
    unfolding assms(3) using assms(4,6,7) by (intro check_request_ok) simp_all
  show ?thesis
    using ata_hw.bus_read_ok [OF assms(1,2) pre(1,2) drive_contents_def pre(3) assms(9,3)]
      ata_hw.bus_write_ok [OF assms(1,2) pre(1,2) drive_contents_def pre(3) assms(9,3)]
    by (auto simp: drive_read_pio_def drive_write_pio_def check)
qed

theorem ata_pio_exact_witness:
  "\<exists>d'. drive_write_pio sim_ports example_drive (replicate 1024 9) 1 = Some (Ok 2, d')
    \<and> v_disk (fst (bus d')) True = replicate 2048 7"
proof -
  obtain d' where d': "drive_write_pio sim_ports example_drive (replicate 1024 9) 1 = Some (Ok 2, d')"
    "v_disk (fst (bus d')) = (v_disk (fst (bus example_drive)))((master_slave example_drive = Slave) :=
      patch (drive_contents fst example_drive) (1 * 512) (replicate 1024 9))"
    using ata_pio_exact [OF sim_bus.ata_hw_axioms, of example_drive "replicate 1024 9" 2 1] by auto
  have "v_disk (fst (bus d')) True = replicate 2048 7"
    unfolding d'(2) by (simp add: example_drive_def example_view_def)
  with d'(1) show ?thesis by blast
qed



text \<open>
  (C36) The result of a transfer of whole blocks is thrown away. A read of more whole sectors than the drive
  takes at once returns \<open>Ok\<close> with the number of bytes asked for, but nothing was read: the buffer is as it
  was. A write of such a buffer returns \<open>Ok\<close> as well, and the drive is as it was.
\<close>
theorem whole_blocks_errors_ignored:
  assumes "drive_ready view max_blocks d" "max_blocks < n" "(b + n) * 512 \<le> length (drive_contents view d)"
    and "length buffer = n * 512"
  shows "read_at (ata_api ports) d buffer (b * 512) = Some (Ok (n * 512), buffer, d)
    \<and> write_at (ata_api ports) d buffer (b * 512) = Some (Ok (n * 512), d)"
proof -
  have sz: "(b + n) * 512 \<le> 2 ^ 28 * 512" "b + n \<le> size_in_blocks d" "size_in_blocks d \<le> 2 ^ 28"
    "max_blocks_per_transfer (identify_data d) < n"
    using assms(1-3) by (simp_all add: drive_ready_def)
  let ?t = "\<lparr>byte_range_absolute = (b * 512, (b + n) * 512), block_range = (b, b + n), bytes_in_block_range = (0, n * 512)\<rparr>"
  have arith: "uadd (b * 512) (n * 512) = (b + n) * 512" "usub (b + n) b = n" "umul n 512 = n * 512"
    "usub ((b + n) * 512) (b * 512) = n * 512" "usub (b * 512) (b * 512) = 0" "uadd b n = b + n"
    using sz by (simp_all add: uadd_def usub_eq umul_eq)
  have blocks: "blocks_from_bytes (b * 512, (b + n) * 512) 512 = Some [Some ?t, None, None]"
    using assms(2) arith by (simp add: blocks_from_bytes_def blocks_loop.simps numeral_3_eq_3)
  have check: "\<exists>e. check_request verb d (length buffer) b = Err e" for verb
    using sz arith assms(4) by (simp add: check_request_def)
  obtain e1 e2 where "check_request ''read'' d (length buffer) b = Err e1" "check_request ''write'' d (length buffer) b = Err e2"
    using check [of "''read''"] check [of "''write''"] by blast
  then have dev: "read_blocks (ata_api ports) d buffer b = Some (Err InvalidInput, buffer, d)"
    "write_blocks (ata_api ports) d buffer b = Some (Err InvalidInput, d)"
    by (simp_all add: ata_api_def drive_read_pio_def drive_write_pio_def)
  have slices: "get_slice buffer (0, n * 512) = Some buffer" "put_slice buffer (0, n * 512) buffer = Some buffer"
    using assms(4) by (simp_all add: get_slice_def put_slice_def)
  have whole: "whole_blocks 512 ?t" "block_size (ata_api ports) d = 512"
    by (simp_all add: whole_blocks_def ata_api_def)
  have "read_transfers (ata_api ports) (b * 512) [?t] [] buffer d = Some (Ok (), buffer, d)"
    using arith slices dev by (subst read_transfers_whole [OF whole(2) _ whole(1), of buffer _ buffer]) simp_all
  moreover have "write_transfers (ata_api ports) (b * 512) [?t] [] buffer d = Some (Ok (), d)"
    using arith slices dev by (subst write_transfers_whole [OF whole(2) _ whole(1), of buffer _ buffer]) simp_all
  ultimately show ?thesis
    using blocks arith(1) whole(2) assms(4) by (simp add: read_at_def write_at_def map_filter_simps)
qed

theorem whole_blocks_errors_ignored_witness:
  "read_at (ata_api sim_ports) (example_drive\<lparr>identify_data := (identify_data example_drive)\<lparr>max_blocks_per_transfer := 2\<rparr>\<rparr>)
     (replicate 2048 0) 0
   = Some (Ok 2048, replicate 2048 0, example_drive\<lparr>identify_data := (identify_data example_drive)\<lparr>max_blocks_per_transfer := 2\<rparr>\<rparr>)"
proof -
  let ?d = "example_drive\<lparr>identify_data := (identify_data example_drive)\<lparr>max_blocks_per_transfer := 2\<rparr>\<rparr>"
  have "drive_ready fst 2 ?d" "drive_contents fst ?d = replicate 2048 7"
    by (simp_all add: drive_ready_def drive_contents_def example_drive_def example_view_def size_in_blocks_def)
  from whole_blocks_errors_ignored [OF this(1), of 4 0 "replicate 2048 0" sim_ports] this(2) show ?thesis by simp
qed

text \<open>
  The command is chosen by the first sector only. A read that starts below sector \<open>2 ^ 28\<close> and ends above
  it is issued as a 28-bit command, which the drive rejects, although all its sectors exist.
\<close>
lemma crossing_read_fails:
  assumes "ata_hw ports view busy_for" "v_mode (view (bus d)) = Idle" "length buffer = n * 512"
    and "n \<le> max_blocks_per_transfer (identify_data d)" "max_blocks_per_transfer (identify_data d) < 256"
    and "offset + n \<le> size_in_blocks d" "size_in_blocks d < 2 ^ 48" "offset < 2 ^ 28" "2 ^ 28 < offset + n"
  shows "\<exists>d'. drive_read_pio ports d buffer offset = Some (Err ''error during data read'', buffer, d')"
proof -
  have "check_request ''read'' d (length buffer) offset = Ok n"
    unfolding assms(3) using assms(4,6,7) by (intro check_request_ok) simp_all
  then show ?thesis
    using ata_hw.bus_read_crossing [OF assms(1,2), of offset n buffer "master_slave d"] assms(4,5,8,9)
    by (auto simp: drive_read_pio_def)
qed

end
