(* ===== verification/BlockCache.thy ===== *)
theory BlockCache
  imports StorageProperties "HOL-Library.AList"
begin

text \<open>
  The cache of blocks \<^verbatim>\<open>src/kernel/block_cache/src/lib.rs\<close>. The hash map is an association list, in the order
  in which the map iterates. The cache relies on a device only through the contract \<open>block_device\<close>.
\<close>

section \<open>The cache\<close>

datatype cache_state = Modified | Shared | Invalid

record cached_block =
  block_bytes :: "u8 list"
  cache_state :: cache_state

record 'd block_cache =
  cache :: "(nat \<times> cached_block) list"
  storage_device :: 'd

definition cache_new :: "'d \<Rightarrow> 'd block_cache" where
  "cache_new dev = \<lparr>cache = [], storage_device = dev\<rparr>"

fun io_error_str :: "io_error \<Rightarrow> string" where
  "io_error_str InvalidInput = ''invalid input''"
| "io_error_str TimedOut = ''timed out''"
| "io_error_str (OtherError s) = s"

definition flush_block :: "'d block_api \<Rightarrow> 'd \<Rightarrow> nat \<Rightarrow> cached_block
    \<Rightarrow> ((unit, string) result \<times> cached_block \<times> 'd) panics" where
  "flush_block api dev block_num cb =
     (case cache_state cb of
        Modified \<Rightarrow> do {
          (r, dev) \<leftarrow> write_blocks api dev (block_bytes cb) block_num;
          (case r of
             Inl e \<Rightarrow> Some (Err (io_error_str e), cb, dev)
           | Inr _ \<Rightarrow> Some (Ok (), cb\<lparr>cache_state := Shared\<rparr>, dev))
        }
      | _ \<Rightarrow> Some (Ok (), cb, dev))"

fun flush_all :: "'d block_api \<Rightarrow> 'd \<Rightarrow> (nat \<times> cached_block) list
    \<Rightarrow> ((unit, string) result \<times> (nat \<times> cached_block) list \<times> 'd) panics" where
  "flush_all api dev [] = Some (Ok (), [], dev)"
| "flush_all api dev ((bn, cb) # rest) = do {
     (r, cb, dev) \<leftarrow> flush_block api dev bn cb;
     (case r of
        Inl e \<Rightarrow> Some (Err e, (bn, cb) # rest, dev)
      | Inr _ \<Rightarrow> do {
          (r, rest, dev) \<leftarrow> flush_all api dev rest;
          Some (r, (bn, cb) # rest, dev)
        })
   }"

definition cache_flush :: "'d block_api \<Rightarrow> 'd block_cache \<Rightarrow> nat option \<Rightarrow> ((unit, string) result \<times> 'd block_cache) panics" where
  "cache_flush api c block_num =
     (case block_num of
        Some bn \<Rightarrow>
          (case map_of (cache c) bn of
             Some cb \<Rightarrow> do {
               (r, cb, dev) \<leftarrow> flush_block api (storage_device c) bn cb;
               Some (r, c\<lparr>cache := AList.update bn cb (cache c), storage_device := dev\<rparr>)
             }
           | None \<Rightarrow> Some (Ok (), c))
      | None \<Rightarrow> do {
          (r, entries, dev) \<leftarrow> flush_all api (storage_device c) (cache c);
          Some (r, c\<lparr>cache := entries, storage_device := dev\<rparr>)
        })"

definition read_block :: "'d block_api \<Rightarrow> 'd block_cache \<Rightarrow> nat \<Rightarrow> ((u8 list, string) result \<times> 'd block_cache) panics" where
  "read_block api c block =
     (case map_of (cache c) block of
        Some cb \<Rightarrow>
          (case cache_state cb of
             Invalid \<Rightarrow> do {
               (r, bytes, dev) \<leftarrow> read_blocks api (storage_device c) (block_bytes cb) block;
               (case r of
                  Inl e \<Rightarrow> Some (Err (io_error_str e),
                    c\<lparr>cache := AList.update block (cb\<lparr>block_bytes := bytes\<rparr>) (cache c), storage_device := dev\<rparr>)
                | Inr _ \<Rightarrow> Some (Ok bytes,
                    c\<lparr>cache := AList.update block \<lparr>block_bytes = bytes, cache_state = Shared\<rparr> (cache c),
                      storage_device := dev\<rparr>))
             }
           | _ \<Rightarrow> Some (Ok (block_bytes cb), c))
      | None \<Rightarrow> do {
          let v = replicate (block_size api (storage_device c)) 0;
          (r, v, dev) \<leftarrow> read_blocks api (storage_device c) v block;
          (case r of
             Inl e \<Rightarrow> Some (Err (io_error_str e), c\<lparr>storage_device := dev\<rparr>)
           | Inr _ \<Rightarrow> Some (Ok v,
               c\<lparr>cache := AList.update block \<lparr>block_bytes = v, cache_state = Shared\<rparr> (cache c), storage_device := dev\<rparr>))
        })"

definition write_block :: "'d block_api \<Rightarrow> 'd block_cache \<Rightarrow> nat \<Rightarrow> u8 list \<Rightarrow> ((unit, string) result \<times> 'd block_cache) panics" where
  "write_block api c block_num buffer_to_write = do {
     (r, cb, dev) \<leftarrow> flush_block api (storage_device c) block_num \<lparr>block_bytes = buffer_to_write, cache_state = Modified\<rparr>;
     (case r of
        Inl e \<Rightarrow> Some (Err e, c\<lparr>storage_device := dev\<rparr>)
      | Inr _ \<Rightarrow> Some (Ok (), c\<lparr>cache := AList.update block_num cb (cache c), storage_device := dev\<rparr>))
   }"

section \<open>Coherence\<close>

text \<open>Every cached block is \<open>Shared\<close> and holds the bytes of the device.\<close>

definition coherent :: "nat \<Rightarrow> u8 list \<Rightarrow> 'd block_cache \<Rightarrow> bool" where
  "coherent bs xs c \<longleftrightarrow> distinct (map fst (cache c)) \<and> (\<forall>bn cb. map_of (cache c) bn = Some cb \<longrightarrow>
     cache_state cb = Shared \<and> (bn + 1) * bs \<le> length xs \<and> block_bytes cb = seg xs (bn * bs) ((bn + 1) * bs))"

datatype cache_op = ReadBlock nat | WriteBlock nat "u8 list" | Flush "nat option"

datatype cache_out = BlockBytes "u8 list" | Done | CacheError string

definition cache_step :: "'d block_api \<Rightarrow> 'd block_cache \<Rightarrow> cache_op \<Rightarrow> (cache_out \<times> 'd block_cache) panics" where
  "cache_step api c op =
     (case op of
        ReadBlock b \<Rightarrow> map_option (\<lambda>(r, c). (case r of Inr bytes \<Rightarrow> BlockBytes bytes | Inl e \<Rightarrow> CacheError e, c)) (read_block api c b)
      | WriteBlock b buf \<Rightarrow> map_option (\<lambda>(r, c). (case r of Inr _ \<Rightarrow> Done | Inl e \<Rightarrow> CacheError e, c)) (write_block api c b buf)
      | Flush b \<Rightarrow> map_option (\<lambda>(r, c). (case r of Inr _ \<Rightarrow> Done | Inl e \<Rightarrow> CacheError e, c)) (cache_flush api c b))"

text \<open>The array of blocks without a cache.\<close>

fun blocks_step :: "nat \<Rightarrow> u8 list \<Rightarrow> cache_op \<Rightarrow> (cache_out \<times> u8 list) option" where
  "blocks_step bs xs (ReadBlock b) =
     (if (b + 1) * bs \<le> length xs then Some (BlockBytes (seg xs (b * bs) ((b + 1) * bs)), xs) else None)"
| "blocks_step bs xs (WriteBlock b buf) =
     (if (b + 1) * bs \<le> length xs \<and> length buf = bs then Some (Done, patch xs (b * bs) buf) else None)"
| "blocks_step bs xs (Flush b) = Some (Done, xs)"

lemma flush_all_shared:
  "\<forall>(bn, cb) \<in> set entries. cache_state cb = Shared \<Longrightarrow> flush_all api dev entries = Some (Ok (), entries, dev)"
  by (induction entries) (auto simp: flush_block_def)

lemma update_same: "map_of xs k = Some v \<Longrightarrow> AList.update k v xs = xs"
  by (induction xs) (auto split: if_splits)

lemma coherent_update:
  assumes "coherent bs xs c" "bytes = seg ys (b * bs) ((b + 1) * bs)" "(b + 1) * bs \<le> length ys" "length ys = length xs"
    and "\<And>bn. bn \<noteq> b \<Longrightarrow> (bn + 1) * bs \<le> length xs \<Longrightarrow> seg ys (bn * bs) ((bn + 1) * bs) = seg xs (bn * bs) ((bn + 1) * bs)"
  shows "coherent bs ys (c\<lparr>cache := AList.update b \<lparr>block_bytes = bytes, cache_state = Shared\<rparr> (cache c), storage_device := dev\<rparr>)"
  using assms by (auto simp: coherent_def update_conv' distinct_update)

lemma coherent_dev: "coherent bs xs (c\<lparr>storage_device := dev\<rparr>) = coherent bs xs c"
  by (simp add: coherent_def)

lemma coherent_flush_all: "coherent bs xs c \<Longrightarrow> flush_all api dev (cache c) = Some (Ok (), cache c, dev)"
  by (rule flush_all_shared) (auto simp: coherent_def map_of_eq_Some_iff)

text \<open>Different blocks do not overlap.\<close>

lemma blocks_apart: "a \<noteq> b \<Longrightarrow> (a + 1) * bs \<le> b * bs \<or> (b + 1) * bs \<le> a * bs" for a b bs :: nat
proof -
  assume "a \<noteq> b"
  then consider "a + 1 \<le> b" | "b + 1 \<le> a" by linarith
  then show ?thesis by cases (simp_all only: mult_le_mono1 simp_thms)
qed

context block_device
begin

lemma cache_read_ok:
  assumes "ready (storage_device c)" "coherent bs (contents (storage_device c)) c"
    and "(b + 1) * bs \<le> length (contents (storage_device c))"
  shows "\<exists>c'. read_block api c b = Some (Ok (seg (contents (storage_device c)) (b * bs) ((b + 1) * bs)), c')
    \<and> ready (storage_device c') \<and> contents (storage_device c') = contents (storage_device c)
    \<and> coherent bs (contents (storage_device c)) c'"
proof (cases "map_of (cache c) b")
  case None
  obtain d' where d': "read_blocks api (storage_device c) (replicate bs 0) b =
      Some (Ok 1, seg (contents (storage_device c)) (b * bs) ((b + 1) * bs), d')"
    "ready d'" "contents d' = contents (storage_device c)"
    using reads [OF assms(1), of "replicate bs 0" 1 b] max_pos assms(3) by auto
  then show ?thesis
    using None size [OF assms(1)] coherent_update [OF assms(2) refl assms(3)] by (simp add: read_block_def)
next
  case (Some cb)
  then show ?thesis using assms by (auto simp: read_block_def coherent_def)
qed

lemma cache_write_ok:
  assumes "ready (storage_device c)" "coherent bs (contents (storage_device c)) c"
    and "(b + 1) * bs \<le> length (contents (storage_device c))" "length buf = bs"
  shows "\<exists>c'. write_block api c b buf = Some (Ok (), c') \<and> ready (storage_device c')
    \<and> contents (storage_device c') = patch (contents (storage_device c)) (b * bs) buf
    \<and> coherent bs (patch (contents (storage_device c)) (b * bs) buf) c'"
proof -
  let ?xs = "contents (storage_device c)"
  obtain d' where d': "write_blocks api (storage_device c) buf b = Some (Ok 1, d')" "ready d'" "contents d' = patch ?xs (b * bs) buf"
    using writes [OF assms(1), of buf 1 b] max_pos assms(3,4) by auto
  have len: "b * bs + length buf \<le> length ?xs" using assms(3,4) by (simp add: add_mult_distrib)
  have "seg (patch ?xs (b * bs) buf) (bn * bs) ((bn + 1) * bs) = seg ?xs (bn * bs) ((bn + 1) * bs)"
    if "bn \<noteq> b" "(bn + 1) * bs \<le> length ?xs" for bn
    using seg_patch [OF len, of "(bn + 1) * bs" "bn * bs"] blocks_apart [OF that(1), of bs] that(2) assms(4)
    by (simp add: add_mult_distrib add.commute)
  moreover have "buf = seg (patch ?xs (b * bs) buf) (b * bs) ((b + 1) * bs)"
    using seg_patch_same [OF len, of "(b + 1) * bs"] assms(4) by (simp add: add_mult_distrib)
  ultimately have "coherent bs (patch ?xs (b * bs) buf)
      (c\<lparr>cache := AList.update b \<lparr>block_bytes = buf, cache_state = Shared\<rparr> (cache c), storage_device := d'\<rparr>)"
    using assms(3) len by (intro coherent_update [OF assms(2)]) simp_all
  then show ?thesis using d' by (simp add: write_block_def flush_block_def)
qed

lemma cache_step_ok:
  assumes "ready (storage_device c)" "coherent bs (contents (storage_device c)) c"
    and "blocks_step bs (contents (storage_device c)) op = Some (out, xs)"
  shows "\<exists>c'. cache_step api c op = Some (out, c') \<and> ready (storage_device c') \<and> contents (storage_device c') = xs
    \<and> coherent bs xs c'"
proof (cases op)
  case (ReadBlock b)
  then show ?thesis using cache_read_ok [OF assms(1,2), of b] assms(3) by (auto simp: cache_step_def split: if_splits)
next
  case (WriteBlock b buf)
  then show ?thesis using cache_write_ok [OF assms(1,2), of b buf] assms(3) by (auto simp: cache_step_def split: if_splits)
next
  case (Flush bn)
  have "\<exists>c'. cache_flush api c bn = Some (Ok (), c') \<and> storage_device c' = storage_device c \<and> coherent bs (contents (storage_device c)) c'"
  proof (cases bn)
    case None
    then show ?thesis using coherent_flush_all [OF assms(2), of api "storage_device c"] assms(2) by (simp add: cache_flush_def)
  next
    case (Some b)
    show ?thesis
    proof (cases "map_of (cache c) b")
      case (Some cb)
      then have "cache_state cb = Shared" "AList.update b cb (cache c) = cache c"
        using assms(2) by (auto simp: coherent_def update_same)
      then show ?thesis using \<open>bn = Some b\<close> Some assms(2) by (simp add: cache_flush_def flush_block_def)
    qed (use \<open>bn = Some b\<close> assms(2) in \<open>simp add: cache_flush_def\<close>)
  qed
  then show ?thesis using Flush assms(1,3) by (auto simp: cache_step_def)
qed

lemma cache_run_ok:
  assumes "ready (storage_device c)" "coherent bs (contents (storage_device c)) c"
    and "rw_run (blocks_step bs) (contents (storage_device c)) ops = Some (outs, xs)"
  shows "\<exists>c'. rw_run (cache_step api) c ops = Some (outs, c') \<and> contents (storage_device c') = xs \<and> coherent bs xs c'"
  using assms
proof (induction ops arbitrary: c outs)
  case (Cons op ops)
  obtain out ys outs' where "blocks_step bs (contents (storage_device c)) op = Some (out, ys)"
    "rw_run (blocks_step bs) ys ops = Some (outs', xs)" "outs = out # outs'"
    using Cons.prems(3) by (auto simp: bind_eq_Some_conv split: prod.splits)
  moreover then obtain c' where "cache_step api c op = Some (out, c')" "ready (storage_device c')"
    "contents (storage_device c') = ys" "coherent bs ys c'"
    using cache_step_ok [OF Cons.prems(1,2)] by blast
  ultimately show ?case using Cons.IH [of c' outs'] by auto
qed simp

end

text \<open>The cache on an ATA drive.\<close>

context ata_block
begin

lemmas disk_cache_run = disk.cache_run_ok

end

section \<open>Properties\<close>

text \<open>
  (C31) The cache is invisible. Take a drive between two commands and any sequence of reads and writes of
  blocks inside it, in whole blocks, and of flushes. The cache returns the bytes that an array of blocks
  returns, every write is on the drive when it returns, and every cached block equals the block on the
  drive.
\<close>
theorem block_cache_transparent:
  assumes "ata_hw ports view busy_for" "0 < max_blocks" "max_blocks < 256" "drive_ready view max_blocks d"
    and "rw_run (blocks_step 512) (drive_contents view d) ops = Some (outs, xs)"
  shows "\<exists>c. rw_run (cache_step (ata_api ports)) (cache_new d) ops = Some (outs, c)
    \<and> drive_contents view (storage_device c) = xs \<and> coherent 512 xs c"
proof -
  have "ata_block ports view busy_for max_blocks"
    using assms(1-3) by (simp add: ata_block_def ata_block_axioms_def)
  from ata_block.disk_cache_run [OF this, of "cache_new d" ops outs xs] assms(4,5) show ?thesis
    by (simp add: cache_new_def coherent_def)
qed

theorem block_cache_transparent_witness:
  "\<exists>c. rw_run (cache_step (ata_api sim_ports)) (cache_new example_drive)
      [ReadBlock 2, WriteBlock 2 (replicate 512 1), Flush None, ReadBlock 2]
    = Some ([BlockBytes (replicate 512 7), Done, Done, BlockBytes (replicate 512 1)], c)"
proof -
  have s: "seg (replicate 2048 7) 1024 1536 = replicate 512 7" by (simp add: seg_def)
  have p: "seg (patch (replicate 2048 7) 1024 (replicate 512 1)) 1024 1536 = replicate 512 1"
    by (intro seg_patch_same) simp_all
  have "rw_run (blocks_step 512) (drive_contents fst example_drive)
      [ReadBlock 2, WriteBlock 2 (replicate 512 1), Flush None, ReadBlock 2]
    = Some ([BlockBytes (replicate 512 7), Done, Done, BlockBytes (replicate 512 1)],
        patch (replicate 2048 7) 1024 (replicate 512 1))"
    using s p by simp
  then show ?thesis
    using block_cache_transparent [OF sim_bus.ata_hw_axioms _ _ example_drive_simps(1)] by fastforce
qed

end
