(* ===== verification/MemFiles.thy ===== *)
theory MemFiles
  imports ByteStream
begin

text \<open>
  Files in memory: \<^verbatim>\<open>src/kernel/memfs/src/lib.rs\<close> (backed by mapped pages) and \<^verbatim>\<open>src/kernel/heapfile/src/lib.rs\<close>
  (backed by a vector). A mapping is the bytes it covers and whether they may be written; the mapping that
  a growing file obtains from the page allocator and the page tables is an argument of the write.
\<close>

section \<open>Files backed by mapped pages\<close>

record mapping =
  mp_bytes :: "u8 list"
  mp_writable :: bool

record mem_file =
  mf_len :: nat
  mf_mp :: mapping

definition mem_file_create :: mem_file where
  "mem_file_create = \<lparr>mf_len = 0, mf_mp = \<lparr>mp_bytes = [], mp_writable = False\<rparr>\<rparr>"

definition from_mapped_pages :: "mapping \<Rightarrow> nat \<Rightarrow> mem_file" where
  "from_mapped_pages mapped_pages len = \<lparr>mf_len = len, mf_mp = mapped_pages\<rparr>"

text \<open>The bytes behind \<open>MappedPages::as_slice\<close> and \<open>as_slice_mut\<close>: the checks of the bounds and of the permission. The
  checks of the addresses are in the theory of mapped pages.\<close>

definition mp_as_slice :: "mapping \<Rightarrow> nat \<Rightarrow> nat \<Rightarrow> (u8 list, io_error) result" where
  "mp_as_slice mp byte_offset n =
     (if byte_offset + n \<le> length (mp_bytes mp) then Ok (seg (mp_bytes mp) byte_offset (byte_offset + n))
      else Err (OtherError 
        ''MappedPages::as_slice(): requested slice length and byte_offset would not fit within the MappedPages bounds''))"

definition mp_write_slice :: "mapping \<Rightarrow> nat \<Rightarrow> u8 list \<Rightarrow> (mapping, io_error) result" where
  "mp_write_slice mp byte_offset bytes =
     (if \<not> mp_writable mp then Err (OtherError ''MappedPages::as_slice_mut(): MappedPages were not writable'')
      else if byte_offset + length bytes \<le> length (mp_bytes mp)
      then Ok (mp\<lparr>mp_bytes := patch (mp_bytes mp) byte_offset bytes\<rparr>)
      else Err (OtherError 
        ''MappedPages::as_slice_mut(): requested slice length and byte_offset would not fit within the MappedPages bounds''))"

definition mem_read_at :: "mem_file \<Rightarrow> u8 list \<Rightarrow> nat \<Rightarrow> ((nat, io_error) result \<times> u8 list \<times> mem_file) panics" where
  "mem_read_at f buffer offset =
     (if mf_len f \<le> offset then Some (Err InvalidInput, buffer, f)
      else
        (let read_bytes = min (mf_len f - offset) (length buffer) in
         case mp_as_slice (mf_mp f) offset read_bytes of
           Inl e \<Rightarrow> Some (Err e, buffer, f)
         | Inr bytes \<Rightarrow> do {
             buffer \<leftarrow> put_slice buffer (0, read_bytes) bytes;
             Some (Ok read_bytes, buffer, f)
           }))"

text \<open>\<open>new_mapping\<close> is what allocating and mapping pages for \<open>n\<close> bytes, with the given permission, returns.\<close>

definition mem_write_at :: "(nat \<Rightarrow> bool \<Rightarrow> (mapping, io_error) result) \<Rightarrow> mem_file \<Rightarrow> u8 list \<Rightarrow> nat
    \<Rightarrow> ((nat, io_error) result \<times> mem_file) panics" where
  "mem_write_at new_mapping f buffer offset =
     (if \<not> mp_writable (mf_mp f) \<and> length (mp_bytes (mf_mp f)) \<noteq> 0
      then Some (Err (OtherError ''MemFile::write(): existing MappedPages were not writable''), f)
      else
        (let new_end = uadd (length buffer) offset in
         if new_end \<le> length (mp_bytes (mf_mp f)) then
           (case mp_write_slice (mf_mp f) offset buffer of
              Inl e \<Rightarrow> Some (Err e, f)
            | Inr mp \<Rightarrow> Some (Ok (length buffer), f\<lparr>mf_mp := mp, mf_len := if mf_len f < new_end then new_end else mf_len f\<rparr>))
         else
           (let prev_writable = (if length (mp_bytes (mf_mp f)) = 0 then True else mp_writable (mf_mp f)) in
            case new_mapping new_end prev_writable of
              Inl e \<Rightarrow> Some (Err e, f)
            | Inr new_mp \<Rightarrow>
                (let copy_limit = (if mf_len f < offset then mf_len f else offset) in
                 case mp_as_slice (mf_mp f) 0 copy_limit of
                   Inl e \<Rightarrow> Some (Err e, f)
                 | Inr existing_bytes \<Rightarrow>
                     (case mp_write_slice new_mp 0 existing_bytes of
                        Inl e \<Rightarrow> Some (Err e, f)
                      | Inr new_mp \<Rightarrow>
                          (case mp_write_slice new_mp offset buffer of
                             Inl e \<Rightarrow> Some (Err e, f)
                           | Inr new_mp \<Rightarrow> Some (Ok (length buffer), f\<lparr>mf_mp := new_mp, mf_len := new_end\<rparr>)))))))"

definition mem_contents :: "mem_file \<Rightarrow> u8 list" where
  "mem_contents f = take (mf_len f) (mp_bytes (mf_mp f))"

definition mem_ok :: "mem_file \<Rightarrow> bool" where
  "mem_ok f \<longleftrightarrow> mf_len f \<le> length (mp_bytes (mf_mp f)) \<and> length (mp_bytes (mf_mp f)) < 2 ^ 64
     \<and> (mp_bytes (mf_mp f) \<noteq> [] \<longrightarrow> mp_writable (mf_mp f))"

text \<open>What the file relies on when it grows: for any number of bytes, memory to map them is found, and the
  mapping is writable when asked for.\<close>

definition maps_enough :: "(nat \<Rightarrow> bool \<Rightarrow> (mapping, io_error) result) \<Rightarrow> bool" where
  "maps_enough new_mapping \<longleftrightarrow> (\<forall>n < 2 ^ 64. \<exists>mp. new_mapping n True = Ok mp \<and> mp_writable mp
     \<and> n \<le> length (mp_bytes mp) \<and> length (mp_bytes mp) < 2 ^ 64)"

section \<open>Files backed by a vector\<close>

text \<open>The slices of \<open>read_at\<close> and \<open>write_at\<close> as they are written: the first ends at \<open>read_bytes\<close>, the second at the end
  of the vector; \<open>copy_from_slice\<close> panics when the lengths differ.\<close>

definition heap_read_at :: "u8 list \<Rightarrow> u8 list \<Rightarrow> nat \<Rightarrow> ((nat, io_error) result \<times> u8 list) panics" where
  "heap_read_at vec buffer offset =
     (if length vec \<le> offset then Some (Err InvalidInput, buffer)
      else
        (let read_bytes = min (length vec - offset) (length buffer) in do {
           bytes \<leftarrow> get_slice vec (offset, read_bytes);
           buffer \<leftarrow> put_slice buffer (0, read_bytes) bytes;
           Some (Ok read_bytes, buffer)
         }))"

definition heap_write_at :: "u8 list \<Rightarrow> u8 list \<Rightarrow> nat \<Rightarrow> ((nat, io_error) result \<times> u8 list) panics" where
  "heap_write_at vec buffer offset =
     (let final_len = uadd offset (length buffer);
          vec = (if length vec < final_len then vec @ replicate (final_len - length vec) 0 else vec) in
      do {
        vec \<leftarrow> put_slice vec (offset, length vec) buffer;
        Some (Ok (length buffer), vec)
      })"

section \<open>Lemmas\<close>

lemma mem_read_ok:
  assumes "mem_ok f" "buffer \<noteq> []" "offset + length buffer \<le> length (mem_contents f)"
  shows "mem_read_at f buffer offset = Some (Ok (length buffer), seg (mem_contents f) offset (offset + length buffer), f)"
proof -
  let ?b = "mp_bytes (mf_mp f)"
  have len: "length (mem_contents f) = mf_len f" "mf_len f \<le> length ?b" using assms(1) by (simp_all add: mem_contents_def mem_ok_def)
  then have r: "min (mf_len f - offset) (length buffer) = length buffer" "\<not> mf_len f \<le> offset"
    using assms(2,3) by (auto simp: neq_Nil_conv)
  have "seg ?b offset (offset + length buffer) = seg (mem_contents f) offset (offset + length buffer)"
    using assms(3) len by (intro nth_equalityI) (simp_all add: mem_contents_def)
  moreover have "put_slice buffer (0, length buffer) (seg ?b offset (offset + length buffer))
      = Some (seg ?b offset (offset + length buffer))"
    using assms(3) len by (simp add: put_slice_def)
  ultimately show ?thesis
    using r assms(3) len by (simp add: mem_read_at_def mp_as_slice_def Let_def)
qed

lemma take_patch:
  assumes "offset \<le> n" "n \<le> length b" "offset + length buffer \<le> length b"
  shows "take (if n < offset + length buffer then offset + length buffer else n) (patch b offset buffer)
    = take offset (take n b) @ buffer @ drop (offset + length buffer) (take n b)"
  using assms by (auto simp: patch_def min_def drop_take)

text \<open>A write at or before the end of the file: the bytes of the file are those of the array, extended by
  the buffer; the file grows if the buffer reaches beyond its end.\<close>

lemma mem_write_ok:
  assumes "mem_ok f" "buffer \<noteq> []" "offset \<le> mf_len f" "offset + length buffer < 2 ^ 64"
    and "maps_enough new_mapping"
  shows "\<exists>f'. mem_write_at new_mapping f buffer offset = Some (Ok (length buffer), f') \<and> mem_ok f'
    \<and> mem_contents f' = take offset (mem_contents f) @ buffer @ drop (offset + length buffer) (mem_contents f)"
proof -
  let ?b = "mp_bytes (mf_mp f)" and ?e = "offset + length buffer"
  have ok: "mf_len f \<le> length ?b" "length ?b < 2 ^ 64" "?b \<noteq> [] \<longrightarrow> mp_writable (mf_mp f)"
    using assms(1) by (simp_all add: mem_ok_def)
  have e: "uadd (length buffer) offset = ?e" using assms(4) by (simp add: uadd_eq add.commute)
  have guard: "\<not> (\<not> mp_writable (mf_mp f) \<and> length ?b \<noteq> 0)" using ok(3) by auto
  show ?thesis
  proof (cases "?e \<le> length ?b")
    case True
    then have writable: "mp_writable (mf_mp f)" using assms(2) ok(3) by (cases ?b) auto
    let ?f = "f\<lparr>mf_mp := (mf_mp f)\<lparr>mp_bytes := patch ?b offset buffer\<rparr>, mf_len := if mf_len f < ?e then ?e else mf_len f\<rparr>"
    have "mem_write_at new_mapping f buffer offset = Some (Ok (length buffer), ?f)"
      using True guard e writable by (simp add: mem_write_at_def mp_write_slice_def)
    moreover have "mem_ok ?f" using True ok writable by (simp add: mem_ok_def)
    moreover have "mem_contents ?f = take offset (mem_contents f) @ buffer @ drop ?e (mem_contents f)"
      using take_patch [of offset "mf_len f" ?b buffer] True assms(3) ok(1) by (simp add: mem_contents_def)
    ultimately show ?thesis by blast
  next
    case False
    obtain mp where mp: "new_mapping ?e True = Ok mp" "mp_writable mp" "?e \<le> length (mp_bytes mp)" "length (mp_bytes mp) < 2 ^ 64"
      using assms(4,5) by (auto simp: maps_enough_def)
    let ?bytes = "patch (patch (mp_bytes mp) 0 (seg ?b 0 offset)) offset buffer"
    let ?f = "f\<lparr>mf_mp := mp\<lparr>mp_bytes := ?bytes\<rparr>, mf_len := ?e\<rparr>"
    have len: "length (seg ?b 0 offset) = offset" "length ?bytes = length (mp_bytes mp)"
      using assms(3) ok(1) mp(3) by simp_all
    have "mem_write_at new_mapping f buffer offset = Some (Ok (length buffer), ?f)"
      using False guard e mp assms(3) ok len by (auto simp: mem_write_at_def mp_write_slice_def mp_as_slice_def Let_def)
    moreover have "mem_ok ?f" using mp len(2) by (simp add: mem_ok_def)
    moreover have "mem_contents ?f = take offset (mem_contents f) @ buffer @ drop ?e (mem_contents f)"
    proof -
      have "take ?e ?bytes = seg ?b 0 offset @ buffer"
        using len mp(3) by (simp add: patch_def)
      moreover have "seg ?b 0 offset = take offset (mem_contents f)" "drop ?e (mem_contents f) = []"
        using assms(3) ok(1) False by (simp_all add: mem_contents_def seg_def min_def)
      ultimately show ?thesis by (simp add: mem_contents_def)
    qed
    ultimately show ?thesis by blast
  qed
qed

text \<open>A file in mapped pages is a byte stream, as long as it need not grow.\<close>

interpretation mem_stream: byte_stream mem_read_at "mem_write_at new_mapping" mf_len mem_contents
  "\<lambda>f. mem_ok f \<and> mp_writable (mf_mp f)" limit for new_mapping limit
proof
  fix f :: mem_file and buffer :: "u8 list" and offset
  assume f: "mem_ok f \<and> mp_writable (mf_mp f)"
  then have len: "mf_len f = length (mem_contents f)" "mf_len f \<le> length (mp_bytes (mf_mp f))" "length (mp_bytes (mf_mp f)) < 2 ^ 64"
    by (simp_all add: mem_ok_def mem_contents_def)
  then show "length (mem_contents f) < 2 ^ 64" "mf_len f = length (mem_contents f)" by simp_all
  assume in_range: "offset + length buffer \<le> length (mem_contents f)"
  show "\<exists>d'. mem_read_at f buffer offset = Some (Ok (length buffer), seg (mem_contents f) offset (offset + length buffer), d')
      \<and> (mem_ok d' \<and> mp_writable (mf_mp d')) \<and> mem_contents d' = mem_contents f" if "buffer \<noteq> []"
    using mem_read_ok [of f buffer offset] f in_range that by auto
  let ?f = "f\<lparr>mf_mp := (mf_mp f)\<lparr>mp_bytes := patch (mp_bytes (mf_mp f)) offset buffer\<rparr>\<rparr>"
  have "uadd (length buffer) offset = offset + length buffer"
    using in_range len by (simp add: uadd_eq add.commute)
  then have "mem_write_at new_mapping f buffer offset = Some (Ok (length buffer), ?f)"
    using f len in_range by (simp add: mem_write_at_def mp_write_slice_def)
  moreover have "mem_contents ?f = patch (mem_contents f) offset buffer"
    using len in_range by (intro nth_equalityI) (auto simp: mem_contents_def nth_patch)
  ultimately show "\<exists>d'. mem_write_at new_mapping f buffer offset = Some (Ok (length buffer), d')
      \<and> (mem_ok d' \<and> mp_writable (mf_mp d')) \<and> mem_contents d' = patch (mem_contents f) offset buffer"
    using f len in_range by (auto simp: mem_ok_def)
qed

section \<open>Properties\<close>



text \<open>
  (C37) A file in a vector cannot be read from the middle, and can be written only up to its end: reading at
  an offset inside the file other than 0 panics, for every buffer, and so does a write that ends before the end
  of the file. Other writes do what they should.
\<close>
theorem heap_file_panics:
  assumes "offset + length buffer < 2 ^ 64"
  shows "(0 < offset \<and> offset < length vec \<longrightarrow> heap_read_at vec buffer offset = None)
    \<and> (offset + length buffer < length vec \<longrightarrow> heap_write_at vec buffer offset = None)
    \<and> (offset \<le> length vec \<and> length vec \<le> offset + length buffer \<longrightarrow>
        heap_write_at vec buffer offset = Some (Ok (length buffer), take offset vec @ buffer))"
proof -
  have e: "uadd offset (length buffer) = offset + length buffer" using assms by (rule uadd_eq)
  have "heap_read_at vec buffer offset = None" if "0 < offset" "offset < length vec"
    using that by (auto simp: heap_read_at_def get_slice_def put_slice_def Let_def min_def bind_eq_None_conv)
  moreover have "heap_write_at vec buffer offset = None" if "offset + length buffer < length vec"
    using that e by (auto simp: heap_write_at_def put_slice_def Let_def)
  moreover have "heap_write_at vec buffer offset = Some (Ok (length buffer), take offset vec @ buffer)"
    if "offset \<le> length vec" "length vec \<le> offset + length buffer"
    using that e by (auto simp: heap_write_at_def put_slice_def Let_def)
  ultimately show ?thesis by blast
qed

theorem heap_file_panics_witness:
  "heap_read_at [1, 2, 3] [0] 1 = None \<and> heap_write_at [1, 2, 3] [9] 0 = None"
  using heap_file_panics [of 1 "[0]" "[1, 2, 3]"] heap_file_panics [of 0 "[9]" "[1, 2, 3]"] by simp

end
