(* ===== verification/PathNames.thy ===== *)
theory PathNames
  imports Prelude
begin

text \<open>
  Paths as strings: \<^verbatim>\<open>src/kernel/path/src/lib.rs\<close> without the walk through directories. \<open>split_on\<close> is \<open>str::split\<close>
  of Rust's core library with a delimiter of one character.
\<close>

section \<open>Splitting\<close>

fun split_on :: "char \<Rightarrow> string \<Rightarrow> string list" where
  "split_on c [] = [[]]"
| "split_on c (x # xs) = (if x = c then [] # split_on c xs else (x # hd (split_on c xs)) # tl (split_on c xs))"

abbreviation PATH_DELIMITER :: char where "PATH_DELIMITER \<equiv> CHR ''/''"
abbreviation EXTENSION_DELIMITER :: char where "EXTENSION_DELIMITER \<equiv> CHR ''.''"

section \<open>Paths\<close>

type_synonym path = string

definition components :: "path \<Rightarrow> string list" where
  "components p = filter (\<lambda>x. x \<noteq> []) (split_on PATH_DELIMITER p)"

definition rcomponents :: "path \<Rightarrow> string list" where
  "rcomponents p = filter (\<lambda>x. x \<noteq> []) (rev (split_on PATH_DELIMITER p))"

definition basename :: "path \<Rightarrow> string" where
  "basename p = (case rcomponents p of x # _ \<Rightarrow> x | [] \<Rightarrow> p)"

definition file_stem :: "path \<Rightarrow> string" where
  "file_stem p = (case List.find (\<lambda>x. x \<noteq> []) (split_on EXTENSION_DELIMITER (basename p)) of Some x \<Rightarrow> x | None \<Rightarrow> p)"

definition extension :: "path \<Rightarrow> string option" where
  "extension p = List.find (\<lambda>x. x \<noteq> []) (rev (split_on EXTENSION_DELIMITER (basename p)))"

definition is_absolute :: "path \<Rightarrow> bool" where
  "is_absolute p = (case p of c # _ \<Rightarrow> c = PATH_DELIMITER | [] \<Rightarrow> False)"

text \<open>\<open>canonicalize\<close>: the components after those of the working directory, with \<open>.\<close> and \<open>..\<close> resolved.\<close>

fun canonical_components :: "string list \<Rightarrow> string list \<Rightarrow> string list" where
  "canonical_components new [] = new"
| "canonical_components new (c # cs) =
     (if c = ''.'' then canonical_components new cs
      else if c = ''..'' then canonical_components (butlast new) cs
      else canonical_components (new @ [c]) cs)"

fun join_slash :: "string list \<Rightarrow> string" where
  "join_slash [] = []"
| "join_slash [c] = c"
| "join_slash (c # cs) = c @ ''/'' @ join_slash cs"

definition canonicalize :: "path \<Rightarrow> path \<Rightarrow> path" where
  "canonicalize p current_path = join_slash (canonical_components (components current_path) (components p))"

text \<open>The loop of \<open>relative\<close>, with the components found so far.\<close>

fun relative_loop :: "string list \<Rightarrow> string list \<Rightarrow> string list \<Rightarrow> string list option" where
  "relative_loop [] [] comps = Some comps"
| "relative_loop (a # as) [] comps = Some (comps @ a # as)"
| "relative_loop [] (b # bs) comps = relative_loop [] bs (comps @ [''..''])"
| "relative_loop (a # as) (b # bs) comps =
     (if comps = [] \<and> a = b then relative_loop as bs comps
      else if b = ''.'' then relative_loop as bs (comps @ [''..''])
      else if b = ''..'' then None
      else Some (comps @ ''..'' # replicate (length bs) ''..'' @ a # as))"

definition relative :: "path \<Rightarrow> path \<Rightarrow> path option" where
  "relative p other = map_option (\<lambda>comps. butlast (concat (map (\<lambda>c. c @ ''/'') comps)))
     (relative_loop (components p) (components other) [])"

section \<open>Names and their paths\<close>

text \<open>A name that can be a component: not empty, no delimiter, not one of the two special names.\<close>

definition ordinary :: "string \<Rightarrow> bool" where
  "ordinary n \<longleftrightarrow> n \<noteq> [] \<and> PATH_DELIMITER \<notin> set n \<and> n \<noteq> ''.'' \<and> n \<noteq> ''..''"

definition nameable :: "string \<Rightarrow> bool" where
  "nameable n \<longleftrightarrow> n \<noteq> [] \<and> PATH_DELIMITER \<notin> set n"

lemma split_on_not_Nil [simp]: "split_on c xs \<noteq> []"
  by (induction xs) auto

lemma split_on_append: "split_on c (xs @ c # ys) = split_on c xs @ split_on c ys"
  by (induction xs) (auto simp: hd_append tl_append2)

lemma split_on_none: "c \<notin> set xs \<Longrightarrow> split_on c xs = [xs]"
  by (induction xs) auto

lemma components_append: "components (p @ ''/'' @ q) = components p @ components q"
  by (simp add: components_def split_on_append)

lemma components_Nil [simp]: "components [] = []"
  by (simp add: components_def)

lemma components_Cons_slash [simp]: "components (CHR ''/'' # p) = components p"
  by (simp add: components_def)

lemma components_name: "nameable n \<Longrightarrow> components n = [n]"
  by (simp add: components_def nameable_def split_on_none)

lemma components_join: "list_all nameable cs \<Longrightarrow> components (join_slash cs) = cs"
  by (induction cs rule: join_slash.induct) (simp_all add: components_name components_append [simplified])

text \<open>The parts of a split hold no delimiter, so the components of a path are names.\<close>

lemma split_on_parts: "x \<in> set (split_on c xs) \<Longrightarrow> c \<notin> set x"
proof (induction xs arbitrary: x)
  case (Cons y ys)
  then show ?case
    by (cases "split_on c ys") (auto split: if_splits)
qed simp

lemma components_nameable: "x \<in> set (components p) \<Longrightarrow> nameable x"
  by (auto simp: components_def nameable_def dest: split_on_parts)

lemma butlast_slashes: "cs \<noteq> [] \<Longrightarrow> butlast (concat (map (\<lambda>c. c @ ''/'') cs)) = join_slash cs"
  by (induction cs rule: join_slash.induct) (auto simp: butlast_append)

end
