(* ===== verification/FileTree.thy ===== *)
theory FileTree
  imports PathNames "HOL-Library.AList" "HOL-Library.Char_ord" "HOL-Library.List_Lexorder"
begin

text \<open>
  The tree of files and directories: \<^verbatim>\<open>src/kernel/fs_node/src/lib.rs\<close>, \<^verbatim>\<open>src/kernel/vfs_node/src/lib.rs\<close>,
  \<^verbatim>\<open>src/kernel/root/src/lib.rs\<close>, the walk along a path of \<^verbatim>\<open>src/kernel/path/src/lib.rs\<close>, and
  \<^verbatim>\<open>src/kernel/environment/src/lib.rs\<close>. Nodes live in a store; a reference is an address. The reference to a
  parent is weak: it leads nowhere once the parent is freed. A directory is a map from names to nodes,
  kept as an association list.
\<close>

section \<open>Nodes\<close>

type_synonym ref = nat

datatype node_kind = FileNode | DirNode "(string \<times> ref) list" | RootNode "(string \<times> ref) list"

record fs_node =
  fn_name :: string
  fn_parent :: "ref option"
  fn_kind :: node_kind

type_synonym fs = "ref \<rightharpoonup> fs_node"

datatype file_or_dir = File ref | Dir ref

fun node_ref :: "file_or_dir \<Rightarrow> ref" where
  "node_ref (File r) = r"
| "node_ref (Dir r) = r"

definition is_file :: "file_or_dir \<Rightarrow> bool" where "is_file n = (case n of File _ \<Rightarrow> True | Dir _ \<Rightarrow> False)"
definition is_dir :: "file_or_dir \<Rightarrow> bool" where "is_dir n = (case n of File _ \<Rightarrow> False | Dir _ \<Rightarrow> True)"

definition ROOT_DIRECTORY_NAME :: string where "ROOT_DIRECTORY_NAME = ''''"

definition get_root :: ref where "get_root = 0"

definition fs_init :: fs where
  "fs_init = [get_root \<mapsto> \<lparr>fn_name = ROOT_DIRECTORY_NAME, fn_parent = None, fn_kind = RootNode []\<rparr>]"

fun kind_children :: "node_kind \<Rightarrow> (string \<times> ref) list" where
  "kind_children FileNode = []"
| "kind_children (DirNode cs) = cs"
| "kind_children (RootNode cs) = cs"

fun with_children :: "node_kind \<Rightarrow> (string \<times> ref) list \<Rightarrow> node_kind" where
  "with_children FileNode cs = FileNode"
| "with_children (DirNode _) cs = DirNode cs"
| "with_children (RootNode _) cs = RootNode cs"

definition is_root_kind :: "node_kind \<Rightarrow> bool" where
  "is_root_kind k = (case k of RootNode _ \<Rightarrow> True | _ \<Rightarrow> False)"

definition children :: "fs \<Rightarrow> ref \<Rightarrow> (string \<times> ref) list" where
  "children fs d = (case fs d of Some n \<Rightarrow> kind_children (fn_kind n) | None \<Rightarrow> [])"

definition get_name :: "fs \<Rightarrow> ref \<Rightarrow> string" where
  "get_name fs r = (case fs r of Some n \<Rightarrow> fn_name n | None \<Rightarrow> [])"

definition node_at :: "fs \<Rightarrow> ref \<Rightarrow> file_or_dir" where
  "node_at fs r = (case fs r of Some n \<Rightarrow> (if fn_kind n = FileNode then File r else Dir r) | None \<Rightarrow> Dir r)"

text \<open>\<open>Weak::upgrade\<close>.\<close>

definition upgrade :: "fs \<Rightarrow> ref option \<Rightarrow> ref option" where
  "upgrade fs w = (case w of Some r \<Rightarrow> if r \<in> dom fs then Some r else None | None \<Rightarrow> None)"

definition get_parent_dir :: "fs \<Rightarrow> ref \<Rightarrow> ref option" where
  "get_parent_dir fs r = (case fs r of
     Some n \<Rightarrow> if is_root_kind (fn_kind n) then Some get_root else upgrade fs (fn_parent n)
   | None \<Rightarrow> None)"

definition set_parent_dir :: "fs \<Rightarrow> ref \<Rightarrow> ref option \<Rightarrow> fs" where
  "set_parent_dir fs r new_parent = (case fs r of
     Some n \<Rightarrow> if is_root_kind (fn_kind n) then fs else fs(r \<mapsto> n\<lparr>fn_parent := new_parent\<rparr>)
   | None \<Rightarrow> fs)"

text \<open>\<open>get_absolute_path\<close> follows the parents; it does not return on a cycle.\<close>

partial_function (option) get_absolute_path :: "fs \<Rightarrow> ref \<Rightarrow> string option" where
  "get_absolute_path fs r = (case fs r of
     None \<Rightarrow> None
   | Some n \<Rightarrow>
       if is_root_kind (fn_kind n) then Some (ROOT_DIRECTORY_NAME @ ''/'')
       else (case upgrade fs (fn_parent n) of
         None \<Rightarrow> Some (fn_name n)
       | Some p \<Rightarrow> do {
           parent_path \<leftarrow> get_absolute_path fs p;
           Some (if parent_path = ''/'' then parent_path @ fn_name n else (parent_path @ ''/'') @ fn_name n)
         }))"

section \<open>Directories\<close>

definition dir_get :: "fs \<Rightarrow> ref \<Rightarrow> string \<Rightarrow> file_or_dir option" where
  "dir_get fs d name = map_option (node_at fs) (map_of (children fs d) name)"

definition get_file :: "fs \<Rightarrow> ref \<Rightarrow> string \<Rightarrow> ref option" where
  "get_file fs d name = (case dir_get fs d name of Some (File f) \<Rightarrow> Some f | _ \<Rightarrow> None)"

definition get_dir :: "fs \<Rightarrow> ref \<Rightarrow> string \<Rightarrow> ref option" where
  "get_dir fs d name = (case dir_get fs d name of Some (Dir d) \<Rightarrow> Some d | _ \<Rightarrow> None)"

definition dir_list :: "fs \<Rightarrow> ref \<Rightarrow> string list" where
  "dir_list fs d = sort (map fst (children fs d))"

definition set_children :: "fs \<Rightarrow> ref \<Rightarrow> (string \<times> ref) list \<Rightarrow> fs" where
  "set_children fs d cs = (case fs d of
     Some n \<Rightarrow> fs(d \<mapsto> n\<lparr>fn_kind := with_children (fn_kind n) cs\<rparr>) | None \<Rightarrow> fs)"

definition dir_insert :: "fs \<Rightarrow> ref \<Rightarrow> file_or_dir \<Rightarrow> file_or_dir option \<times> fs" where
  "dir_insert fs d node =
     (let name = get_name fs (node_ref node);
          old = map_of (children fs d) name;
          fs = set_children fs d (AList.update name (node_ref node) (children fs d)) in
      case old of
        Some r \<Rightarrow> (Some (node_at fs r), set_parent_dir fs r None)
      | None \<Rightarrow> (None, fs))"

text \<open>Removal is by name; the root directory refuses to remove the root.\<close>

definition dir_remove :: "fs \<Rightarrow> ref \<Rightarrow> file_or_dir \<Rightarrow> file_or_dir option \<times> fs" where
  "dir_remove fs d node =
     (if d = get_root \<and> node = Dir get_root then (None, fs)
      else (let name = get_name fs (node_ref node) in
            case map_of (children fs d) name of
              Some r \<Rightarrow> (Some (node_at fs r),
                set_parent_dir (set_children fs d (AList.delete name (children fs d))) r None)
            | None \<Rightarrow> (None, fs)))"

text \<open>\<open>VFSDirectory::create\<close>, and the same for a file (\<open>HeapFile::from_vec\<close>, \<open>MemFile::from_mapped_pages\<close>). The
  address of the new node is an argument.\<close>

definition create_node :: "node_kind \<Rightarrow> fs \<Rightarrow> ref \<Rightarrow> string \<Rightarrow> ref \<Rightarrow> fs" where
  "create_node k fs r name parent =
     (let fs = fs(r \<mapsto> \<lparr>fn_name = name, fn_parent = Some parent, fn_kind = k\<rparr>) in
      snd (dir_insert fs parent (node_at fs r)))"

definition dir_create :: "fs \<Rightarrow> ref \<Rightarrow> string \<Rightarrow> ref \<Rightarrow> fs" where
  "dir_create = create_node (DirNode [])"

definition file_create :: "fs \<Rightarrow> ref \<Rightarrow> string \<Rightarrow> ref \<Rightarrow> fs" where
  "file_create = create_node FileNode"

section \<open>Walking along a path\<close>

text \<open>A file ends the walk, even when components are left.\<close>

fun walk :: "fs \<Rightarrow> ref \<Rightarrow> string list \<Rightarrow> file_or_dir option" where
  "walk fs curr_dir [] = Some (Dir curr_dir)"
| "walk fs curr_dir (c # cs) =
     (if c = ''.'' then walk fs curr_dir cs
      else if c = ''..'' then
        (case get_parent_dir fs curr_dir of None \<Rightarrow> None | Some parent_dir \<Rightarrow> walk fs parent_dir cs)
      else
        (case dir_get fs curr_dir c of
           Some (File f) \<Rightarrow> Some (File f)
         | Some (Dir d) \<Rightarrow> walk fs d cs
         | None \<Rightarrow> None))"

definition path_get :: "fs \<Rightarrow> path \<Rightarrow> ref \<Rightarrow> file_or_dir option" where
  "path_get fs p starting_dir = walk fs (if is_absolute p then get_root else starting_dir) (components p)"

definition path_get_file :: "fs \<Rightarrow> path \<Rightarrow> ref \<Rightarrow> ref option" where
  "path_get_file fs p d = (case path_get fs p d of Some (File f) \<Rightarrow> Some f | _ \<Rightarrow> None)"

definition path_get_dir :: "fs \<Rightarrow> path \<Rightarrow> ref \<Rightarrow> ref option" where
  "path_get_dir fs p d = (case path_get fs p d of Some (Dir d) \<Rightarrow> Some d | _ \<Rightarrow> None)"

definition get_absolute :: "fs \<Rightarrow> path \<Rightarrow> file_or_dir option" where
  "get_absolute fs p = (if is_absolute p then path_get fs p get_root else None)"

section \<open>The environment of a task\<close>

datatype env_error = NotADirectory | NotFound

record environment =
  working_dir :: ref
  variables :: "(string \<times> string) list"

definition env_default :: environment where
  "env_default = \<lparr>working_dir = get_root, variables = []\<rparr>"

definition cwd :: "fs \<Rightarrow> environment \<Rightarrow> string option" where
  "cwd fs e = get_absolute_path fs (working_dir e)"

definition chdir :: "fs \<Rightarrow> environment \<Rightarrow> path \<Rightarrow> (unit, env_error) result \<times> environment" where
  "chdir fs e p =
     (case path_get fs p (working_dir e) of
        Some (Dir d) \<Rightarrow> (Ok (), e\<lparr>working_dir := d\<rparr>)
      | Some (File _) \<Rightarrow> (Err NotADirectory, e)
      | None \<Rightarrow> (Err NotFound, e))"

definition env_get :: "environment \<Rightarrow> string \<Rightarrow> string option" where
  "env_get e key = map_of (variables e) key"

definition env_set :: "environment \<Rightarrow> string \<Rightarrow> string \<Rightarrow> environment" where
  "env_set e key val = e\<lparr>variables := AList.update key val (variables e)\<rparr>"

definition env_unset :: "environment \<Rightarrow> string \<Rightarrow> environment" where
  "env_unset e key = e\<lparr>variables := AList.delete key (variables e)\<rparr>"

section \<open>Histories\<close>

text \<open>A new node gets an address that is not in use and that no weak reference points to. A node that is in
  no directory may be freed.\<close>

definition fresh :: "fs \<Rightarrow> ref \<Rightarrow> bool" where
  "fresh fs r \<longleftrightarrow> r \<notin> dom fs \<and> (\<forall>n\<in>ran fs. fn_parent n \<noteq> Some r)"

definition is_directory :: "fs \<Rightarrow> ref \<Rightarrow> bool" where
  "is_directory fs d \<longleftrightarrow> (\<exists>n. fs d = Some n \<and> fn_kind n \<noteq> FileNode)"

inductive fs_step :: "fs \<Rightarrow> fs \<Rightarrow> bool" where
  create_dir: "fresh fs r \<Longrightarrow> is_directory fs d \<Longrightarrow> fs_step fs (dir_create fs r name d)"
| create_file: "fresh fs r \<Longrightarrow> is_directory fs d \<Longrightarrow> fs_step fs (file_create fs r name d)"
| remove: "is_directory fs d \<Longrightarrow> r \<in> dom fs \<Longrightarrow> fs_step fs (snd (dir_remove fs d (node_at fs r)))"
| free: "r \<noteq> get_root \<Longrightarrow> \<forall>d. r \<notin> snd ` set (children fs d) \<Longrightarrow> fs_step fs (fs(r := None))"

inductive fs_reachable :: "fs \<Rightarrow> bool" where
  fs_start: "fs_reachable fs_init"
| fs_next: "fs_reachable fs \<Longrightarrow> fs_step fs fs' \<Longrightarrow> fs_reachable fs'"

text \<open>Where a node is: the names that lead to it from the root.\<close>

inductive located :: "fs \<Rightarrow> ref \<Rightarrow> string list \<Rightarrow> bool" where
  located_root: "located fs get_root []"
| located_child: "located fs d cs \<Longrightarrow> map_of (children fs d) name = Some r \<Longrightarrow> located fs r (cs @ [name])"

text \<open>The invariant: one root, and every entry of a directory is a node with that name and that parent.\<close>

definition is_root :: "fs \<Rightarrow> ref \<Rightarrow> bool" where
  "is_root fs r \<longleftrightarrow> (\<exists>n. fs r = Some n \<and> is_root_kind (fn_kind n))"

definition node_info :: "fs \<Rightarrow> ref \<Rightarrow> (string \<times> ref option) option" where
  "node_info fs r = map_option (\<lambda>n. (fn_name n, fn_parent n)) (fs r)"

definition fs_ok :: "fs \<Rightarrow> bool" where
  "fs_ok fs \<longleftrightarrow> (\<forall>r. is_root fs r \<longleftrightarrow> r = get_root) \<and> (\<forall>d. distinct (map fst (children fs d)))
     \<and> (\<forall>d name r. map_of (children fs d) name = Some r \<longrightarrow> r \<noteq> get_root \<and> node_info fs r = Some (name, Some d))"

section \<open>The invariant holds\<close>

lemma fs_okI:
  assumes "\<And>r. is_root fs r \<longleftrightarrow> r = get_root" "\<And>d. distinct (map fst (children fs d))"
    and "\<And>d name r. map_of (children fs d) name = Some r \<Longrightarrow> r \<noteq> get_root \<and> node_info fs r = Some (name, Some d)"
  shows "fs_ok fs"
  using assms by (simp add: fs_ok_def)

lemma fs_okD:
  assumes "fs_ok fs"
  shows "is_root fs r \<longleftrightarrow> r = get_root" "distinct (map fst (children fs d))"
    and "map_of (children fs d) name = Some r \<Longrightarrow> r \<noteq> get_root"
    and "map_of (children fs d) name = Some r \<Longrightarrow> node_info fs r = Some (name, Some d)"
  using assms by (simp_all add: fs_ok_def)

lemma is_root_kind_simps [simp]:
  "is_root_kind (RootNode cs)" "\<not> is_root_kind (DirNode cs)" "\<not> is_root_kind FileNode"
  by (simp_all add: is_root_kind_def)

lemma with_children_root [simp]: "is_root_kind (with_children k cs) = is_root_kind k"
  by (cases k) simp_all

lemma kind_children_with [simp]: "k \<noteq> FileNode \<Longrightarrow> kind_children (with_children k cs) = cs"
  by (cases k) simp_all

text \<open>What the updates of the store do to the three projections.\<close>

lemma children_simps:
  "children (fs(r \<mapsto> n)) x = (if x = r then kind_children (fn_kind n) else children fs x)"
  "is_directory fs d \<Longrightarrow> children (set_children fs d cs) x = (if x = d then cs else children fs x)"
  "children (set_parent_dir fs r w) x = children fs x"
  "children (fs(r := None)) x = (if x = r then [] else children fs x)"
  by (auto simp: children_def set_children_def set_parent_dir_def is_directory_def split: option.split)

lemma is_root_simps:
  "is_root (fs(r \<mapsto> n)) x = (if x = r then is_root_kind (fn_kind n) else is_root fs x)"
  "is_root (set_children fs d cs) x = is_root fs x"
  "is_root (set_parent_dir fs r w) x = is_root fs x"
  "is_root (fs(r := None)) x = (x \<noteq> r \<and> is_root fs x)"
  by (auto simp: is_root_def set_children_def set_parent_dir_def split: option.split)

lemma node_info_simps:
  "node_info (fs(r \<mapsto> n)) x = (if x = r then Some (fn_name n, fn_parent n) else node_info fs x)"
  "node_info (set_children fs d cs) x = node_info fs x"
  "node_info (set_parent_dir fs r w) x =
     (if x = r \<and> \<not> is_root fs r then map_option (\<lambda>(name, _). (name, w)) (node_info fs x) else node_info fs x)"
  "node_info (fs(r := None)) x = (if x = r then None else node_info fs x)"
  by (auto simp: node_info_def set_children_def set_parent_dir_def is_root_def split: option.split)

lemma get_name_info: "node_info fs r = Some (name, p) \<Longrightarrow> get_name fs r = name"
  by (auto simp: node_info_def get_name_def)

lemma node_at_ref [simp]: "node_ref (node_at fs r) = r"
  by (simp add: node_at_def split: option.split)

lemma is_directory_dom: "is_directory fs d \<Longrightarrow> d \<in> dom fs"
  by (auto simp: is_directory_def)

lemma fresh_not_entry: "fs_ok fs \<Longrightarrow> fresh fs r \<Longrightarrow> map_of (children fs d) name \<noteq> Some r"
  using fs_okD(4) [of fs d name r] by (auto simp: fresh_def node_info_def)

text \<open>An entry of a directory is replaced or dropped, and the node that was there loses its parent.\<close>

lemma fs_ok_replace:
  assumes "fs_ok fs" "is_directory fs d" "\<not> is_root_kind k" "kind_children k = []" "fresh fs r"
  shows "fs_ok (create_node k fs r name d)"
proof -
  define fs1 where "fs1 = fs(r \<mapsto> \<lparr>fn_name = name, fn_parent = Some d, fn_kind = k\<rparr>)"
  define fs2 where "fs2 = set_children fs1 d (AList.update name r (children fs d))"
  have ne: "r \<noteq> d" "r \<noteq> get_root"
    using assms(1,2,5) is_directory_dom fs_okD(1) [OF assms(1), of get_root] by (auto simp: fresh_def is_root_def)
  have dir: "is_directory fs1 d" using assms(2) ne by (auto simp: fs1_def is_directory_def)
  have c1: "children fs1 x = (if x = r then [] else children fs x)" for x
    using assms(4) by (simp add: fs1_def children_simps)
  have nm: "get_name fs1 r = name" by (simp add: fs1_def get_name_def)
  have c2: "children fs2 x = (if x = d then AList.update name r (children fs d) else if x = r then [] else children fs x)" for x
    using c1 dir by (simp add: fs2_def children_simps)
  have i2: "node_info fs2 x = (if x = r then Some (name, Some d) else node_info fs x)" for x
    by (simp add: fs2_def fs1_def node_info_simps)
  have r2: "is_root fs2 x \<longleftrightarrow> x = get_root" for x
    using assms(3) ne fs_okD(1) [OF assms(1)] by (simp add: fs2_def fs1_def is_root_simps)
  have new: "create_node k fs r name d =
      (case map_of (children fs d) name of Some old \<Rightarrow> set_parent_dir fs2 old None | None \<Rightarrow> fs2)"
    using c1 ne nm by (simp add: create_node_def dir_insert_def Let_def fs2_def flip: fs1_def split: option.split)
  have entries: "x \<noteq> get_root \<and> node_info fs2 x = Some (n, Some e) \<and> map_of (children fs d) name \<noteq> Some x"
    if "map_of (children fs2 e) n = Some x" for e n x
  proof (cases "e = d \<and> n = name")
    case True
    then show ?thesis using that c2 i2 ne fresh_not_entry [OF assms(1,5), of d name] by (simp add: update_conv')
  next
    case False
    then have x: "map_of (children fs e) n = Some x"
      using that c2 by (auto simp: update_conv' split: if_splits)
    then have "map_of (children fs d) name \<noteq> Some x"
      using False fs_okD(4) [OF assms(1), of e n x] fs_okD(4) [OF assms(1), of d name x] by auto
    then show ?thesis
      using x i2 fs_okD(3,4) [OF assms(1) x] fresh_not_entry [OF assms(1,5), of e n] by auto
  qed
  have dist: "distinct (map fst (children fs2 x))" for x
    using c2 fs_okD(2) [OF assms(1)] by (simp add: distinct_update)
  show ?thesis
  proof (cases "map_of (children fs d) name")
    case None
    then show ?thesis using new r2 dist entries by (intro fs_okI) simp_all
  next
    case (Some old)
    show ?thesis
    proof (rule fs_okI, unfold new Some option.case)
      fix e n x
      assume "map_of (children (set_parent_dir fs2 old None) e) n = Some x"
      then show "x \<noteq> get_root \<and> node_info (set_parent_dir fs2 old None) x = Some (n, Some e)"
        using entries [of e n x] Some by (auto simp: children_simps node_info_simps)
    qed (simp_all add: is_root_simps r2 children_simps dist)
  qed
qed

lemma fs_ok_remove:
  assumes "fs_ok fs" "is_directory fs d"
  shows "fs_ok (snd (dir_remove fs d (node_at fs r)))"
proof (cases "d = get_root \<and> node_at fs r = Dir get_root \<or> map_of (children fs d) (get_name fs r) = None")
  case True
  then show ?thesis using assms(1) by (auto simp: dir_remove_def Let_def)
next
  case False
  then obtain old where old: "map_of (children fs d) (get_name fs r) = Some old" by auto
  let ?n = "get_name fs r"
  let ?fs = "set_children fs d (AList.delete ?n (children fs d))"
  have new: "snd (dir_remove fs d (node_at fs r)) = set_parent_dir ?fs old None"
    using False old by (auto simp: dir_remove_def Let_def)
  have entry: "x \<noteq> get_root \<and> node_info fs x = Some (n, Some e) \<and> x \<noteq> old"
    if "map_of (children ?fs e) n = Some x" for e n x
  proof -
    have x: "map_of (children fs e) n = Some x" "\<not> (e = d \<and> n = ?n)"
      using that assms(2) by (auto simp: children_simps delete_conv' split: if_splits)
    then show ?thesis
      using fs_okD(3,4) [OF assms(1) x(1)] fs_okD(4) [OF assms(1) old] by auto
  qed
  show ?thesis
  proof (rule fs_okI, unfold new)
    fix e n x
    assume "map_of (children (set_parent_dir ?fs old None) e) n = Some x"
    then show "x \<noteq> get_root \<and> node_info (set_parent_dir ?fs old None) x = Some (n, Some e)"
      using entry [of e n x] by (simp add: children_simps(3) node_info_simps)
  next
    fix e
    show "distinct (map fst (children (set_parent_dir ?fs old None) e))"
      using fs_okD(2) [OF assms(1)] assms(2) by (simp add: children_simps distinct_delete)
  qed (simp add: is_root_simps fs_okD(1) [OF assms(1)])
qed

lemma fs_ok_free:
  assumes "fs_ok fs" "r \<noteq> get_root" "\<forall>d. r \<notin> snd ` set (children fs d)"
  shows "fs_ok (fs(r := None))"
proof (rule fs_okI)
  fix e n x
  assume "map_of (children (fs(r := None)) e) n = Some x"
  then have x: "map_of (children fs e) n = Some x" by (simp add: children_simps split: if_splits)
  then have "x \<noteq> r" using assms(3) by (force dest: map_of_SomeD)
  then show "x \<noteq> get_root \<and> node_info (fs(r := None)) x = Some (n, Some e)"
    using fs_okD(3,4) [OF assms(1) x] by (simp add: node_info_simps)
qed (use assms(2) fs_okD [OF assms(1)] in \<open>auto simp: is_root_simps children_simps\<close>)

lemma fs_reachable_ok: "fs_reachable fs \<Longrightarrow> fs_ok fs"
proof (induction rule: fs_reachable.induct)
  case fs_start
  have "children fs_init d = []" for d by (simp add: fs_init_def children_def)
  moreover have "is_root fs_init r \<longleftrightarrow> r = get_root" for r by (simp add: fs_init_def is_root_def)
  ultimately show ?case by (intro fs_okI) simp_all
next
  case (fs_next fs fs')
  from fs_next.hyps(2) show ?case
  proof (cases rule: fs_step.cases)
    case (free r)
    then show ?thesis using fs_ok_free [OF fs_next.IH] by blast
  qed (use fs_next.IH in \<open>simp_all add: dir_create_def file_create_def fs_ok_replace fs_ok_remove\<close>)
qed

section \<open>Paths and places\<close>

lemma walk_append:
  "walk fs d (cs @ es) = (case walk fs d cs of Some (Dir e) \<Rightarrow> walk fs e es | other \<Rightarrow> other)"
  by (induction cs arbitrary: d) (auto split: option.split file_or_dir.split)

lemma located_node: "fs_ok fs \<Longrightarrow> located fs r cs \<Longrightarrow> r \<in> dom fs"
  by (erule located.cases)
    (use fs_okD(1) [of fs get_root] fs_okD(4) in \<open>fastforce simp: is_root_def node_info_def\<close>)+

lemma located_snoc:
  assumes "located fs r (cs @ [name])"
  obtains d where "located fs d cs" "map_of (children fs d) name = Some r"
  using assms by (cases rule: located.cases) auto

lemma located_child_info:
  assumes "fs_ok fs" "located fs r (cs @ [name])"
  obtains d n where "located fs d cs" "map_of (children fs d) name = Some r" "fs r = Some n" "fn_name n = name"
    "fn_parent n = Some d" "\<not> is_root_kind (fn_kind n)" "d \<in> dom fs"
proof -
  obtain d where d: "located fs d cs" "map_of (children fs d) name = Some r" using located_snoc [OF assms(2)] .
  then obtain n where n: "fs r = Some n" "fn_name n = name" "fn_parent n = Some d"
    using fs_okD(4) [OF assms(1) d(2)] by (auto simp: node_info_def)
  moreover have "\<not> is_root_kind (fn_kind n)"
    using fs_okD(3) [OF assms(1) d(2)] fs_okD(1) [OF assms(1), of r] n(1) by (auto simp: is_root_def)
  ultimately show ?thesis using that d located_node [OF assms(1) d(1)] by auto
qed

lemma located_parent:
  "fs_ok fs \<Longrightarrow> located fs r (cs @ [name]) \<Longrightarrow> \<exists>d. located fs d cs \<and> get_parent_dir fs r = Some d"
  by (erule (1) located_child_info) (auto simp: get_parent_dir_def upgrade_def)

lemma join_slash_snoc: "join_slash (cs @ [n]) = (if cs = [] then n else join_slash cs @ ''/'' @ n)"
  by (induction cs rule: join_slash.induct) auto

lemma join_slash_Nil: "list_all nameable cs \<Longrightarrow> join_slash cs = [] \<longleftrightarrow> cs = []"
  by (induction cs rule: join_slash.induct) (auto simp: nameable_def)

lemma ordinary_nameable: "ordinary n \<Longrightarrow> nameable n"
  by (simp add: ordinary_def nameable_def)

lemma absolute_path_located:
  "fs_ok fs \<Longrightarrow> located fs r cs \<Longrightarrow> list_all nameable cs \<Longrightarrow> get_absolute_path fs r = Some (''/'' @ join_slash cs)"
proof (induction cs arbitrary: r rule: rev_induct)
  case Nil
  then have "r = get_root" by (auto elim: located.cases)
  then show ?case
    using fs_okD(1) [OF Nil.prems(1), of get_root]
    by (subst get_absolute_path.simps) (auto simp: is_root_def ROOT_DIRECTORY_NAME_def)
next
  case (snoc name cs)
  obtain d n where d: "located fs d cs" "fs r = Some n" "fn_name n = name" "fn_parent n = Some d"
    "\<not> is_root_kind (fn_kind n)" "d \<in> dom fs"
    using located_child_info [OF snoc.prems(1,2)] by metis
  have "get_absolute_path fs d = Some (''/'' @ join_slash cs)" using snoc.IH snoc.prems d(1) by simp
  then show ?case
    using d join_slash_Nil [of cs] snoc.prems(3)
    by (subst get_absolute_path.simps) (auto simp: upgrade_def join_slash_snoc)
qed

lemma walk_located:
  "fs_ok fs \<Longrightarrow> located fs r cs \<Longrightarrow> list_all ordinary cs \<Longrightarrow> walk fs get_root cs = Some (node_at fs r)"
proof (induction cs arbitrary: r rule: rev_induct)
  case Nil
  then have "r = get_root" by (auto elim: located.cases)
  then show ?case
    using fs_okD(1) [OF Nil.prems(1), of get_root] by (auto simp: is_root_def node_at_def)
next
  case (snoc name cs)
  obtain d where d: "located fs d cs" "map_of (children fs d) name = Some r" using located_snoc [OF snoc.prems(2)] .
  have "node_at fs d = Dir d" using d(2) by (auto simp: node_at_def children_def split: option.splits)
  then have "walk fs get_root cs = Some (Dir d)" using snoc.IH [OF snoc.prems(1) d(1)] snoc.prems(3) by simp
  then show ?case
    using d(2) snoc.prems(3) by (auto simp: walk_append dir_get_def ordinary_def node_at_def split: option.split)
qed

text \<open>The components of a relative path: up to the common directory, and down from there.\<close>

fun common_prefix :: "string list \<Rightarrow> string list \<Rightarrow> nat" where
  "common_prefix (a # as) (b # bs) = (if a = b then Suc (common_prefix as bs) else 0)"
| "common_prefix _ _ = 0"

lemma common_prefix_le: "common_prefix as bs \<le> length as" "common_prefix as bs \<le> length bs"
  by (induction as bs rule: common_prefix.induct) auto

lemma common_prefix_take: "take (common_prefix as bs) as = take (common_prefix as bs) bs"
  by (induction as bs rule: common_prefix.induct) auto

lemma relative_loop_up: "relative_loop [] bs comps = Some (comps @ replicate (length bs) ''..'')"
  by (induction bs arbitrary: comps) (auto simp: replicate_app_Cons_same)

lemma relative_loop_eq:
  assumes "list_all ordinary bs"
  shows "relative_loop as bs [] =
    Some (replicate (length bs - common_prefix as bs) ''..'' @ drop (common_prefix as bs) as)"
  using assms
proof (induction as arbitrary: bs)
  case Nil
  then show ?case using relative_loop_up [of bs "[]"] by simp
next
  case (Cons a as)
  then show ?case by (cases bs) (auto simp: ordinary_def)
qed

lemma walk_up:
  assumes "fs_ok fs" "located fs d (cs @ ds)"
  shows "\<exists>e. located fs e cs \<and> walk fs d (replicate (length ds) ''..'' @ es) = walk fs e es"
  using assms(2)
proof (induction ds arbitrary: d rule: rev_induct)
  case (snoc x ds)
  obtain p where p: "located fs p (cs @ ds)" "get_parent_dir fs d = Some p"
    using located_parent [OF assms(1), of d "cs @ ds" x] snoc.prems by auto
  then show ?case using snoc.IH [OF p(1)] by simp
qed auto

lemma walk_down:
  assumes "fs_ok fs" "located fs e cs" "located fs r (cs @ ds)" "list_all ordinary (cs @ ds)" "is_directory fs e"
  shows "walk fs e ds = Some (node_at fs r)"
proof -
  have "walk fs get_root cs = Some (Dir e)"
    using walk_located [OF assms(1,2)] assms(4,5) by (auto simp: node_at_def is_directory_def)
  moreover have "walk fs get_root (cs @ ds) = Some (node_at fs r)"
    using walk_located [OF assms(1,3,4)] .
  ultimately show ?thesis by (simp add: walk_append)
qed

lemma located_directory: "fs_ok fs \<Longrightarrow> located fs r (cs @ ds) \<Longrightarrow> ds \<noteq> [] \<Longrightarrow> located fs e cs \<Longrightarrow> list_all ordinary cs \<Longrightarrow> is_directory fs e"
proof (induction ds arbitrary: r rule: rev_induct)
  case (snoc x ds)
  obtain d where d: "located fs d (cs @ ds)" "map_of (children fs d) x = Some r"
    using located_snoc [of fs r "cs @ ds" x] snoc.prems(2) by auto
  show ?case
  proof (cases "ds = []")
    case True
    have "is_directory fs d"
      using d(2) by (auto simp: is_directory_def children_def split: option.splits)
    moreover have "node_at fs d = node_at fs e"
      using walk_located [OF snoc.prems(1) snoc.prems(4,5)] walk_located [OF snoc.prems(1), of d cs] d(1) True snoc.prems(5) by simp
    then have "d = e" by (metis node_at_ref)
    ultimately show ?thesis by simp
  next
    case False
    then show ?thesis using snoc.IH [OF snoc.prems(1) d(1)] snoc.prems by simp
  qed
qed simp

end
