(* ===== verification/FileProperties.thy ===== *)
theory FileProperties
  imports FileTree
begin

text \<open>
  Properties of the file tree: the absolute path of a node leads to the node, the relative path between two
  nodes leads from one to the other, and what a path that goes on after a file means.
\<close>

section \<open>Lemmas\<close>

lemma located_unique:
  assumes "fs_ok fs" "located fs r cs" "located fs e cs" "list_all ordinary cs"
  shows "r = e"
proof -
  have "node_at fs r = node_at fs e" using walk_located [OF assms(1,2,4)] walk_located [OF assms(1,3,4)] by simp
  then show ?thesis by (metis node_at_ref)
qed

lemma absolute_join: "is_absolute (''/'' @ p)" "components (''/'' @ join_slash cs) = components (join_slash cs)"
  by (simp_all add: is_absolute_def)

lemma list_all_nameable: "list_all ordinary cs \<Longrightarrow> list_all nameable cs"
  by (auto simp: list_all_iff ordinary_nameable)

lemma join_slash_relative: "list_all nameable cs \<Longrightarrow> \<not> is_absolute (join_slash cs)"
  by (cases cs rule: join_slash.cases) (auto simp: is_absolute_def nameable_def Cons_eq_append_conv append_eq_Cons_conv split: list.splits)

lemma relative_join:
  assumes "list_all ordinary as" "list_all ordinary bs"
  shows "relative (''/'' @ join_slash as) (''/'' @ join_slash bs) =
    Some (join_slash (replicate (length bs - common_prefix as bs) ''..'' @ drop (common_prefix as bs) as))"
proof -
  let ?cs = "replicate (length bs - common_prefix as bs) ''..'' @ drop (common_prefix as bs) as"
  have "butlast (concat (map (\<lambda>c. c @ ''/'') ?cs)) = join_slash ?cs"
    by (cases "?cs = []") (simp_all add: butlast_slashes del: map_append map_replicate)
  then show ?thesis
    using components_join [OF list_all_nameable [OF assms(1)]] components_join [OF list_all_nameable [OF assms(2)]]
    by (simp add: relative_def relative_loop_eq [OF assms(2)])
qed

section \<open>Properties\<close>

text \<open>
  (C32) Absolute paths lead back. After any history of creating, replacing, removing and freeing files and
  directories, every node that is in the tree, under ordinary names, has an absolute path, and that path
  leads to this node from every starting directory.
\<close>
theorem absolute_path_roundtrip:
  assumes "fs_reachable fs" "located fs r cs" "list_all ordinary cs"
  shows "\<exists>p. get_absolute_path fs r = Some p \<and> is_absolute p \<and> components p = cs
    \<and> path_get fs p start = Some (node_at fs r) \<and> get_absolute fs p = Some (node_at fs r)"
proof -
  have ok: "fs_ok fs" using fs_reachable_ok [OF assms(1)] .
  let ?p = "''/'' @ join_slash cs"
  have "get_absolute_path fs r = Some ?p"
    using absolute_path_located [OF ok assms(2) list_all_nameable [OF assms(3)]] .
  moreover have c: "components ?p = cs" using components_join [OF list_all_nameable [OF assms(3)]] by simp
  ultimately show ?thesis
    using walk_located [OF ok assms(2,3)] absolute_join(1) by (simp add: path_get_def get_absolute_def is_absolute_def)
qed

text \<open>
  (C33) Relative paths lead there. For two nodes in the tree, under ordinary names, of which the second is a
  directory, the path of the first relative to the second exists, and from the second it leads to the first.
\<close>
theorem relative_path_resolves:
  assumes "fs_reachable fs" "located fs r cs" "list_all ordinary cs" "located fs d ds" "list_all ordinary ds" "is_directory fs d"
    and "get_absolute_path fs r = Some p" "get_absolute_path fs d = Some w"
  shows "\<exists>q. relative p w = Some q \<and> \<not> is_absolute q \<and> path_get fs q d = Some (node_at fs r)"
proof -
  have ok: "fs_ok fs" using fs_reachable_ok [OF assms(1)] .
  let ?k = "common_prefix cs ds"
  let ?up = "replicate (length ds - ?k) ''..''" and ?down = "drop ?k cs"
  have p: "p = ''/'' @ join_slash cs" "w = ''/'' @ join_slash ds"
    using absolute_path_located [OF ok assms(2) list_all_nameable [OF assms(3)]]
      absolute_path_located [OF ok assms(4) list_all_nameable [OF assms(5)]] assms(7,8) by simp_all
  have names: "list_all nameable (?up @ ?down)"
    using list_all_nameable [OF assms(3)] by (auto simp: list_all_iff nameable_def dest: in_set_dropD)
  obtain e where e: "located fs e (take ?k ds)" "walk fs d (?up @ ?down) = walk fs e ?down"
    using walk_up [OF ok, of d "take ?k ds" "drop ?k ds" ?down] assms(4) common_prefix_le(2) [of cs ds] by (auto simp: min_def)
  have pre: "list_all ordinary (take ?k ds)" using assms(5) by (auto simp: list_all_iff dest: in_set_takeD)
  have "is_directory fs e"
  proof (cases "drop ?k ds = []")
    case True
    then have "e = d" using e(1) assms(4,5) located_unique [OF ok, of e ds d] by simp
    then show ?thesis using assms(6) by simp
  next
    case False
    then show ?thesis using located_directory [OF ok, of d "take ?k ds" "drop ?k ds" e] assms(4) e(1) pre by simp
  qed
  moreover have "located fs e (take ?k cs)" using e(1) common_prefix_take [of cs ds] by simp
  ultimately have "walk fs e ?down = Some (node_at fs r)"
    using walk_down [OF ok, of e "take ?k cs" r ?down] assms(2,3) by simp
  then show ?thesis
    using relative_join [OF assms(3,5)] p e(2) join_slash_relative [OF names] components_join [OF names]
    by (simp add: path_get_def)
qed

text \<open>
  A file ends the walk. If a path leads to a file, then every longer path with that prefix leads to the same file,
  whatever components follow, although nothing of that name exists.
\<close>
lemma path_goes_on_after_file:
  assumes "fs_reachable fs" "located fs r cs" "list_all ordinary cs" "node_at fs r = File r" "list_all nameable extra"
  shows "path_get fs (''/'' @ join_slash (cs @ extra)) start = Some (File r)"
proof -
  have "components (''/'' @ join_slash (cs @ extra)) = cs @ extra"
    using components_join [of "cs @ extra"] list_all_nameable [OF assms(3)] assms(5) by simp
  then show ?thesis
    using walk_located [OF fs_reachable_ok [OF assms(1)] assms(2,3)] assms(4)
    by (simp add: path_get_def is_absolute_def walk_append)
qed

section \<open>An example tree\<close>

definition example_fs :: fs where
  "example_fs = file_create (dir_create (dir_create fs_init 1 ''usr'' 0) 2 ''bin'' 0) 3 ''ls'' 2"

lemma example_fs_eq:
  "example_fs = [0 \<mapsto> \<lparr>fn_name = [], fn_parent = None, fn_kind = RootNode [(''usr'', 1), (''bin'', 2)]\<rparr>,
    1 \<mapsto> \<lparr>fn_name = ''usr'', fn_parent = Some 0, fn_kind = DirNode []\<rparr>,
    2 \<mapsto> \<lparr>fn_name = ''bin'', fn_parent = Some 0, fn_kind = DirNode [(''ls'', 3)]\<rparr>,
    3 \<mapsto> \<lparr>fn_name = ''ls'', fn_parent = Some 2, fn_kind = FileNode\<rparr>]"
  by (rule ext) (simp add: example_fs_def dir_create_def file_create_def create_node_def dir_insert_def fs_init_def get_root_def
      ROOT_DIRECTORY_NAME_def get_name_def node_at_def children_def set_children_def Let_def)

lemma example_fs_reachable: "fs_reachable example_fs"
proof -
  let ?f1 = "dir_create fs_init 1 ''usr'' 0"
  let ?f2 = "dir_create ?f1 2 ''bin'' 0"
  note ex = dir_create_def create_node_def dir_insert_def fs_init_def get_root_def ROOT_DIRECTORY_NAME_def get_name_def node_at_def
    children_def set_children_def Let_def fresh_def is_directory_def ran_def
  have 1: "fs_step fs_init ?f1" by (rule fs_step.create_dir) (auto simp: ex)
  have f1: "?f1 = [0 \<mapsto> \<lparr>fn_name = [], fn_parent = None, fn_kind = RootNode [(''usr'', 1)]\<rparr>,
      1 \<mapsto> \<lparr>fn_name = ''usr'', fn_parent = Some 0, fn_kind = DirNode []\<rparr>]"
    by (rule ext) (simp add: ex)
  have 2: "fs_step ?f1 ?f2" by (rule fs_step.create_dir) (auto simp: f1 ex split: if_splits)
  have f2: "?f2 = [0 \<mapsto> \<lparr>fn_name = [], fn_parent = None, fn_kind = RootNode [(''usr'', 1), (''bin'', 2)]\<rparr>,
      1 \<mapsto> \<lparr>fn_name = ''usr'', fn_parent = Some 0, fn_kind = DirNode []\<rparr>,
      2 \<mapsto> \<lparr>fn_name = ''bin'', fn_parent = Some 0, fn_kind = DirNode []\<rparr>]"
    unfolding f1 by (rule ext) (simp add: ex)
  have 3: "fs_step ?f2 example_fs" unfolding example_fs_def by (rule fs_step.create_file) (auto simp: f2 ex split: if_splits)
  show ?thesis using fs_next [OF fs_next [OF fs_next [OF fs_start 1] 2] 3] .
qed

lemma example_located:
  "located example_fs 1 [''usr'']" "located example_fs 2 [''bin'']" "located example_fs 3 [''bin'', ''ls'']"
proof -
  have root: "located example_fs 0 []" using located_root [of example_fs] by (simp add: get_root_def)
  show "located example_fs 1 [''usr'']" "located example_fs 2 [''bin'']"
    using located_child [OF root] by (auto simp: example_fs_eq children_def)
  from located_child [OF this(2), of "''ls''" 3] show "located example_fs 3 [''bin'', ''ls'']"
    by (simp add: example_fs_eq children_def)
qed

lemma example_names: "list_all ordinary [''usr'']" "list_all ordinary [''bin'', ''ls'']"
  by (simp_all add: ordinary_def)

theorem absolute_path_roundtrip_witness:
  "\<exists>p. get_absolute_path example_fs 3 = Some p \<and> path_get example_fs p 1 = Some (File 3)"
  using absolute_path_roundtrip [OF example_fs_reachable example_located(3) example_names(2), of 1]
  by (auto simp: node_at_def example_fs_eq)

theorem relative_path_resolves_witness:
  "\<exists>p w q. get_absolute_path example_fs 3 = Some p \<and> get_absolute_path example_fs 1 = Some w
    \<and> relative p w = Some q \<and> path_get example_fs q 1 = Some (File 3)"
proof -
  obtain p w where p: "get_absolute_path example_fs 3 = Some p" "get_absolute_path example_fs 1 = Some w"
    using absolute_path_located [OF fs_reachable_ok [OF example_fs_reachable]] example_located(1,3)
      list_all_nameable [OF example_names(1)] list_all_nameable [OF example_names(2)] by blast
  moreover have "is_directory example_fs 1" "node_at example_fs 3 = File 3"
    by (simp_all add: is_directory_def node_at_def example_fs_eq)
  ultimately show ?thesis
    using relative_path_resolves [OF example_fs_reachable example_located(3) example_names(2) example_located(1) example_names(1)]
    by metis
qed

lemma path_goes_on_example:
  "path_get example_fs ''/bin/ls/no/such'' 1 = Some (File 3)"
proof -
  have "node_at example_fs 3 = File 3" by (simp add: node_at_def example_fs_eq)
  moreover have "list_all nameable [''no'', ''such'']" by (simp add: nameable_def)
  ultimately show ?thesis
    using path_goes_on_after_file [OF example_fs_reachable example_located(3) example_names(2), of "[''no'', ''such'']" 1] by simp
qed

end
