(* ===== verification/Spec2Isabelle.thy ===== *)
theory Spec2Isabelle
  imports FrameProperties PageProperties MappedPagesProperties SchedSystem TokenPriority RateMonotonic Sleep Rendezvous AtomicList BlockCache MemFiles FileProperties
begin

text \<open>
  \<^bold>\<open>Verification of the core of the Theseus operating system.\<close>

  Theseus is a kernel written in Rust in which resources are values: whoever holds an
  \<open>AllocatedFrames\<close>, an \<open>AllocatedPages\<close> or a \<open>MappedPages\<close> owns the memory, and dropping the value gives it
  back. This library models the crates on which the rest of the kernel stands, and proves what makes them
  correct. All paths below are under \<^verbatim>\<open>src/\<close>.

  \<^bold>\<open>1. Memory.\<close> The frame allocator and the page allocator keep free chunks in an array before the heap
  exists and in a red-black tree afterwards; the mapper takes pages from one, frames from the other, and
  writes page table entries.

    \<^item> \<open>MemoryStructs\<close>: \<^verbatim>\<open>kernel/memory_structs/src/lib.rs\<close> and the constants of
      \<^verbatim>\<open>kernel/kernel_config/src/memory.rs\<close>. Addresses, pages and frames are 64-bit words, ranges are records.
      Every operation yields canonical addresses.
    \<^item> \<open>StaticArrayRBTree\<close>: \<^verbatim>\<open>static_array_rb_tree.rs\<close> of both allocators. The tree is the external crate
      intrusive-collections: the record \<open>rbtree_api\<close> with the contract \<open>rbtree\<close>, which sorted lists satisfy.
    \<^item> \<open>FrameAllocator\<close>: \<^verbatim>\<open>kernel/frame_allocator/src/lib.rs\<close>. \<open>Ownership\<close>, \<open>FrameOwnership\<close>, \<open>FrameSystem\<close>,
      \<open>FrameInit\<close> and \<open>FrameProperties\<close>: no frame ever has two owners, allocation is exact and conserves
      frames, initialisation computes exactly the free and the reserved frames.
    \<^item> \<open>PageAllocator\<close>: \<^verbatim>\<open>kernel/page_allocator/src/lib.rs\<close>. \<open>PageOwnership\<close>, \<open>PageSystem\<close>, \<open>PageProperties\<close>: the
      same for pages, and the requests on which the merging of chunks goes wrong.
    \<^item> \<open>PteFlags\<close>, \<open>PteConversions\<close>: \<^verbatim>\<open>kernel/pte_flags/src/\<close>. The conversions between the general flags and
      those of x86_64 and aarch64 keep the meaning of every flag. The crate bitflags is the locale \<open>bitflags\<close>.
    \<^item> \<open>PageTableEntry\<close>: \<^verbatim>\<open>kernel/page_table_entry/src/lib.rs\<close>. An entry gives back the frame and flags put in.
    \<^item> \<open>Paging\<close>, \<open>MappedPages\<close>: \<^verbatim>\<open>kernel/memory/src/paging/table.rs\<close> and \<^verbatim>\<open>mapper.rs\<close>. \<open>PagingInv\<close>,
      \<open>PagingProperties\<close>, \<open>MappedPagesProperties\<close>: the page tables form a tree, so mapping, remapping and
      unmapping are point-wise updates of the map from pages to entries; the recursive addresses lead to
      the tables they stand for; typed views stay inside the mapping.

  \<^bold>\<open>2. Tasks and scheduling.\<close> A task is created by spawn, waits in the run queue of one CPU, is selected by
  the scheduler of that CPU, and ends by leaving an exit value that another task takes.

    \<^item> \<open>Tasks\<close>, \<open>TaskProperties\<close>: \<^verbatim>\<open>kernel/task/src/lib.rs\<close>. Exit values follow the abstract life of a task.
    \<^item> \<open>AtomicMap\<close>, \<open>RunQueues\<close>, \<open>Schedulers\<close>: \<^verbatim>\<open>libs/atomic_linked_list/src/atomic_map.rs\<close> and the crates
      \<^verbatim>\<open>kernel/runqueue_*\<close> and \<^verbatim>\<open>kernel/scheduler_*\<close>. \<open>RoundRobin\<close> and \<open>TokenPriority\<close>: bounds on how long a
      runnable task waits. \<open>RateMonotonic\<close>: the selected task has the shortest period.
    \<^item> \<open>Spawn\<close>, \<open>SchedSystem\<close>: \<^verbatim>\<open>kernel/spawn/src/lib.rs\<close> and \<^verbatim>\<open>kernel/scheduler/src/lib.rs\<close>, and all of the above
      as one transition system: no task runs on two CPUs, and scheduling never panics.
    \<^item> \<open>WaitQueue\<close>: \<^verbatim>\<open>kernel/wait_queue/src/lib.rs\<close>. No lost wake-ups, and one that is spent on a stale entry.
    \<^item> \<open>Rendezvous\<close>: \<^verbatim>\<open>kernel/rendezvous/src/lib.rs\<close>. Messages are received in the order sent, each once, whatever
      the interleaving of senders and receivers.
    \<^item> \<open>Sleep\<close>: \<^verbatim>\<open>kernel/sleep/src/lib.rs\<close> and the instants of \<^verbatim>\<open>kernel/time/src/lib.rs\<close>. The timer interrupt
      wakes exactly those whose time has passed, unless it comes in the middle of a call.
    \<^item> \<open>AtomicList\<close>: \<^verbatim>\<open>libs/atomic_linked_list/src/atomic_linked_list.rs\<close>. Every interleaving of the atomic
      steps of any number of threads refines a stack.

  \<^bold>\<open>3. Storage.\<close> A stream of bytes is laid over the blocks of a drive.

    \<^item> \<open>BlockIo\<close>, \<open>ByteStream\<close>: \<^verbatim>\<open>kernel/io/src/lib.rs\<close>. The locale \<open>block_device\<close> is the contract of a device,
      \<open>byte_stream\<close> that of byte-wise access; the wrappers turn the first into the second, and a stream with
      a position on top is a file.
    \<^item> \<open>AtaDrive\<close>: \<^verbatim>\<open>kernel/ata/src/lib.rs\<close>. The ports are the record \<open>ata_ports\<close>; under what the ATA standard
      says of them (\<open>ata_hw\<close>) the driver is a block device.
    \<^item> \<open>StorageProperties\<close>: the whole stack refines an array of bytes. \<open>BlockCache\<close>:
      \<^verbatim>\<open>kernel/block_cache/src/lib.rs\<close>, which is transparent.

  \<^bold>\<open>4. Files.\<close>

    \<^item> \<open>PathNames\<close>, \<open>FileTree\<close>, \<open>FileProperties\<close>: \<^verbatim>\<open>kernel/path\<close>, \<^verbatim>\<open>kernel/fs_node\<close>, \<^verbatim>\<open>kernel/vfs_node\<close>,
      \<^verbatim>\<open>kernel/root\<close> and \<^verbatim>\<open>kernel/environment\<close>. Absolute and relative paths lead to the node they were made for.
    \<^item> \<open>MemFiles\<close>: \<^verbatim>\<open>kernel/memfs/src/lib.rs\<close>, another \<open>byte_stream\<close>, and \<^verbatim>\<open>kernel/heapfile/src/lib.rs\<close>, whose
      reads and writes panic on most offsets.

  \<^bold>\<open>Reading the model.\<close>

    \<^item> State behind a lock or in a static is a record that functions take and return; a critical section is
      one step. What happens between two sections is a step of an \<open>inductive\<close> relation, so that the
      invariants hold for all interleavings of such steps.
    \<^item> A panic, and a loop that does not end, is \<open>None\<close> (\<open>'a panics\<close>); \<open>Result\<close> is \<open>('a, 'e) result\<close>. Theorems
      that say what a function returns say that it returns.
    \<^item> \<open>usize\<close> and \<open>u64\<close> are 64-bit words whose arithmetic wraps around, as in the release profile. In the
      theories of storage and files they are natural numbers below \<open>2 ^ 64\<close> and the wrap-around is written
      out (\<open>uadd\<close>, \<open>usub\<close>, \<open>umul\<close>).
    \<^item> There is no fuel. Loops whose end depends on an external component (the cursor of a tree, the status
      port of a drive, the parents of a directory) are partial functions; that they end is proved from the
      contract of the component (\<open>rbtree\<close>, \<open>ata_hw\<close>, \<open>fs_ok\<close>). All other loops are total functions.
    \<^item> Shared pointers are addresses in a store; equality of references is equality of addresses.

  \<^bold>\<open>What the theorems assume.\<close>

    \<^item> The contracts of external code are locales: \<open>rbtree\<close>, \<open>bitflags\<close>, \<open>bit_field\<close>, \<open>ata_hw\<close>. Each is
      interpreted on an executable implementation (\<open>list_rbtree\<close>, \<open>bitwise_flags\<close>, \<open>get_bits_reference\<close>,
      \<open>sim_ports\<close>), which is also what the witnesses of the properties run on.
    \<^item> The atomic operations are sequentially consistent.
    \<^item> In \<open>SchedSystem\<close> the idle tasks are not killed by other tasks, and
      fewer than \<open>2 ^ 64\<close> task identifiers are handed out.
    \<^item> The requests to the page allocator end below the largest page, and a request at a given page does not
      depend on the merging of chunks; \<open>PageProperties\<close> shows what happens otherwise.
    \<^item> The transfers through the stream over a drive stay inside it, hold at most as many sectors as the
      drive takes at once and do not cross the largest 28-bit sector; \<open>StorageProperties\<close> shows what
      happens otherwise.

  \<^bold>\<open>Not modelled.\<close>

    \<^item> Code that is instructions, registers or tables of the machine: boot, context switch, interrupts,
      hardware timers, the flushing of the TLB, unwinding, thread-local storage. Its effects on the modelled state,
      such as a task switch or the end of a task that panicked, are steps of the model.
    \<^item> The heap (\<^verbatim>\<open>slabmalloc\<close> and its variants), which reads and writes its bookkeeping inside raw memory.
    \<^item> Loading and replacing crates at run time, which works on ELF files with external crates.
    \<^item> Channels and locks beyond the wait queue and the rendezvous channel; device discovery; the network, display, keyboard and serial
      drivers; the applications, the C library and the tools.
\<close>

end
